(* ===== verification/Prelude.thy ===== *)
theory Prelude
  imports Main "HOL-Library.Word"
begin

text \<open>
  The shared base of the development: names for the machine integers and for durations, Rust's
  saturating subtraction, the result type of fallible operations, and the generic lemmas and
  fact collections that the component theories use.
\<close>

section \<open>Fact collections\<close>

named_theorems frame_trans \<open>transitivity of the frame relations\<close>
named_theorems syn_defs \<open>the SYN branch of the receive path\<close>
named_theorems initiate_defs \<open>the start of a handshake\<close>

section \<open>Machine integers, durations and results\<close>

text \<open>
  \<^verbatim>\<open>usize\<close> only counts bytes and segments held in memory, so it is a natural number.
  A duration is its number of nanoseconds.
\<close>

type_synonym u8 = "8 word"
type_synonym u16 = "16 word"
type_synonym u32 = "32 word"
type_synonym u64 = "64 word"
type_synonym i32 = "32 word"
type_synonym usize = nat
type_synonym bytes = "u8 list"
type_synonym duration = nat

abbreviation from_millis :: "u64 \<Rightarrow> duration" where
  "from_millis ms \<equiv> unat ms * 1000000"

abbreviation from_secs :: "u64 \<Rightarrow> duration" where
  "from_secs s \<equiv> unat s * 1000000000"

text \<open>\<^verbatim>\<open>Duration::as_millis() as u64\<close>: whole milliseconds, truncated to 64 bits.\<close>

definition as_millis_u64 :: "duration \<Rightarrow> u64" where
  "as_millis_u64 d = word_of_nat (d div 1000000)"

text \<open>\<^verbatim>\<open>u64::saturating_sub\<close>.\<close>

definition saturating_sub :: "u64 \<Rightarrow> u64 \<Rightarrow> u64" where
  "saturating_sub a b = (if a < b then 0 else a - b)"

lemma unat_saturating_sub: "unat (saturating_sub a b) = unat a - unat b"
  by (auto simp: saturating_sub_def unat_sub word_less_nat_alt word_le_nat_alt not_less)

lemma saturating_sub_self [simp]: "saturating_sub a a = 0"
  by (simp add: saturating_sub_def)

lemma as_millis_from_millis [simp]: "as_millis_u64 (from_millis ms) = ms"
  by (simp add: as_millis_u64_def)

section \<open>Generic lemmas\<close>

lemma length_eq_4_conv: "length xs = 4 \<longleftrightarrow> (\<exists>a b c d. xs = [a, b, c, d])"
  by (auto simp: numeral_eq_Suc length_Suc_conv)

lemma take_4_conv:
  assumes "4 \<le> length xs"
  obtains a b c d where "take 4 xs = [a, b, c, d]"
proof -
  from assms have "length (take 4 xs) = 4" by simp
  then show thesis unfolding length_eq_4_conv using that by blast
qed

lemma map_of_Some_snd: "map_of xs k = Some v \<Longrightarrow> v \<in> snd ` set xs"
  by (force dest: map_of_SomeD)

lemma replicate_3 [simp]: "replicate 3 x = [x, x, x]"
  by (simp add: numeral_eq_Suc)

end
