(* ===== verification/Net_Addr.thy ===== *)
theory Net_Addr
  imports Prelude "HOL-Library.Product_Lexorder"
begin

text \<open>
  Socket addresses and their canonical form (\<^verbatim>\<open>CanonicalAddr\<close> and
  \<^verbatim>\<open>canonicalize\<close> of \<^verbatim>\<open>src/src/transport.rs\<close>). The address types and their
  derived ordering are those of \<^verbatim>\<open>std::net\<close>: an IPv4 address is a 32-bit word, an IPv6
  address a 128-bit word, both most significant octet first, so that the ordering of the octet
  arrays is the ordering of the words.
\<close>

section \<open>Addresses\<close>

datatype sock_addr =
    V4 (v4_ip: "32 word") (v4_port: u16)
  | V6 (v6_ip: "128 word") (v6_port: u16) (v6_flowinfo: u32) (v6_scope_id: u32)

text \<open>
  The derived order of \<^verbatim>\<open>SocketAddr\<close>: variants in declaration order, then the fields
  lexicographically.
\<close>

fun sock_key :: "sock_addr \<Rightarrow> nat \<times> nat \<times> nat \<times> nat \<times> nat" where
  "sock_key (V4 ip port) = (0, unat ip, unat port, 0, 0)"
| "sock_key (V6 ip port flowinfo scope_id) =
     (1, unat ip, unat port, unat flowinfo, unat scope_id)"

lemma sock_key_inject: "sock_key a = sock_key b \<longleftrightarrow> a = b"
  by (cases a; cases b) (auto simp: word_unat_eq_iff)

instantiation sock_addr :: linorder
begin

definition less_eq_sock_addr :: "sock_addr \<Rightarrow> sock_addr \<Rightarrow> bool" where
  "less_eq_sock_addr a b \<longleftrightarrow> sock_key a \<le> sock_key b"

definition less_sock_addr :: "sock_addr \<Rightarrow> sock_addr \<Rightarrow> bool" where
  "less_sock_addr a b \<longleftrightarrow> sock_key a < sock_key b"

instance
  by standard
    (auto simp: less_eq_sock_addr_def less_sock_addr_def sock_key_inject [symmetric] intro: order_trans)

end

text \<open>\<^verbatim>\<open>Ipv6Addr::to_ipv4_mapped\<close>: the addresses \<open>::ffff:a.b.c.d\<close>.\<close>

definition to_ipv4_mapped :: "128 word \<Rightarrow> 32 word option" where
  "to_ipv4_mapped ip = (if drop_bit 32 ip = 0xFFFF then Some (ucast ip) else None)"

section \<open>Canonical addresses\<close>

datatype canonical_addr = CanonicalAddr (deref: sock_addr)

definition canonicalize :: "sock_addr \<Rightarrow> canonical_addr" where
  "canonicalize addr =
     CanonicalAddr
       (case addr of
          V6 ip port flowinfo scope_id \<Rightarrow>
            (case to_ipv4_mapped ip of
               Some v4 \<Rightarrow> V4 v4 port
             | None \<Rightarrow> V6 ip port flowinfo scope_id)
        | V4 ip port \<Rightarrow> V4 ip port)"

text \<open>The IPv4 endpoint an address denotes, in plain or in mapped form.\<close>

fun ipv4_endpoint :: "sock_addr \<Rightarrow> (32 word \<times> u16) option" where
  "ipv4_endpoint (V4 ip port) = Some (ip, port)"
| "ipv4_endpoint (V6 ip port _ _) = map_option (\<lambda>v4. (v4, port)) (to_ipv4_mapped ip)"

section \<open>Lemmas\<close>

lemma sock_addr_less_iff: "a < b \<longleftrightarrow> sock_key a < sock_key b"
  by (simp add: less_sock_addr_def)

lemma canonicalize_V4 [simp]: "canonicalize (V4 ip port) = CanonicalAddr (V4 ip port)"
  by (simp add: canonicalize_def)

lemma canonicalize_cases:
  "deref (canonicalize a) =
     (case ipv4_endpoint a of Some (ip, port) \<Rightarrow> V4 ip port | None \<Rightarrow> a)"
  by (cases a) (auto simp: canonicalize_def split: option.splits)

lemma canonicalize_None: "ipv4_endpoint a = None \<Longrightarrow> canonicalize a = CanonicalAddr a"
  by (simp add: canonical_addr.expand canonicalize_cases)

lemma canonicalize_Some:
  "ipv4_endpoint a = Some (ip, port) \<Longrightarrow> canonicalize a = CanonicalAddr (V4 ip port)"
  by (simp add: canonical_addr.expand canonicalize_cases)

lemma ipv4_endpoint_deref: "ipv4_endpoint (deref (canonicalize a)) = ipv4_endpoint a"
  by (cases "ipv4_endpoint a") (auto simp: canonicalize_None canonicalize_Some)

text \<open>
  C32. The session map's key identifies exactly the two spellings of an IPv4 endpoint: two socket
  addresses have the same canonical form iff they are equal or both denote the same IPv4 address
  and port, in plain or IPv4-mapped form; and canonicalizing a canonical address changes nothing,
  so the key of a session does not depend on how often it is normalised.
\<close>

theorem canonicalize_kernel:
  "(canonicalize a = canonicalize b \<longleftrightarrow>
      a = b \<or> (\<exists>ep. ipv4_endpoint a = Some ep \<and> ipv4_endpoint b = Some ep)) \<and>
   canonicalize (deref (canonicalize a)) = canonicalize a"
proof (intro conjI iffI)
  assume eq: "canonicalize a = canonicalize b"
  then have "ipv4_endpoint a = ipv4_endpoint b" by (metis ipv4_endpoint_deref)
  with eq show "a = b \<or> (\<exists>ep. ipv4_endpoint a = Some ep \<and> ipv4_endpoint b = Some ep)"
    by (cases "ipv4_endpoint b") (simp_all add: canonicalize_None)
next
  assume "a = b \<or> (\<exists>ep. ipv4_endpoint a = Some ep \<and> ipv4_endpoint b = Some ep)"
  then show "canonicalize a = canonicalize b" by (auto simp: canonicalize_Some)
next
  show "canonicalize (deref (canonicalize a)) = canonicalize a"
    by (cases "ipv4_endpoint a") (auto simp: canonicalize_None canonicalize_Some)
qed

end
