(* ===== verification/Platform.thy ===== *)
theory Platform
  imports Net_Addr
begin

text \<open>
  The errors of the crate (\<^verbatim>\<open>src/src/error.rs\<close>) and the operating system as the crate sees
  it: the system clock behind \<^verbatim>\<open>epoch_ms\<close> and \<^verbatim>\<open>current_ms\<close>
  (\<^verbatim>\<open>src/src/session.rs\<close>) and the one UDP socket all sessions share. The outcome of every
  clock reading and of every send is chosen by the environment: the platform carries it as a
  function of the number of the call. The socket keeps a log of the datagrams handed to it.
\<close>

section \<open>Errors\<close>

datatype io_error_kind = WouldBlock | InvalidData | OtherIo

datatype io_error = IoError (io_kind: io_error_kind) (io_message: string)

text \<open>An error of the KCP crate is only ever wrapped and displayed: its rendering stands for it.\<close>

type_synonym kcp_error = string

datatype error =
    Io io_error
  | Kcp kcp_error
  | SessionNotFound sock_addr
  | DeadLink
  | ShuttingDown
  | EventChannelLagged u64
  | SessionClosed

type_synonym 'a result = "error + 'a"

section \<open>The platform\<close>

record datagram =
  dg_to :: sock_addr
  dg_bytes :: bytes

record platform =
  sys_clock :: "nat \<Rightarrow> int"
  clock_reads :: nat
  send_outcome :: "nat \<Rightarrow> bytes \<Rightarrow> io_error + usize"
  wire :: "datagram list"
  sock_local_addr :: "io_error + sock_addr"

text \<open>
  \<^verbatim>\<open>UNIX_EPOCH.elapsed().unwrap_or_default().as_millis() as u64\<close>: the clock reads nanoseconds
  since the epoch; a clock set before the epoch gives the default duration, zero.
\<close>

definition epoch_ms :: "platform \<Rightarrow> u64 \<times> platform" where
  "epoch_ms w =
     (let elapsed = (if sys_clock w (clock_reads w) < 0 then 0 else nat (sys_clock w (clock_reads w)))
      in (as_millis_u64 elapsed, w\<lparr>clock_reads := Suc (clock_reads w)\<rparr>))"

definition current_ms :: "platform \<Rightarrow> u32 \<times> platform" where
  "current_ms w = (case epoch_ms w of (ms, w') \<Rightarrow> (ucast ms, w'))"

text \<open>
  One datagram offered to the socket. \<^verbatim>\<open>try_send_to\<close> and the awaited \<^verbatim>\<open>send_to\<close>
  differ in what happens when the socket is not writable (an error \<^verbatim>\<open>WouldBlock\<close> against
  waiting), which is in the environment's outcome.
\<close>

definition try_send_to :: "bytes \<Rightarrow> sock_addr \<Rightarrow> platform \<Rightarrow> (io_error + usize) \<times> platform" where
  "try_send_to buf peer w =
     (let r = send_outcome w (length (wire w)) buf
      in (r, w\<lparr>wire := wire w @ [\<lparr>dg_to = peer, dg_bytes = buf\<rparr>]\<rparr>))"

abbreviation send_to :: "bytes \<Rightarrow> sock_addr \<Rightarrow> platform \<Rightarrow> (io_error + usize) \<times> platform" where
  "send_to \<equiv> try_send_to"

text \<open>\<^verbatim>\<open>for _ in 0..n { let _ = socket.try_send_to(buf, peer); }\<close>\<close>

fun send_copies :: "nat \<Rightarrow> bytes \<Rightarrow> sock_addr \<Rightarrow> platform \<Rightarrow> platform" where
  "send_copies 0 buf peer w = w"
| "send_copies (Suc n) buf peer w = send_copies n buf peer (snd (try_send_to buf peer w))"

text \<open>
  The log: destination and bytes of every datagram offered to the socket, in order. The outcome of
  number \<open>n\<close> of the log is the answer of \<open>send_outcome\<close> for \<open>n\<close>; what has left the
  socket, and what a network can deliver, are the datagrams it took. A UDP socket takes a datagram whole
  or not at all, which \<open>datagrams_whole\<close> states; \<open>accepting\<close> is a socket that takes everything.
\<close>

definition offered :: "platform \<Rightarrow> (sock_addr \<times> bytes) list" where
  "offered w = map (\<lambda>d. (dg_to d, dg_bytes d)) (wire w)"

definition sent :: "platform \<Rightarrow> (sock_addr \<times> bytes) list" where
  "sent w = map snd (filter (\<lambda>(n, _, buf). \<not> isl (send_outcome w n buf)) (enumerate 0 (offered w)))"

definition accepting :: "platform \<Rightarrow> bool" where
  "accepting w \<longleftrightarrow> (\<forall>n buf. send_outcome w n buf = Inr (length buf))"

definition datagrams_whole :: "platform \<Rightarrow> bool" where
  "datagrams_whole w \<longleftrightarrow> (\<forall>n buf m. send_outcome w n buf = Inr m \<longrightarrow> m = length buf)"

section \<open>Lemmas\<close>

lemma offered_try_send_to [simp]:
  "offered (snd (try_send_to buf peer w)) = offered w @ [(peer, buf)]"
  by (simp add: try_send_to_def offered_def Let_def)

lemma sent_try_send_to:
  "sent (snd (try_send_to buf peer w)) =
     sent w @ (case fst (try_send_to buf peer w) of Inl _ \<Rightarrow> [] | Inr _ \<Rightarrow> [(peer, buf)])"
  by (auto simp: sent_def offered_def try_send_to_def enumerate_append_eq Let_def split: sum.split)

lemma sent_offered: "set (sent w) \<subseteq> set (offered w)"
proof -
  have "set (sent w) \<subseteq> snd ` set (enumerate 0 (offered w))" unfolding sent_def by auto
  also have "snd ` set (enumerate 0 (offered w)) = set (offered w)" by (metis list.set_map map_snd_enumerate)
  finally show ?thesis .
qed

lemma sent_accepting: "accepting w \<Longrightarrow> sent w = offered w"
  by (simp add: sent_def accepting_def split_beta)

lemma offered_send_copies [simp]:
  "offered (send_copies n buf peer w) = offered w @ replicate n (peer, buf)"
  by (induction n arbitrary: w) auto

lemma offered_epoch_ms [simp]: "offered (snd (epoch_ms w)) = offered w"
  by (simp add: epoch_ms_def offered_def Let_def)

lemma offered_current_ms [simp]: "offered (snd (current_ms w)) = offered w"
  by (simp add: current_ms_def split_beta)

text \<open>Nothing the crate does changes what the environment will answer.\<close>

definition same_oracles :: "platform \<Rightarrow> platform \<Rightarrow> bool" where
  "same_oracles w w' \<longleftrightarrow> sys_clock w' = sys_clock w \<and> send_outcome w' = send_outcome w \<and>
     sock_local_addr w' = sock_local_addr w"

lemma same_oracles_refl [simp, intro]: "same_oracles w w"
  by (simp add: same_oracles_def)

lemma same_oracles_trans [trans, frame_trans]:
  "same_oracles w w' \<Longrightarrow> same_oracles w' w'' \<Longrightarrow> same_oracles w w''"
  by (simp add: same_oracles_def)

lemma accepting_same: "same_oracles w w' \<Longrightarrow> accepting w \<Longrightarrow> accepting w'"
  by (simp add: same_oracles_def accepting_def)

lemma same_oracles_try_send_to [simp]: "same_oracles w (snd (try_send_to buf peer w))"
  by (simp add: same_oracles_def try_send_to_def Let_def)

lemma same_oracles_epoch_ms [simp]: "same_oracles w (snd (epoch_ms w))"
  by (simp add: same_oracles_def epoch_ms_def Let_def)

lemma same_oracles_current_ms [simp]: "same_oracles w (snd (current_ms w))"
  by (simp add: current_ms_def split_beta)

lemma same_oracles_send_copies [simp]: "same_oracles w (send_copies n buf peer w)"
  by (induction n arbitrary: w)
    (simp_all, blast intro: same_oracles_trans same_oracles_try_send_to)

lemma epoch_ms_facts:
  assumes "epoch_ms w = (t, w')"
  shows "offered w' = offered w" "same_oracles w w'" "clock_reads w' = Suc (clock_reads w)"
  using offered_epoch_ms [of w] same_oracles_epoch_ms [of w] assms
  by (auto simp: epoch_ms_def Let_def)

text \<open>The value of a clock reading on a clock set after the epoch.\<close>

definition reading :: "platform \<Rightarrow> nat \<Rightarrow> nat" where
  "reading w n = nat (sys_clock w n) div 1000000"

lemma reading_same_oracles: "same_oracles w w' \<Longrightarrow> reading w' = reading w"
  by (simp add: reading_def same_oracles_def fun_eq_iff)

lemma unat_epoch_ms:
  assumes "reading w (clock_reads w) < 2 ^ 64"
  shows "unat (fst (epoch_ms w)) = reading w (clock_reads w)"
  using assms by (simp add: epoch_ms_def reading_def Let_def as_millis_u64_def unat_of_nat)

text \<open>
  A well-behaved platform to run the model on: the clock advances by \<open>step\<close> milliseconds from one
  reading to the next and every datagram is taken.
\<close>

definition fair_platform :: "sock_addr \<Rightarrow> int \<Rightarrow> platform" where
  "fair_platform addr step =
     \<lparr>sys_clock = (\<lambda>n. (int n + 1) * step * 1000000), clock_reads = 0,
      send_outcome = (\<lambda>_ buf. Inr (length buf)), wire = [], sock_local_addr = Inr addr\<rparr>"

lemma fair_platform_fields [simp]:
  "reading (fair_platform a st) n = nat ((int n + 1) * st)"
  "clock_reads (fair_platform a st) = 0" "sock_local_addr (fair_platform a st) = Inr a"
  "datagrams_whole (fair_platform a st)"
  by (simp_all add: reading_def fair_platform_def datagrams_whole_def)

lemma accepting_fair [simp]: "accepting (fair_platform addr step)"
  by (simp add: accepting_def fair_platform_def)

end
