(* ===== verification/Kcp_Api.thy ===== *)
theory Kcp_Api
  imports Platform
begin

text \<open>
  The interface of the KCP crate, which is not part of the repository: a parameter of the model, as
  a record of the operations the sources call. The crate is generic over its output, which it reaches
  only through \<^verbatim>\<open>Write::write\<close>, so an operation that may emit frames is a program over that
  one effect: it either ends with a result, or writes a frame and goes on with what the write
  returned. What the sources rely on is stated as predicates on the record (\<open>kcp_recv_laws\<close>,
  \<open>kcp_mtu_law\<close>), each of which holds for the small concrete instance \<open>mini_kcp\<close>.
\<close>

section \<open>The interface\<close>

datatype 'r write_prog =
    Done 'r
  | WriteFrame bytes "io_error + usize \<Rightarrow> 'r write_prog"

record 'k kcp_api =
  api_new :: "u32 \<Rightarrow> 'k"
  api_set_nodelay :: "i32 \<Rightarrow> i32 \<Rightarrow> i32 \<Rightarrow> bool \<Rightarrow> 'k \<Rightarrow> 'k"
  api_set_wndsize :: "u16 \<Rightarrow> u16 \<Rightarrow> 'k \<Rightarrow> 'k"
  api_set_rx_minrto :: "u32 \<Rightarrow> 'k \<Rightarrow> 'k"
  api_set_fast_resend :: "u32 \<Rightarrow> 'k \<Rightarrow> 'k"
  api_set_maximum_resend_times :: "u32 \<Rightarrow> 'k \<Rightarrow> 'k"
  api_set_interval :: "u32 \<Rightarrow> 'k \<Rightarrow> 'k"
  api_set_mtu :: "usize \<Rightarrow> 'k \<Rightarrow> (kcp_error + unit) \<times> 'k"
  api_set_conv :: "u32 \<Rightarrow> 'k \<Rightarrow> 'k"
  api_send :: "bytes \<Rightarrow> 'k \<Rightarrow> (kcp_error + usize) \<times> 'k"
  api_input :: "bytes \<Rightarrow> 'k \<Rightarrow> (kcp_error + usize) \<times> 'k"
  api_peeksize :: "'k \<Rightarrow> kcp_error + usize"
  api_recv :: "bytes \<Rightarrow> 'k \<Rightarrow> (kcp_error + usize) \<times> bytes \<times> 'k"
  api_update :: "u32 \<Rightarrow> 'k \<Rightarrow> ((kcp_error + unit) \<times> 'k) write_prog"
  api_flush :: "'k \<Rightarrow> ((kcp_error + unit) \<times> 'k) write_prog"
  api_is_dead_link :: "'k \<Rightarrow> bool"
  api_wait_snd :: "'k \<Rightarrow> usize"
  api_snd_wnd :: "'k \<Rightarrow> u32"
  api_rcv_wnd :: "'k \<Rightarrow> u32"
  api_rmt_wnd :: "'k \<Rightarrow> u32"

text \<open>
  What the drain loop relies on, with \<open>q\<close> the complete messages that wait in the receive queue:
  \<^verbatim>\<open>peeksize\<close> gives the size of the first one or an error when there is none, and
  \<^verbatim>\<open>recv\<close> into a buffer of that size takes it out and fills the buffer with it.
\<close>

definition kcp_recv_laws :: "'k kcp_api \<Rightarrow> ('k \<Rightarrow> bytes list) \<Rightarrow> bool" where
  "kcp_recv_laws api q \<longleftrightarrow>
     (\<forall>k. q k = [] \<longrightarrow> (\<exists>e. api_peeksize api k = Inl e)) \<and>
     (\<forall>k m ms. q k = m # ms \<longrightarrow>
        api_peeksize api k = Inr (length m) \<and>
        (\<forall>buf. length buf = length m \<longrightarrow>
           (\<exists>k'. api_recv api buf k = (Inr (length m), m, k') \<and> q k' = ms)))"

text \<open>KCP's minimum: \<^verbatim>\<open>set_mtu\<close> accepts every value of at least 50.\<close>

definition kcp_mtu_law :: "'k kcp_api \<Rightarrow> bool" where
  "kcp_mtu_law api \<longleftrightarrow> (\<forall>m k. 50 \<le> m \<longrightarrow> (\<exists>k'. api_set_mtu api m k = (Inr (), k')))"

section \<open>A concrete instance\<close>

text \<open>
  A stop-and-go stand-in for KCP, enough to run the model on closed inputs: \<open>mk_snd\<close> are the
  messages accepted and not yet written, \<open>mk_rcv\<close> the messages received and not yet taken.
  \<^verbatim>\<open>flush\<close> writes every queued message as one frame, the conversation id first; a frame whose
  write fails stays queued and ends the flush with an error. \<^verbatim>\<open>input\<close> accepts a frame of its
  own conversation.
\<close>

record mini_kcp =
  mk_conv :: u32
  mk_mtu :: usize
  mk_snd :: "bytes list"
  mk_rcv :: "bytes list"
  mk_dead :: bool

fun mini_flush :: "(bytes \<Rightarrow> bytes) \<Rightarrow> bytes list \<Rightarrow> mini_kcp \<Rightarrow> ((kcp_error + unit) \<times> mini_kcp) write_prog" where
  "mini_flush frame [] k = Done (Inr (), k\<lparr>mk_snd := []\<rparr>)"
| "mini_flush frame (m # ms) k =
     WriteFrame (frame m)
       (\<lambda>r. case r of
              Inl e \<Rightarrow> Done (Inl (io_message e), k\<lparr>mk_snd := m # ms\<rparr>)
            | Inr _ \<Rightarrow> mini_flush frame ms k)"

definition mini_api :: "(u32 \<Rightarrow> bytes) \<Rightarrow> mini_kcp kcp_api" where
  "mini_api header =
     \<lparr>api_new = (\<lambda>conv. \<lparr>mk_conv = conv, mk_mtu = 1400, mk_snd = [], mk_rcv = [], mk_dead = False\<rparr>),
      api_set_nodelay = (\<lambda>_ _ _ _ k. k),
      api_set_wndsize = (\<lambda>_ _ k. k),
      api_set_rx_minrto = (\<lambda>_ k. k),
      api_set_fast_resend = (\<lambda>_ k. k),
      api_set_maximum_resend_times = (\<lambda>_ k. k),
      api_set_interval = (\<lambda>_ k. k),
      api_set_mtu = (\<lambda>m k. if m < 50 then (Inl ''invalid mtu'', k) else (Inr (), k\<lparr>mk_mtu := m\<rparr>)),
      api_set_conv = (\<lambda>conv k. k\<lparr>mk_conv := conv\<rparr>),
      api_send = (\<lambda>d k. (Inr (length d), k\<lparr>mk_snd := mk_snd k @ [d]\<rparr>)),
      api_input = (\<lambda>d k. if take 4 d = header (mk_conv k)
                          then (Inr (length d), k\<lparr>mk_rcv := mk_rcv k @ [drop 4 d]\<rparr>)
                          else (Inl ''conv inconsistent'', k)),
      api_peeksize = (\<lambda>k. case mk_rcv k of [] \<Rightarrow> Inl ''recv queue empty'' | m # _ \<Rightarrow> Inr (length m)),
      api_recv = (\<lambda>buf k. case mk_rcv k of
                     [] \<Rightarrow> (Inl ''recv queue empty'', buf, k)
                   | m # ms \<Rightarrow> if length buf < length m then (Inl ''user buffer too small'', buf, k)
                               else (Inr (length m), m @ drop (length m) buf, k\<lparr>mk_rcv := ms\<rparr>)),
      api_update = (\<lambda>_ k. Done (Inr (), k)),
      api_flush = (\<lambda>k. mini_flush (\<lambda>m. header (mk_conv k) @ m) (mk_snd k) k),
      api_is_dead_link = mk_dead,
      api_wait_snd = (\<lambda>k. length (mk_snd k)),
      api_snd_wnd = (\<lambda>_. 128),
      api_rcv_wnd = (\<lambda>_. 128),
      api_rmt_wnd = (\<lambda>_. 128)\<rparr>"

lemma mini_api_sel [simp]:
  "api_new (mini_api h) conv =
     \<lparr>mk_conv = conv, mk_mtu = 1400, mk_snd = [], mk_rcv = [], mk_dead = False\<rparr>"
  "api_set_nodelay (mini_api h) n i r c k = k" "api_set_wndsize (mini_api h) a b k = k"
  "api_set_rx_minrto (mini_api h) v k = k" "api_set_fast_resend (mini_api h) v k = k"
  "api_set_maximum_resend_times (mini_api h) v k = k" "api_set_interval (mini_api h) v k = k"
  "50 \<le> m \<Longrightarrow> api_set_mtu (mini_api h) m k = (Inr (), k\<lparr>mk_mtu := m\<rparr>)"
  "api_set_conv (mini_api h) conv k = k\<lparr>mk_conv := conv\<rparr>"
  "api_send (mini_api h) d k = (Inr (length d), k\<lparr>mk_snd := mk_snd k @ [d]\<rparr>)"
  "api_input (mini_api h) d k =
     (if take 4 d = h (mk_conv k) then (Inr (length d), k\<lparr>mk_rcv := mk_rcv k @ [drop 4 d]\<rparr>)
      else (Inl ''conv inconsistent'', k))"
  "api_update (mini_api h) now k = Done (Inr (), k)"
  "api_flush (mini_api h) k = mini_flush (\<lambda>m. h (mk_conv k) @ m) (mk_snd k) k"
  "api_is_dead_link (mini_api h) k = mk_dead k"
  "api_wait_snd (mini_api h) k = length (mk_snd k)"
  "api_snd_wnd (mini_api h) k = 128" "api_rcv_wnd (mini_api h) k = 128" "api_rmt_wnd (mini_api h) k = 128"
  by (simp_all add: mini_api_def)

lemma mini_recv_laws: "kcp_recv_laws (mini_api header) mk_rcv"
  by (auto simp: kcp_recv_laws_def mini_api_def)

lemma mini_mtu_law: "kcp_mtu_law (mini_api header)"
  by (auto simp: kcp_mtu_law_def mini_api_def)

end
