(* ===== verification/Packet.thy ===== *)
theory Packet
  imports Prelude
begin

text \<open>
  The wire format, \<^verbatim>\<open>src/src/packet.rs\<close>: the packet types and their bytes, the control
  packets (a type byte and a little-endian conversation id), the KCP data packets, and the splitter
  the receive path starts with. An interface locale \<open>codec\<close> states what an encoder and a decoder
  promise each other; it is interpreted for the type byte, the little-endian id and the control
  packet.
\<close>

unbundle bit_operations_syntax

section \<open>Definitions\<close>

datatype packet_type = KcpData | Syn | SynAck | Reset

text \<open>\<^verbatim>\<open>typ as u8\<close>, by the discriminants of the enum.\<close>

fun packet_byte :: "packet_type \<Rightarrow> u8" where
  "packet_byte KcpData = 0"
| "packet_byte Syn = 1"
| "packet_byte SynAck = 2"
| "packet_byte Reset = 3"

definition from_byte :: "u8 \<Rightarrow> packet_type option" where
  "from_byte b =
     (if b = 0 then Some KcpData
      else if b = 1 then Some Syn
      else if b = 2 then Some SynAck
      else if b = 3 then Some Reset
      else None)"

text \<open>\<^verbatim>\<open>u32::to_le_bytes\<close> and \<^verbatim>\<open>u32::from_le_bytes\<close>; the latter takes a
  four-byte array, which the callers cut from a longer slice.\<close>

definition to_le_bytes :: "u32 \<Rightarrow> bytes" where
  "to_le_bytes w =
     [ucast w, ucast (drop_bit 8 w), ucast (drop_bit 16 w), ucast (drop_bit 24 w)]"

definition join_le :: "u8 \<Rightarrow> u8 \<Rightarrow> u8 \<Rightarrow> u8 \<Rightarrow> u32" where
  "join_le a b c d =
     ucast a OR push_bit 8 (ucast b) OR push_bit 16 (ucast c) OR push_bit 24 (ucast d)"

fun from_le_bytes :: "bytes \<Rightarrow> u32 option" where
  "from_le_bytes [a, b, c, d] = Some (join_le a b c d)"
| "from_le_bytes _ = None"

definition encode_control :: "packet_type \<Rightarrow> u32 \<Rightarrow> bytes" where
  "encode_control typ conv = [packet_byte typ] @ to_le_bytes conv"

definition encode_kcp_data :: "bytes \<Rightarrow> bytes" where
  "encode_kcp_data kcp_packet = [packet_byte KcpData] @ kcp_packet"

definition split_packet :: "bytes \<Rightarrow> (packet_type \<times> bytes) option" where
  "split_packet buf =
     (case buf of
        [] \<Rightarrow> None
      | first # rest \<Rightarrow> (case from_byte first of None \<Rightarrow> None | Some typ \<Rightarrow> Some (typ, rest)))"

text \<open>
  How every control branch of \<^verbatim>\<open>handle_incoming\<close> reads its conversation id: reject a payload
  shorter than four bytes, then decode the first four.
\<close>

definition read_conv :: "bytes \<Rightarrow> u32 option" where
  "read_conv payload = (if length payload < 4 then None else from_le_bytes (take 4 payload))"

section \<open>The codec interface\<close>

locale codec =
  fixes encode :: "'a \<Rightarrow> 'b" and decode :: "'b \<Rightarrow> 'a option"
  assumes decode_encode: "decode (encode x) = Some x"
begin

lemma encode_inject: "encode x = encode y \<longleftrightarrow> x = y"
  by (metis decode_encode option.inject)

lemma decode_image: "y \<in> range encode \<Longrightarrow> \<exists>x. decode y = Some x \<and> encode x = y"
  using decode_encode by auto

end

section \<open>Round trips\<close>

lemma from_byte_packet_byte: "from_byte (packet_byte t) = Some t"
  by (cases t) (simp_all add: from_byte_def)

interpretation type_byte: codec packet_byte from_byte
  by unfold_locales (rule from_byte_packet_byte)

lemma from_byte_Some_iff: "from_byte b = Some t \<longleftrightarrow> b = packet_byte t"
  by (cases t) (auto simp: from_byte_def)

lemma from_byte_None_iff: "from_byte b = None \<longleftrightarrow> 3 < b"
proof -
  have "b \<le> 3 \<longleftrightarrow> unat b \<in> {0, 1, 2, 3}"
    by (auto simp: word_le_nat_alt)
  also have "\<dots> \<longleftrightarrow> b = 0 \<or> b = 1 \<or> b = 2 \<or> b = 3"
    by (auto simp: word_unat_eq_iff)
  finally have "b \<le> 3 \<longleftrightarrow> b = 0 \<or> b = 1 \<or> b = 2 \<or> b = 3" .
  then show ?thesis by (auto simp: from_byte_def not_le [symmetric])
qed

lemma join_le_split:
  "join_le (ucast w) (ucast (drop_bit 8 w)) (ucast (drop_bit 16 w)) (ucast (drop_bit 24 w)) = w"
  (is "?j = w")
proof (rule bit_word_eqI)
  fix n assume "n < LENGTH(32)"
  then consider "n < 8" | "8 \<le> n" "n < 16" | "16 \<le> n" "n < 24" | "24 \<le> n" "n < 32"
    by fastforce
  then show "bit ?j n = bit w n"
    by cases (auto simp: join_le_def bit_simps)
qed

lemma split_join_le:
  "ucast (join_le a b c d) = a" "ucast (drop_bit 8 (join_le a b c d)) = b"
  "ucast (drop_bit 16 (join_le a b c d)) = c" "ucast (drop_bit 24 (join_le a b c d)) = d"
  by (rule bit_word_eqI; auto simp: join_le_def bit_simps dest: bit_imp_le_length)+

lemma from_to_le_bytes [simp]: "from_le_bytes (to_le_bytes w) = Some w"
  by (simp add: to_le_bytes_def join_le_split)

interpretation le_bytes: codec to_le_bytes from_le_bytes
  by unfold_locales (rule from_to_le_bytes)

lemma to_from_le_bytes: "from_le_bytes bs = Some w \<Longrightarrow> to_le_bytes w = bs"
  by (elim from_le_bytes.elims) (simp_all add: to_le_bytes_def split_join_le)

lemma length_to_le_bytes [simp]: "length (to_le_bytes w) = 4"
  by (simp add: to_le_bytes_def)

lemma read_conv_to_le_bytes [simp]: "read_conv (to_le_bytes w @ rest) = Some w"
  by (simp add: read_conv_def)

lemma read_conv_None_iff: "read_conv payload = None \<longleftrightarrow> length payload < 4"
proof (cases "length payload < 4")
  case False
  then have "4 \<le> length payload" by simp
  then obtain a b c d where "take 4 payload = [a, b, c, d]" by (rule take_4_conv)
  with False show ?thesis by (simp add: read_conv_def)
qed (simp add: read_conv_def)

text \<open>The receiver's view of a control packet: the splitter followed by the id decoder.\<close>

definition decode_control :: "bytes \<Rightarrow> (packet_type \<times> u32) option" where
  "decode_control buf =
     (case split_packet buf of
        None \<Rightarrow> None
      | Some (typ, payload) \<Rightarrow> map_option (Pair typ) (read_conv payload))"

lemma split_encode_control [simp]: "split_packet (encode_control t c) = Some (t, to_le_bytes c)"
  by (simp add: split_packet_def encode_control_def from_byte_packet_byte)

lemma split_encode_kcp_data [simp]: "split_packet (encode_kcp_data p) = Some (KcpData, p)"
  by (simp add: split_packet_def encode_kcp_data_def from_byte_def)

lemma decode_encode_control: "decode_control (encode_control t c) = Some (t, c)"
  using read_conv_to_le_bytes [of c "[]"] by (simp add: decode_control_def)

interpretation control: codec "\<lambda>(t, c). encode_control t c" decode_control
  by unfold_locales (auto simp: decode_encode_control)

section \<open>Properties\<close>

text \<open>
  C31. The control packets round-trip: the receiver's decoding accepts a buffer as a control packet of a
  type with a conversation id exactly when it starts with the five bytes the encoder writes for them,
  whatever follows; and two control packets are equal only if type and id are.
\<close>

theorem control_roundtrip:
  "(decode_control buf = Some (t, c) \<longleftrightarrow> (\<exists>rest. buf = encode_control t c @ rest)) \<and>
   length (encode_control t c) = 5 \<and>
   (encode_control t c = encode_control t' c' \<longleftrightarrow> t = t' \<and> c = c')"
proof (intro conjI iffI)
  assume "decode_control buf = Some (t, c)"
  then obtain payload where sp: "split_packet buf = Some (t, payload)" and rc: "read_conv payload = Some c"
    by (auto simp: decode_control_def split: option.splits)
  from sp have buf: "buf = packet_byte t # payload"
    by (auto simp: split_packet_def from_byte_Some_iff split: list.splits option.splits)
  from rc have "from_le_bytes (take 4 payload) = Some c" by (simp add: read_conv_def split: if_splits)
  then have "take 4 payload = to_le_bytes c" by (rule to_from_le_bytes [symmetric])
  then have "payload = to_le_bytes c @ drop 4 payload" by (metis append_take_drop_id)
  with buf show "\<exists>rest. buf = encode_control t c @ rest" by (auto simp: encode_control_def)
next
  assume "\<exists>rest. buf = encode_control t c @ rest"
  then show "decode_control buf = Some (t, c)"
    by (auto simp: decode_control_def split_packet_def encode_control_def from_byte_packet_byte)
next
  show "length (encode_control t c) = 5" by (simp add: encode_control_def)
next
  assume "encode_control t c = encode_control t' c'"
  with control.encode_inject [of "(t, c)" "(t', c')"] show "t = t'" "c = c'" by simp_all
qed auto

text \<open>
  The splitter accepts a buffer exactly when its first byte is that of a packet type, and then
  returns the type and all the other bytes; it refuses the empty buffer and every first byte above 3.
  In particular a KCP frame wrapped for the wire comes out unchanged.
\<close>

theorem split_packet_exact:
  "(split_packet buf = Some (t, payload) \<longleftrightarrow> buf = [packet_byte t] @ payload) \<and>
   (split_packet buf = None \<longleftrightarrow> buf = [] \<or> 3 < hd buf) \<and>
   split_packet (encode_kcp_data frame) = Some (KcpData, frame)"
proof (intro conjI)
  show "split_packet buf = Some (t, payload) \<longleftrightarrow> buf = [packet_byte t] @ payload"
    by (auto simp: split_packet_def from_byte_Some_iff type_byte.encode_inject from_byte_packet_byte split: list.splits option.splits)
  show "split_packet buf = None \<longleftrightarrow> buf = [] \<or> 3 < hd buf"
    by (cases buf) (auto simp: split_packet_def from_byte_None_iff [symmetric] split: option.splits)
qed simp

end
