(* ===== verification/Config.thy ===== *)
theory Config
  imports Kcp_Api Packet
begin

text \<open>
  The configuration and its builder, \<^verbatim>\<open>src/src/config.rs\<close>. A chain of builder calls is a list
  of settings; the locale \<open>builder_field\<close> states what the chain gives for one field, and is
  interpreted for each of the thirteen fields.
\<close>

section \<open>Definitions\<close>

record kcp_config =
  kcp_interval_ms :: u32
  kcp_nodelay :: "i32 \<times> i32 \<times> i32 \<times> bool"
  snd_wnd :: u16
  rcv_wnd :: u16
  rx_minrto :: u32
  fast_resend :: u32
  maximum_resend_times :: u32
  tick_interval :: duration
  session_timeout :: duration
  event_channel_capacity :: usize
  syn_retry_interval :: duration
  syn_max_retries :: u32
  mtu :: u16

definition config_default :: kcp_config where
  "config_default =
     \<lparr>kcp_interval_ms = 100,
      kcp_nodelay = (1, 20, 2, True),
      snd_wnd = 128,
      rcv_wnd = 128,
      rx_minrto = 10,
      fast_resend = 1,
      maximum_resend_times = 20,
      tick_interval = from_millis 100,
      session_timeout = from_secs 60,
      event_channel_capacity = 1024,
      syn_retry_interval = from_millis 150,
      syn_max_retries = 5,
      mtu = 1400\<rparr>"

definition apply_to :: "'k kcp_api \<Rightarrow> kcp_config \<Rightarrow> 'k \<Rightarrow> 'k" where
  "apply_to api c kcp0 =
     (case kcp_nodelay c of
        (nodelay, interval, resend, nc) \<Rightarrow>
          let kcp1 = api_set_nodelay api nodelay interval resend nc kcp0;
              kcp2 = api_set_wndsize api (snd_wnd c) (rcv_wnd c) kcp1;
              kcp3 = api_set_rx_minrto api (rx_minrto c) kcp2;
              kcp4 = api_set_fast_resend api (fast_resend c) kcp3;
              kcp5 = api_set_maximum_resend_times api (maximum_resend_times c) kcp4;
              kcp6 = api_set_interval api (kcp_interval_ms c) kcp5;
              m = unat (max (mtu c) 50)
          in snd (api_set_mtu api m kcp6))"

datatype kcp_config_builder = KcpConfigBuilder (builder_config: kcp_config)

definition config_builder :: kcp_config_builder where
  "config_builder = KcpConfigBuilder config_default"

text \<open>The setters of the builder, each consuming the builder and returning it changed.\<close>

fun with_kcp_interval_ms :: "u32 \<Rightarrow> kcp_config_builder \<Rightarrow> kcp_config_builder" where
  "with_kcp_interval_ms v (KcpConfigBuilder c) = KcpConfigBuilder (c\<lparr>kcp_interval_ms := v\<rparr>)"

fun with_kcp_nodelay :: "i32 \<Rightarrow> i32 \<Rightarrow> i32 \<Rightarrow> bool \<Rightarrow> kcp_config_builder \<Rightarrow> kcp_config_builder" where
  "with_kcp_nodelay nodelay interval resend nc (KcpConfigBuilder c) =
     KcpConfigBuilder (c\<lparr>kcp_nodelay := (nodelay, interval, resend, nc)\<rparr>)"

fun with_snd_wnd :: "u16 \<Rightarrow> kcp_config_builder \<Rightarrow> kcp_config_builder" where
  "with_snd_wnd v (KcpConfigBuilder c) = KcpConfigBuilder (c\<lparr>snd_wnd := v\<rparr>)"

fun with_rcv_wnd :: "u16 \<Rightarrow> kcp_config_builder \<Rightarrow> kcp_config_builder" where
  "with_rcv_wnd v (KcpConfigBuilder c) = KcpConfigBuilder (c\<lparr>rcv_wnd := v\<rparr>)"

fun with_rx_minrto :: "u32 \<Rightarrow> kcp_config_builder \<Rightarrow> kcp_config_builder" where
  "with_rx_minrto v (KcpConfigBuilder c) = KcpConfigBuilder (c\<lparr>rx_minrto := v\<rparr>)"

fun with_fast_resend :: "u32 \<Rightarrow> kcp_config_builder \<Rightarrow> kcp_config_builder" where
  "with_fast_resend v (KcpConfigBuilder c) = KcpConfigBuilder (c\<lparr>fast_resend := v\<rparr>)"

fun with_maximum_resend_times :: "u32 \<Rightarrow> kcp_config_builder \<Rightarrow> kcp_config_builder" where
  "with_maximum_resend_times v (KcpConfigBuilder c) =
     KcpConfigBuilder (c\<lparr>maximum_resend_times := v\<rparr>)"

fun with_tick_interval :: "duration \<Rightarrow> kcp_config_builder \<Rightarrow> kcp_config_builder" where
  "with_tick_interval v (KcpConfigBuilder c) = KcpConfigBuilder (c\<lparr>tick_interval := v\<rparr>)"

fun with_session_timeout :: "duration \<Rightarrow> kcp_config_builder \<Rightarrow> kcp_config_builder" where
  "with_session_timeout v (KcpConfigBuilder c) = KcpConfigBuilder (c\<lparr>session_timeout := v\<rparr>)"

fun with_event_channel_capacity :: "usize \<Rightarrow> kcp_config_builder \<Rightarrow> kcp_config_builder" where
  "with_event_channel_capacity v (KcpConfigBuilder c) =
     KcpConfigBuilder (c\<lparr>event_channel_capacity := v\<rparr>)"

fun with_syn_retry_interval :: "duration \<Rightarrow> kcp_config_builder \<Rightarrow> kcp_config_builder" where
  "with_syn_retry_interval v (KcpConfigBuilder c) = KcpConfigBuilder (c\<lparr>syn_retry_interval := v\<rparr>)"

fun with_syn_max_retries :: "u32 \<Rightarrow> kcp_config_builder \<Rightarrow> kcp_config_builder" where
  "with_syn_max_retries v (KcpConfigBuilder c) = KcpConfigBuilder (c\<lparr>syn_max_retries := v\<rparr>)"

fun with_mtu :: "u16 \<Rightarrow> kcp_config_builder \<Rightarrow> kcp_config_builder" where
  "with_mtu v (KcpConfigBuilder c) = KcpConfigBuilder (c\<lparr>mtu := v\<rparr>)"

fun build :: "kcp_config_builder \<Rightarrow> kcp_config" where
  "build (KcpConfigBuilder c) = c\<lparr>mtu := max (mtu c) 50\<rparr>"

section \<open>Chains of builder calls\<close>

datatype setting =
    Set_kcp_interval_ms u32
  | Set_kcp_nodelay i32 i32 i32 bool
  | Set_snd_wnd u16
  | Set_rcv_wnd u16
  | Set_rx_minrto u32
  | Set_fast_resend u32
  | Set_maximum_resend_times u32
  | Set_tick_interval duration
  | Set_session_timeout duration
  | Set_event_channel_capacity usize
  | Set_syn_retry_interval duration
  | Set_syn_max_retries u32
  | Set_mtu u16

fun apply_setting :: "setting \<Rightarrow> kcp_config_builder \<Rightarrow> kcp_config_builder" where
  "apply_setting (Set_kcp_interval_ms v) = with_kcp_interval_ms v"
| "apply_setting (Set_kcp_nodelay a b c d) = with_kcp_nodelay a b c d"
| "apply_setting (Set_snd_wnd v) = with_snd_wnd v"
| "apply_setting (Set_rcv_wnd v) = with_rcv_wnd v"
| "apply_setting (Set_rx_minrto v) = with_rx_minrto v"
| "apply_setting (Set_fast_resend v) = with_fast_resend v"
| "apply_setting (Set_maximum_resend_times v) = with_maximum_resend_times v"
| "apply_setting (Set_tick_interval v) = with_tick_interval v"
| "apply_setting (Set_session_timeout v) = with_session_timeout v"
| "apply_setting (Set_event_channel_capacity v) = with_event_channel_capacity v"
| "apply_setting (Set_syn_retry_interval v) = with_syn_retry_interval v"
| "apply_setting (Set_syn_max_retries v) = with_syn_max_retries v"
| "apply_setting (Set_mtu v) = with_mtu v"

text \<open>The value the last setting of a chain that concerns a field gives it.\<close>

fun last_set :: "(setting \<Rightarrow> 'v option) \<Rightarrow> 'v \<Rightarrow> setting list \<Rightarrow> 'v" where
  "last_set sel d [] = d"
| "last_set sel d (s # ss) = last_set sel (case sel s of None \<Rightarrow> d | Some v \<Rightarrow> v) ss"

definition run_builder :: "setting list \<Rightarrow> kcp_config" where
  "run_builder ss = build (fold apply_setting ss config_builder)"

fun sel_kcp_interval_ms where "sel_kcp_interval_ms (Set_kcp_interval_ms v) = Some v" | "sel_kcp_interval_ms _ = None"
fun sel_kcp_nodelay where "sel_kcp_nodelay (Set_kcp_nodelay a b c d) = Some (a, b, c, d)" | "sel_kcp_nodelay _ = None"
fun sel_snd_wnd where "sel_snd_wnd (Set_snd_wnd v) = Some v" | "sel_snd_wnd _ = None"
fun sel_rcv_wnd where "sel_rcv_wnd (Set_rcv_wnd v) = Some v" | "sel_rcv_wnd _ = None"
fun sel_rx_minrto where "sel_rx_minrto (Set_rx_minrto v) = Some v" | "sel_rx_minrto _ = None"
fun sel_fast_resend where "sel_fast_resend (Set_fast_resend v) = Some v" | "sel_fast_resend _ = None"
fun sel_maximum_resend_times where "sel_maximum_resend_times (Set_maximum_resend_times v) = Some v" | "sel_maximum_resend_times _ = None"
fun sel_tick_interval where "sel_tick_interval (Set_tick_interval v) = Some v" | "sel_tick_interval _ = None"
fun sel_session_timeout where "sel_session_timeout (Set_session_timeout v) = Some v" | "sel_session_timeout _ = None"
fun sel_event_channel_capacity where "sel_event_channel_capacity (Set_event_channel_capacity v) = Some v" | "sel_event_channel_capacity _ = None"
fun sel_syn_retry_interval where "sel_syn_retry_interval (Set_syn_retry_interval v) = Some v" | "sel_syn_retry_interval _ = None"
fun sel_syn_max_retries where "sel_syn_max_retries (Set_syn_max_retries v) = Some v" | "sel_syn_max_retries _ = None"
fun sel_mtu where "sel_mtu (Set_mtu v) = Some v" | "sel_mtu _ = None"

locale builder_field =
  fixes get :: "kcp_config \<Rightarrow> 'v" and sel :: "setting \<Rightarrow> 'v option"
  assumes get_apply:
    "get (builder_config (apply_setting s b)) =
       (case sel s of None \<Rightarrow> get (builder_config b) | Some v \<Rightarrow> v)"
begin

lemma get_chain:
  "get (builder_config (fold apply_setting ss b)) = last_set sel (get (builder_config b)) ss"
  by (induction ss arbitrary: b) (simp_all add: get_apply)

end

lemma builder_fieldI:
  assumes "\<And>s c. get (builder_config (apply_setting s (KcpConfigBuilder c))) =
    (case sel s of None \<Rightarrow> get c | Some v \<Rightarrow> v)"
  shows "builder_field get sel"
proof
  fix s b
  show "get (builder_config (apply_setting s b)) =
    (case sel s of None \<Rightarrow> get (builder_config b) | Some v \<Rightarrow> v)"
    using assms [of s "builder_config b"] by simp
qed

interpretation f_kcp_interval_ms: builder_field kcp_interval_ms sel_kcp_interval_ms
  by (rule builder_fieldI) (case_tac s; simp)

interpretation f_kcp_nodelay: builder_field kcp_nodelay sel_kcp_nodelay
  by (rule builder_fieldI) (case_tac s; simp)

interpretation f_snd_wnd: builder_field snd_wnd sel_snd_wnd
  by (rule builder_fieldI) (case_tac s; simp)

interpretation f_rcv_wnd: builder_field rcv_wnd sel_rcv_wnd
  by (rule builder_fieldI) (case_tac s; simp)

interpretation f_rx_minrto: builder_field rx_minrto sel_rx_minrto
  by (rule builder_fieldI) (case_tac s; simp)

interpretation f_fast_resend: builder_field fast_resend sel_fast_resend
  by (rule builder_fieldI) (case_tac s; simp)

interpretation f_maximum_resend_times: builder_field maximum_resend_times sel_maximum_resend_times
  by (rule builder_fieldI) (case_tac s; simp)

interpretation f_tick_interval: builder_field tick_interval sel_tick_interval
  by (rule builder_fieldI) (case_tac s; simp)

interpretation f_session_timeout: builder_field session_timeout sel_session_timeout
  by (rule builder_fieldI) (case_tac s; simp)

interpretation f_event_channel_capacity: builder_field event_channel_capacity sel_event_channel_capacity
  by (rule builder_fieldI) (case_tac s; simp)

interpretation f_syn_retry_interval: builder_field syn_retry_interval sel_syn_retry_interval
  by (rule builder_fieldI) (case_tac s; simp)

interpretation f_syn_max_retries: builder_field syn_max_retries sel_syn_max_retries
  by (rule builder_fieldI) (case_tac s; simp)

interpretation f_mtu: builder_field mtu sel_mtu
  by (rule builder_fieldI) (case_tac s; simp)

lemmas chain_fields =
  f_kcp_interval_ms.get_chain
  f_kcp_nodelay.get_chain
  f_snd_wnd.get_chain
  f_rcv_wnd.get_chain
  f_rx_minrto.get_chain
  f_fast_resend.get_chain
  f_maximum_resend_times.get_chain
  f_tick_interval.get_chain
  f_session_timeout.get_chain
  f_event_channel_capacity.get_chain
  f_syn_retry_interval.get_chain
  f_syn_max_retries.get_chain
  f_mtu.get_chain

section \<open>Properties\<close>

lemma config_default_sel [simp]:
  "kcp_interval_ms config_default = 100"
  "kcp_nodelay config_default = (1, 20, 2, True)"
  "snd_wnd config_default = 128"
  "rcv_wnd config_default = 128"
  "rx_minrto config_default = 10"
  "fast_resend config_default = 1"
  "maximum_resend_times config_default = 20"
  "tick_interval config_default = from_millis 100"
  "session_timeout config_default = from_secs 60"
  "event_channel_capacity config_default = 1024"
  "syn_retry_interval config_default = from_millis 150"
  "syn_max_retries config_default = 5"
  "mtu config_default = 1400"
  by (simp_all add: config_default_def)

lemma builder_config_default [simp]: "builder_config config_builder = config_default"
  by (simp add: config_builder_def)

lemma build_fields:
  "build b = (builder_config b)\<lparr>mtu := max (mtu (builder_config b)) 50\<rparr>"
  by (cases b) simp

text \<open>
  C33. Whatever the order and the number of the builder's calls, the configuration it builds has in
  every field the value of the last call that set this field, or the default when no call did; only
  the MTU is further raised to KCP's minimum of 50, so a built configuration never has a smaller one.
\<close>

theorem builder_chain_spec:
  "run_builder ss =
     \<lparr>kcp_interval_ms = last_set sel_kcp_interval_ms (kcp_interval_ms config_default) ss,
      kcp_nodelay = last_set sel_kcp_nodelay (kcp_nodelay config_default) ss,
      snd_wnd = last_set sel_snd_wnd (snd_wnd config_default) ss,
      rcv_wnd = last_set sel_rcv_wnd (rcv_wnd config_default) ss,
      rx_minrto = last_set sel_rx_minrto (rx_minrto config_default) ss,
      fast_resend = last_set sel_fast_resend (fast_resend config_default) ss,
      maximum_resend_times = last_set sel_maximum_resend_times (maximum_resend_times config_default) ss,
      tick_interval = last_set sel_tick_interval (tick_interval config_default) ss,
      session_timeout = last_set sel_session_timeout (session_timeout config_default) ss,
      event_channel_capacity = last_set sel_event_channel_capacity (event_channel_capacity config_default) ss,
      syn_retry_interval = last_set sel_syn_retry_interval (syn_retry_interval config_default) ss,
      syn_max_retries = last_set sel_syn_max_retries (syn_max_retries config_default) ss,
      mtu = max (last_set sel_mtu 1400 ss) 50\<rparr> \<and>
   50 \<le> mtu (run_builder ss)"
  by (simp add: run_builder_def build_fields chain_fields)

text \<open>
  Applying a configuration never loses an error: whatever MTU the configuration holds, even one
  below KCP's minimum that did not come from the builder, the value handed to \<^verbatim>\<open>set_mtu\<close> is
  at least 50, so under KCP's documented rule the call succeeds and the \<^verbatim>\<open>.ok()\<close> that would
  swallow an error has nothing to swallow.
\<close>

theorem apply_to_mtu_accepted:
  assumes "kcp_mtu_law api"
  shows "\<exists>m k'. 50 \<le> m \<and> m = max (unat (mtu c)) 50 \<and>
    api_set_mtu api m k' = (Inr (), apply_to api c k)"
proof -
  obtain nodelay interval resend nc where nd: "kcp_nodelay c = (nodelay, interval, resend, nc)"
    by (cases "kcp_nodelay c") auto
  have m: "unat (max (mtu c) 50) = max (unat (mtu c)) 50"
    by (simp add: max_def word_le_nat_alt)
  show ?thesis
    using assms
    unfolding kcp_mtu_law_def apply_to_def nd Let_def m prod.case
    by (metis max.cobounded2 snd_conv)
qed

theorem apply_to_mtu_accepted_witness:
  "kcp_mtu_law (mini_api to_le_bytes) \<and>
   (\<exists>m k'. 50 \<le> m \<and> m = max (unat (mtu (config_default\<lparr>mtu := 30\<rparr>))) 50 \<and>
      api_set_mtu (mini_api to_le_bytes) m k' =
        (Inr (), apply_to (mini_api to_le_bytes) (config_default\<lparr>mtu := 30\<rparr>)
           (api_new (mini_api to_le_bytes) 7)))"
  using mini_mtu_law apply_to_mtu_accepted [OF mini_mtu_law] by blast

end
