(* ===== verification/Session.thy ===== *)
theory Session
  imports Config
begin

text \<open>
  One peer session, \<^verbatim>\<open>src/src/session.rs\<close>: the output adapter that frames KCP's packets for
  the shared socket, the session state, its constructors, and the operations on it. An operation
  takes the session and the platform and returns them changed; the lock around
  \<^verbatim>\<open>SessionInner\<close> makes each of them one step. The atomics \<^verbatim>\<open>closed\<close>,
  \<^verbatim>\<open>last_rx\<close>, \<^verbatim>\<open>syn_sent_at\<close>, \<^verbatim>\<open>syn_retries\<close> are plain fields. The
  overflow of \<^verbatim>\<open><<\<close> is that of a release build, where the shift amount is taken modulo 64.
\<close>

section \<open>Definitions\<close>

subsection \<open>The output adapter\<close>

record direct_output =
  out_peer :: sock_addr
  out_buf :: bytes

definition direct_write ::
  "bytes \<Rightarrow> direct_output \<Rightarrow> platform \<Rightarrow> (io_error + usize) \<times> direct_output \<times> platform" where
  "direct_write buf d w =
     (let d1 = d\<lparr>out_buf := []\<rparr>;
          d2 = d1\<lparr>out_buf := out_buf d1 @ [packet_byte KcpData]\<rparr>;
          d3 = d2\<lparr>out_buf := out_buf d2 @ buf\<rparr>
      in case try_send_to (out_buf d3) (out_peer d3) w of
           (Inr n, w') \<Rightarrow> (Inr (n - 1), d3, w')
         | (Inl e, w') \<Rightarrow>
             (if io_kind e = WouldBlock then (Inr (length buf), d3, w') else (Inl e, d3, w')))"

definition direct_flush :: "direct_output \<Rightarrow> (io_error + unit) \<times> direct_output" where
  "direct_flush d = (Inr (), d)"

text \<open>Running an operation of KCP with this adapter as its output.\<close>

primrec run_prog :: "'r write_prog \<Rightarrow> direct_output \<Rightarrow> platform \<Rightarrow> 'r \<times> direct_output \<times> platform" where
  "run_prog (Done r) d w = (r, d, w)"
| "run_prog (WriteFrame b cont) d w =
     (case direct_write b d w of (res, d', w') \<Rightarrow> run_prog (cont res) d' w')"

subsection \<open>Session state\<close>

datatype session_state = SynSent | Established

record 'k session_inner =
  kcp :: 'k
  out_adapter :: direct_output
  conv_id :: u32
  state :: session_state
  incarnation :: u64

record 'k session =
  inner :: "'k session_inner"
  closed :: bool
  last_rx :: u64
  peer_addr :: sock_addr
  syn_sent_at :: u64
  syn_retries :: u32

abbreviation set_inner_kcp :: "'k \<Rightarrow> 'k session \<Rightarrow> 'k session" where
  "set_inner_kcp k s \<equiv> s\<lparr>inner := (inner s)\<lparr>kcp := k\<rparr>\<rparr>"

abbreviation set_inner_state :: "session_state \<Rightarrow> 'k session \<Rightarrow> 'k session" where
  "set_inner_state st s \<equiv> s\<lparr>inner := (inner s)\<lparr>state := st\<rparr>\<rparr>"

text \<open>An operation of KCP that may write, run inside a session.\<close>

definition run_kcp ::
  "((kcp_error + unit) \<times> 'k) write_prog \<Rightarrow> 'k session \<Rightarrow> platform \<Rightarrow>
     (kcp_error + unit) \<times> 'k session \<times> platform" where
  "run_kcp prog s w =
     (case run_prog prog (out_adapter (inner s)) w of
        ((r, k), d, w') \<Rightarrow> (r, s\<lparr>inner := (inner s)\<lparr>kcp := k, out_adapter := d\<rparr>\<rparr>, w'))"

subsection \<open>Constructors\<close>

definition new_outbound ::
  "'k kcp_api \<Rightarrow> u32 \<Rightarrow> sock_addr \<Rightarrow> u64 \<Rightarrow> kcp_config \<Rightarrow> platform \<Rightarrow> 'k session \<times> platform" where
  "new_outbound api conv peer inc config w =
     (let out = \<lparr>out_peer = peer, out_buf = []\<rparr>;
          k = apply_to api config (api_new api conv)
      in case epoch_ms w of
           (now, w') \<Rightarrow>
             (\<lparr>inner = \<lparr>kcp = k, out_adapter = out, conv_id = conv, state = SynSent, incarnation = inc\<rparr>,
               closed = False, last_rx = now, peer_addr = peer, syn_sent_at = now, syn_retries = 0\<rparr>,
              w'))"

definition send_syn :: "'k session \<Rightarrow> platform \<Rightarrow> 'k session \<times> platform" where
  "send_syn s w =
     (let syn = encode_control Syn (conv_id (inner s))
      in case send_to syn (peer_addr s) w of
           (Inl e, w') \<Rightarrow> (s, w')
         | (Inr n, w') \<Rightarrow> (case epoch_ms w' of (now, w'') \<Rightarrow> (s\<lparr>syn_sent_at := now\<rparr>, w'')))"

definition new_inbound ::
  "'k kcp_api \<Rightarrow> u32 \<Rightarrow> sock_addr \<Rightarrow> u64 \<Rightarrow> kcp_config \<Rightarrow> platform \<Rightarrow> 'k session \<times> platform" where
  "new_inbound api conv peer inc config w =
     (let out = \<lparr>out_peer = peer, out_buf = []\<rparr>;
          k = apply_to api config (api_new api conv);
          syn_ack = encode_control SynAck conv;
          w' = snd (send_to syn_ack peer w)
      in case epoch_ms w' of
           (now, w'') \<Rightarrow>
             (\<lparr>inner = \<lparr>kcp = k, out_adapter = out, conv_id = conv, state = Established, incarnation = inc\<rparr>,
               closed = False, last_rx = now, peer_addr = peer, syn_sent_at = 0, syn_retries = 0\<rparr>,
              w''))"

subsection \<open>Operations\<close>

definition mark_closed :: "'k session \<Rightarrow> 'k session" where
  "mark_closed s = s\<lparr>closed := True\<rparr>"

definition send_data ::
  "'k kcp_api \<Rightarrow> bytes \<Rightarrow> 'k session \<Rightarrow> platform \<Rightarrow> unit result \<times> 'k session \<times> platform" where
  "send_data api data s w =
     (if closed s then (Inl SessionClosed, s, w)
      else if api_is_dead_link api (kcp (inner s)) then (Inl DeadLink, s, w)
      else case api_send api data (kcp (inner s)) of
             (Inl e, k) \<Rightarrow> (Inl (Kcp e), set_inner_kcp k s, w)
           | (Inr n, k) \<Rightarrow>
               let s1 = set_inner_kcp k s
               in if state (inner s1) = Established
                  then case current_ms w of
                         (now, w1) \<Rightarrow>
                           (case run_kcp (api_update api now k) s1 w1 of
                              (Inl e, s2, w2) \<Rightarrow> (Inl (Kcp e), s2, w2)
                            | (Inr _, s2, w2) \<Rightarrow>
                                (case run_kcp (api_flush api (kcp (inner s2))) s2 w2 of
                                   (Inl e, s3, w3) \<Rightarrow> (Inl (Kcp e), s3, w3)
                                 | (Inr _, s3, w3) \<Rightarrow> (Inr (), s3, w3)))
                  else (Inr (), s1, w))"

definition session_update ::
  "'k kcp_api \<Rightarrow> u32 \<Rightarrow> 'k session \<Rightarrow> platform \<Rightarrow> usize result \<times> 'k session \<times> platform" where
  "session_update api now s w =
     (if state (inner s) \<noteq> Established then (Inr (api_wait_snd api (kcp (inner s))), s, w)
      else if api_is_dead_link api (kcp (inner s)) then (Inl DeadLink, s, w)
      else case run_kcp (api_update api now (kcp (inner s))) s w of
             (Inl e, s1, w1) \<Rightarrow> (Inl (Kcp e), s1, w1)
           | (Inr _, s1, w1) \<Rightarrow>
               if api_is_dead_link api (kcp (inner s1)) then (Inl DeadLink, s1, w1)
               else (Inr (api_wait_snd api (kcp (inner s1))), s1, w1))"

definition session_input :: "'k kcp_api \<Rightarrow> bytes \<Rightarrow> 'k session \<Rightarrow> unit result \<times> 'k session" where
  "session_input api data s =
     (case api_input api data (kcp (inner s)) of
        (Inl e, k) \<Rightarrow> (Inl (Kcp e), set_inner_kcp k s)
      | (Inr n, k) \<Rightarrow> (Inr (), set_inner_kcp k s))"

text \<open>
  The drain loop: \<^verbatim>\<open>while let Ok(size) = kcp.peeksize()\<close>. Whether it ends is up to KCP, so a
  run that does not is \<open>None\<close>.
\<close>

partial_function (option) drain ::
  "'k kcp_api \<Rightarrow> 'k \<Rightarrow> bytes list \<Rightarrow> (unit result \<times> bytes list \<times> 'k) option" where
  "drain api k out =
     (case api_peeksize api k of
        Inl e \<Rightarrow> Some (Inr (), out, k)
      | Inr sz \<Rightarrow>
          (case api_recv api (replicate sz 0) k of
             (r, buf, k') \<Rightarrow>
               (case r of
                  Inl e \<Rightarrow> Some (Inl (Kcp e), out, k')
                | Inr n \<Rightarrow> drain api k' (out @ [buf]))))"

definition try_recv_all ::
  "'k kcp_api \<Rightarrow> bytes list \<Rightarrow> 'k session \<Rightarrow> (unit result \<times> bytes list \<times> 'k session) option" where
  "try_recv_all api out s =
     map_option (\<lambda>(r, msgs, k). (r, msgs, set_inner_kcp k s)) (drain api (kcp (inner s)) out)"

text \<open>\<^verbatim>\<open><<\<close> on \<^verbatim>\<open>u64\<close> by a \<^verbatim>\<open>u32\<close> amount.\<close>

definition shl_u64 :: "u64 \<Rightarrow> u32 \<Rightarrow> u64" where
  "shl_u64 x n = push_bit (unat n mod 64) x"

definition maybe_retry_syn ::
  "kcp_config \<Rightarrow> u64 \<Rightarrow> 'k session \<Rightarrow> platform \<Rightarrow> bool result \<times> 'k session \<times> platform" where
  "maybe_retry_syn config now_epoch s w =
     (if closed s then (Inl SessionClosed, s, w)
      else if state (inner s) \<noteq> SynSent then (Inr False, s, w)
      else
        let conv = conv_id (inner s);
            retries = syn_retries s
        in if syn_max_retries config \<le> retries then (Inl DeadLink, s, w)
           else
             let elapsed = saturating_sub now_epoch (syn_sent_at s)
             in if elapsed < shl_u64 (as_millis_u64 (syn_retry_interval config)) retries
                then (Inr False, s, w)
                else
                  let syn = encode_control Syn conv;
                      w1 = snd (try_send_to syn (peer_addr s) w)
                  in case epoch_ms w1 of
                       (now, w2) \<Rightarrow>
                         (Inr True, s\<lparr>syn_sent_at := now, syn_retries := retries + 1\<rparr>, w2))"


section \<open>What KCP writes\<close>

text \<open>
  Everything KCP puts on the wire through the adapter is a KCP data packet for the session's peer:
  \<open>data_only peer w w'\<close> says that from \<open>w\<close> to \<open>w'\<close> nothing else was offered to the
  socket. \<open>kcp_frame s s'\<close> says that two states of a session differ in KCP's state and in the
  adapter's scratch buffer only.
\<close>

definition data_only :: "sock_addr \<Rightarrow> platform \<Rightarrow> platform \<Rightarrow> bool" where
  "data_only peer w w' \<longleftrightarrow> same_oracles w w' \<and>
     (\<exists>fs. offered w' = offered w @ map (\<lambda>f. (peer, encode_kcp_data f)) fs)"

definition kcp_frame :: "'k session \<Rightarrow> 'k session \<Rightarrow> bool" where
  "kcp_frame s s' \<longleftrightarrow>
     (\<exists>k b. s' = s\<lparr>inner := (inner s)\<lparr>kcp := k, out_adapter := (out_adapter (inner s))\<lparr>out_buf := b\<rparr>\<rparr>\<rparr>)"

lemma data_only_refl [simp, intro]: "data_only peer w w"
  by (auto simp: data_only_def intro: exI [of _ "[]"])

lemma data_only_trans [trans, frame_trans]:
  "data_only peer w w' \<Longrightarrow> data_only peer w' w'' \<Longrightarrow> data_only peer w w''"
  by (auto simp: data_only_def intro: same_oracles_trans) (metis map_append)

lemma data_only_same_offered:
  "same_oracles w w' \<Longrightarrow> offered w' = offered w \<Longrightarrow> data_only peer w w'"
  by (auto simp: data_only_def intro: exI [of _ "[]"])

lemma data_only_current_ms: "current_ms w = (t, w') \<Longrightarrow> data_only peer w w'"
  using same_oracles_current_ms [of w] offered_current_ms [of w]
  by (auto intro: data_only_same_offered)

lemma kcp_frame_refl [simp, intro]: "kcp_frame s s"
  unfolding kcp_frame_def
  by (rule exI [of _ "kcp (inner s)"], rule exI [of _ "out_buf (out_adapter (inner s))"]) simp

lemma kcp_frame_trans [trans, frame_trans]: "kcp_frame s s' \<Longrightarrow> kcp_frame s' s'' \<Longrightarrow> kcp_frame s s''"
  by (auto simp: kcp_frame_def) blast

lemma kcp_frame_set_kcp [simp, intro]: "kcp_frame s (set_inner_kcp k s)"
  unfolding kcp_frame_def
  by (rule exI [of _ k], rule exI [of _ "out_buf (out_adapter (inner s))"]) simp

lemma kcp_frame_fields:
  assumes "kcp_frame s s'"
  shows "closed s' = closed s" "last_rx s' = last_rx s" "peer_addr s' = peer_addr s"
    "syn_sent_at s' = syn_sent_at s" "syn_retries s' = syn_retries s"
    "conv_id (inner s') = conv_id (inner s)" "state (inner s') = state (inner s)"
    "incarnation (inner s') = incarnation (inner s)"
    "out_peer (out_adapter (inner s')) = out_peer (out_adapter (inner s))"
  using assms by (auto simp: kcp_frame_def)

text \<open>The scratch buffer of the adapter is rebuilt by every write, so its content never matters.\<close>

lemma direct_write_eq:
  "direct_write buf d w =
     (case try_send_to (encode_kcp_data buf) (out_peer d) w of
        (Inr n, w') \<Rightarrow> (Inr (n - 1), d\<lparr>out_buf := encode_kcp_data buf\<rparr>, w')
      | (Inl e, w') \<Rightarrow>
          (if io_kind e = WouldBlock then Inr (length buf) else Inl e,
           d\<lparr>out_buf := encode_kcp_data buf\<rparr>, w'))"
  by (simp add: direct_write_def encode_kcp_data_def Let_def split: sum.splits prod.splits)

lemma direct_write_frame:
  assumes "direct_write buf d w = (r, d', w')"
  shows "out_peer d' = out_peer d" "data_only (out_peer d) w w'"
proof -
  define p where "p = try_send_to (encode_kcp_data buf) (out_peer d) w"
  from assms have "out_peer d' = out_peer d" and w': "w' = snd p"
    unfolding direct_write_eq p_def [symmetric] by (auto split: prod.splits sum.splits if_splits)
  then show "out_peer d' = out_peer d" by simp
  show "data_only (out_peer d) w w'"
    unfolding w' p_def data_only_def by (auto intro: exI [of _ "[buf]"])
qed

lemma run_prog_frame:
  "run_prog p d w = (r, d', w') \<Longrightarrow>
     (\<exists>b. d' = d\<lparr>out_buf := b\<rparr>) \<and> data_only (out_peer d) w w'"
proof (induction p arbitrary: d w)
  case (Done x)
  then show ?case by (auto intro: exI [of _ "out_buf d"])
next
  case (WriteFrame b cont)
  obtain res d1 w1 where dw: "direct_write b d w = (res, d1, w1)" by (cases "direct_write b d w")
  with WriteFrame.prems have "run_prog (cont res) d1 w1 = (r, d', w')" by simp
  then have "(\<exists>b. d' = d1\<lparr>out_buf := b\<rparr>) \<and> data_only (out_peer d1) w1 w'"
    by (intro WriteFrame.IH) auto
  moreover have "\<exists>b. d1 = d\<lparr>out_buf := b\<rparr>"
    using dw unfolding direct_write_eq by (auto split: prod.splits sum.splits if_splits)
  ultimately show ?case using direct_write_frame [OF dw] by (auto intro: data_only_trans)
qed

lemma run_kcp_frame:
  assumes "run_kcp prog s w = (r, s', w')"
  shows "kcp_frame s s' \<and> data_only (out_peer (out_adapter (inner s))) w w'"
proof -
  obtain k d where rp: "run_prog prog (out_adapter (inner s)) w = ((r, k), d, w')"
    and s': "s' = s\<lparr>inner := (inner s)\<lparr>kcp := k, out_adapter := d\<rparr>\<rparr>"
    using assms by (auto simp: run_kcp_def split: prod.splits)
  from run_prog_frame [OF rp] show ?thesis unfolding s' kcp_frame_def by auto
qed


section \<open>Frames of the operations\<close>

lemma send_data_frame:
  assumes "send_data api data s w = (r, s', w')"
  shows "kcp_frame s s' \<and> data_only (out_peer (out_adapter (inner s))) w w'"
proof (cases "closed s \<or> api_is_dead_link api (kcp (inner s))")
  case True
  with assms show ?thesis by (auto simp: send_data_def split: if_splits)
next
  case False
  obtain rs k where snd: "api_send api data (kcp (inner s)) = (rs, k)" by fastforce
  let ?s1 = "set_inner_kcp k s"
  show ?thesis
  proof (cases "state (inner s) = Established \<and> (\<exists>n. rs = Inr n)")
    case True
    obtain now w1 where cm: "current_ms w = (now, w1)" by fastforce
    obtain r2 s2 w2 where up: "run_kcp (api_update api now k) ?s1 w1 = (r2, s2, w2)"
      by (metis prod_cases3)
    obtain r3 s3 w3 where fl: "run_kcp (api_flush api (kcp (inner s2))) s2 w2 = (r3, s3, w3)"
      by (metis prod_cases3)
    have "kcp_frame s s2" "data_only (out_peer (out_adapter (inner s))) w w2"
      using run_kcp_frame [OF up] data_only_current_ms [OF cm]
      by (auto intro: frame_trans)
    moreover from this have "kcp_frame s s3" "data_only (out_peer (out_adapter (inner s))) w w3"
      using run_kcp_frame [OF fl] by (auto intro: frame_trans simp: kcp_frame_fields)
    ultimately show ?thesis
      using assms False True
      by (auto simp: send_data_def snd cm up fl split: sum.splits)
  next
    case False2: False
    with assms False show ?thesis
      by (auto simp: send_data_def snd split: sum.splits)
  qed
qed

lemma session_update_frame:
  assumes "session_update api now s w = (r, s', w')"
  shows "kcp_frame s s' \<and> data_only (out_peer (out_adapter (inner s))) w w'"
proof -
  obtain r2 s2 w2 where up: "run_kcp (api_update api now (kcp (inner s))) s w = (r2, s2, w2)"
    by (metis prod_cases3)
  from run_kcp_frame [OF up] assms show ?thesis
    by (auto simp: session_update_def up split: if_splits sum.splits)
qed

lemma drain_queue:
  assumes laws: "kcp_recv_laws api q"
  shows "\<exists>k'. drain api k out = Some (Inr (), out @ q k, k') \<and> q k' = []"
proof (induction "q k" arbitrary: k out)
  case Nil
  with laws obtain e where "api_peeksize api k = Inl e" unfolding kcp_recv_laws_def by metis
  with Nil show ?case by (simp add: drain.simps)
next
  case (Cons m ms)
  have "length (replicate (length m) (0::u8)) = length m" by simp
  with laws Cons.hyps(2) obtain k' where
     "api_peeksize api k = Inr (length m)"
     "api_recv api (replicate (length m) 0) k = (Inr (length m), m, k')" "q k' = ms"
    unfolding kcp_recv_laws_def by metis
  with Cons.hyps(1) [of k' "out @ [m]"] Cons.hyps(2) show ?case
    by (simp add: drain.simps [of api k])
qed

section \<open>The retry schedule\<close>

text \<open>
  The handshake retries as the update task drives them: \<open>n\<close> ticks, each reading the clock and
  calling \<^verbatim>\<open>maybe_retry_syn\<close>. \<open>retry_wait config i\<close> is the wait before retry \<open>i\<close> in
  milliseconds, as the code computes it; \<open>steady_clock\<close> is a clock that does not go back and stays
  within 64 bits of nanoseconds.
\<close>

fun retry_ticks :: "kcp_config \<Rightarrow> nat \<Rightarrow> 'k session \<Rightarrow> platform \<Rightarrow> bool result list \<times> 'k session \<times> platform" where
  "retry_ticks config 0 s w = ([], s, w)"
| "retry_ticks config (Suc n) s w =
     (case epoch_ms w of
        (now, w1) \<Rightarrow>
          (case maybe_retry_syn config now s w1 of
             (r, s2, w2) \<Rightarrow>
               (case retry_ticks config n s2 w2 of (rs, s3, w3) \<Rightarrow> (r # rs, s3, w3))))"

definition retry_wait :: "kcp_config \<Rightarrow> u32 \<Rightarrow> nat" where
  "retry_wait config i = unat (shl_u64 (as_millis_u64 (syn_retry_interval config)) i)"


definition steady_clock :: "nat \<Rightarrow> platform \<Rightarrow> bool" where
  "steady_clock N w \<longleftrightarrow>
     (\<forall>i j. i \<le> j \<and> j < N \<longrightarrow> reading w i \<le> reading w j \<and> reading w j < 2 ^ 64)"

lemma retry_wait_less:
  "saturating_sub now at < shl_u64 (as_millis_u64 (syn_retry_interval config)) i \<longleftrightarrow>
     unat now - unat at < retry_wait config i"
  by (simp add: retry_wait_def word_less_nat_alt unat_saturating_sub)

lemma maybe_retry_syn_cases [consumes 1, case_names closed established exhausted early retry]:
  assumes "maybe_retry_syn config now s w = (r, s', w')"
  obtains "closed s" "r = Inl SessionClosed" "s' = s" "w' = w"
  | "\<not> closed s" "state (inner s) = Established" "r = Inr False" "s' = s" "w' = w"
  | "\<not> closed s" "state (inner s) = SynSent" "syn_max_retries config \<le> syn_retries s"
    "r = Inl DeadLink" "s' = s" "w' = w"
  | "\<not> closed s" "state (inner s) = SynSent" "syn_retries s < syn_max_retries config"
    "unat now - unat (syn_sent_at s) < retry_wait config (syn_retries s)"
    "r = Inr False" "s' = s" "w' = w"
  | "\<not> closed s" "state (inner s) = SynSent" "syn_retries s < syn_max_retries config"
    "retry_wait config (syn_retries s) \<le> unat now - unat (syn_sent_at s)"
    "r = Inr True" "s' = s\<lparr>syn_sent_at := fst (epoch_ms w), syn_retries := syn_retries s + 1\<rparr>"
    "offered w' = offered w @ [(peer_addr s, encode_control Syn (conv_id (inner s)))]"
    "clock_reads w' = Suc (clock_reads w)" "same_oracles w w'"
proof -
  define w1 where "w1 = snd (try_send_to (encode_control Syn (conv_id (inner s))) (peer_addr s) w)"
  obtain t w2 where ep: "epoch_ms w1 = (t, w2)" by fastforce
  have w1: "fst (epoch_ms w1) = fst (epoch_ms w)" "clock_reads w1 = clock_reads w"
    "offered w1 = offered w @ [(peer_addr s, encode_control Syn (conv_id (inner s)))]"
    "same_oracles w w1"
    unfolding w1_def by (simp_all add: epoch_ms_def try_send_to_def Let_def offered_def same_oracles_def)
  have w2: "t = fst (epoch_ms w)" "clock_reads w2 = Suc (clock_reads w)"
    "offered w2 = offered w @ [(peer_addr s, encode_control Syn (conv_id (inner s)))]"
    "same_oracles w w2"
    using w1 epoch_ms_facts [OF ep] ep by (auto intro: same_oracles_trans)
  note eq = assms [unfolded maybe_retry_syn_def Let_def w1_def [symmetric] ep retry_wait_less]
  show thesis
  proof (cases "closed s")
    case True
    with eq show thesis by (intro that(1)) auto
  next
    case open_s: False
    show thesis
    proof (cases "state (inner s)")
      case Established
      with eq open_s show thesis by (intro that(2)) auto
    next
      case SynSent
      consider "syn_max_retries config \<le> syn_retries s"
        | "syn_retries s < syn_max_retries config"
          "unat now - unat (syn_sent_at s) < retry_wait config (syn_retries s)"
        | "syn_retries s < syn_max_retries config"
          "retry_wait config (syn_retries s) \<le> unat now - unat (syn_sent_at s)"
        by (meson not_le)
      then show thesis
      proof cases
        case 1
        with eq open_s SynSent show thesis by (intro that(3)) auto
      next
        case 2
        then have "\<not> syn_max_retries config \<le> syn_retries s" by simp
        with 2 eq open_s SynSent show thesis by (intro that(4)) auto
      next
        case 3
        then have "\<not> syn_max_retries config \<le> syn_retries s"
          "\<not> unat now - unat (syn_sent_at s) < retry_wait config (syn_retries s)" by simp_all
        with 3 eq open_s SynSent w2 show thesis by (intro that(5)) auto
      qed
    qed
  qed
qed

lemma unat_Suc_less: "a < b \<Longrightarrow> unat (a + 1) = Suc (unat a)" for a b :: u32
proof -
  assume "a < b"
  moreover have "unat b < 2 ^ LENGTH(32)" by (rule unsigned_less)
  ultimately show ?thesis by (simp add: unat_word_ariths word_less_nat_alt)
qed

lemma retry_ticks_budget:
  assumes "retry_ticks config n s w = (rs, s', w')"
    and "state (inner s) = SynSent" and "\<not> closed s"
    and "syn_retries s \<le> syn_max_retries config"
  shows "unat (syn_retries s') = unat (syn_retries s) + length (filter ((=) (Inr True)) rs) \<and>
   syn_retries s' \<le> syn_max_retries config \<and>
   offered w' = offered w @ replicate (length (filter ((=) (Inr True)) rs))
      (peer_addr s, encode_control Syn (conv_id (inner s))) \<and>
   (Inl DeadLink \<in> set rs \<longrightarrow> syn_retries s' = syn_max_retries config) \<and>
   (\<exists>a r. s' = s\<lparr>syn_sent_at := a, syn_retries := r\<rparr>)"
  using assms
proof (induction n arbitrary: s w rs)
  case 0
  then show ?case by auto (metis session.surjective session.update_convs(5,6))
next
  case (Suc n)
  obtain now w1 where ep: "epoch_ms w = (now, w1)" by fastforce
  obtain r s2 w2 where mr: "maybe_retry_syn config now s w1 = (r, s2, w2)" by (metis prod_cases3)
  obtain rs3 where rt: "retry_ticks config n s2 w2 = (rs3, s', w')" and rs: "rs = r # rs3"
    using Suc.prems(1) ep mr by (auto split: prod.splits)
  note off = epoch_ms_facts(1) [OF ep]
  from mr show ?case
  proof (cases rule: maybe_retry_syn_cases)
    case exhausted
    with Suc.IH [OF rt] Suc.prems off rs show ?thesis
      by (auto simp: word_le_nat_alt word_unat_eq_iff)
  next
    case early
    with Suc.IH [OF rt] Suc.prems off rs show ?thesis by auto
  next
    case retry
    then have "unat (syn_retries s2) = Suc (unat (syn_retries s))" "syn_retries s2 \<le> syn_max_retries config"
      using unat_Suc_less [OF retry(3)] inc_le by (auto simp: word_le_nat_alt word_less_nat_alt)
    with retry Suc.IH [OF rt] Suc.prems off rs show ?thesis by auto
  qed (use Suc.prems in auto)
qed


lemma steady_clock_same: "steady_clock N w \<Longrightarrow> same_oracles w w' \<Longrightarrow> steady_clock N w'"
  unfolding steady_clock_def by (simp only: reading_same_oracles)

lemma epoch_ms_mono:
  assumes "steady_clock N w" "same_oracles w w'" "clock_reads w \<le> clock_reads w'" "clock_reads w' < N"
  shows "unat (fst (epoch_ms w)) \<le> unat (fst (epoch_ms w'))"
proof -
  from assms have le: "clock_reads w \<le> clock_reads w'" "clock_reads w' < N" "clock_reads w < N" by auto
  with assms(1) have "reading w (clock_reads w) < 2 ^ 64" "reading w (clock_reads w') < 2 ^ 64"
    "reading w (clock_reads w) \<le> reading w (clock_reads w')"
    unfolding steady_clock_def by blast+
  then show ?thesis by (simp add: unat_epoch_ms reading_same_oracles [OF assms(2)])
qed

lemma retry_wait_exact:
  assumes "i < 64" and "base * 2 ^ unat i < 2 ^ 64" and "base = syn_retry_interval config div 1000000"
  shows "retry_wait config i = base * 2 ^ unat i"
proof -
  have "unat i < 64" using assms(1) by (simp add: word_less_nat_alt)
  moreover have "base < 2 ^ 64"
    using assms(2) by (rule le_less_trans [rotated]) simp
  ultimately have "unat (word_of_nat base :: u64) = base" "unat i mod 64 = unat i"
    by (simp_all add: unat_of_nat)
  then have "retry_wait config i = take_bit 64 (push_bit (unat i) base)"
    unfolding retry_wait_def shl_u64_def as_millis_u64_def assms(3) [symmetric]
    by (simp add: unsigned_push_bit_eq del: push_bit_of_nat)
  also have "\<dots> = base * 2 ^ unat i"
    using assms(2) by (simp add: push_bit_eq_mult take_bit_nat_eq_self)
  finally show ?thesis .
qed

lemma retry_ticks_spacing:
  assumes "retry_ticks config n s w = (rs, s', w')"
    and "state (inner s) = SynSent" and "\<not> closed s"
    and "steady_clock N w" and "clock_reads w + 2 * n < N"
    and "unat (syn_sent_at s) \<le> unat (fst (epoch_ms w))"
    and "syn_retries s \<le> syn_max_retries config"
    and max: "syn_max_retries config \<le> 64"
    and base: "base = syn_retry_interval config div 1000000"
    and fits: "base * 2 ^ unat (syn_max_retries config) < 2 ^ 64"
  shows "unat (syn_sent_at s) + base * (2 ^ unat (syn_retries s') - 2 ^ unat (syn_retries s))
            \<le> unat (syn_sent_at s')"
  using assms(1-7)
proof (induction n arbitrary: s w rs)
  case 0
  then show ?case by auto
next
  case (Suc n)
  obtain now w1 where ep: "epoch_ms w = (now, w1)" by fastforce
  obtain r s2 w2 where mr: "maybe_retry_syn config now s w1 = (r, s2, w2)" by (metis prod_cases3)
  obtain rs3 where rt: "retry_ticks config n s2 w2 = (rs3, s', w')" and rs: "rs = r # rs3"
    using Suc.prems(1) ep mr by (auto split: prod.splits)
  note ep_facts = epoch_ms_facts [OF ep]
  have st1: "steady_clock N w1" using Suc.prems(4) ep_facts(2) by (rule steady_clock_same)
  have now_le: "unat now \<le> unat (fst (epoch_ms w1))"
    using epoch_ms_mono [OF Suc.prems(4) ep_facts(2)] Suc.prems(5) ep ep_facts(3) by simp
  have keep: ?case if "s2 = s" "w2 = w1"
    using that Suc.IH [OF rt] Suc.prems st1 now_le ep ep_facts(3) by simp
  from mr show ?case
  proof (cases rule: maybe_retry_syn_cases)
    case retry
    let ?i = "syn_retries s"
    have i: "unat ?i < unat (syn_max_retries config)" "unat (syn_max_retries config) \<le> 64"
      using retry(3) max by (simp_all add: word_less_nat_alt word_le_nat_alt)
    have "base * 2 ^ unat ?i \<le> base * 2 ^ unat (syn_max_retries config)"
      using i by (intro mult_le_mono power_increasing) auto
    from le_less_trans [OF this fits] have wait: "retry_wait config ?i = base * 2 ^ unat ?i"
      using i by (intro retry_wait_exact [OF _ _ base]) (simp_all add: word_less_nat_alt)
    have r2: "unat (syn_retries s2) = Suc (unat ?i)" "syn_retries s2 \<le> syn_max_retries config"
      using unat_Suc_less [OF retry(3)] retry(6) i by (simp_all add: word_le_nat_alt)
    have sent2: "unat (syn_sent_at s) + base * 2 ^ unat ?i \<le> unat (syn_sent_at s2)"
      using retry(4,6) now_le wait Suc.prems(6) ep by auto
    have "unat (syn_sent_at s2) + base * (2 ^ unat (syn_retries s') - 2 ^ unat (syn_retries s2))
        \<le> unat (syn_sent_at s')"
      using epoch_ms_mono [OF st1 retry(9)] retry r2 Suc.prems ep_facts(3)
        steady_clock_same [OF st1 retry(9)]
      by (intro Suc.IH [OF rt]) auto
    moreover have "unat (syn_retries s2) \<le> unat (syn_retries s')"
      using retry_ticks_budget [OF rt] retry r2 Suc.prems by auto
    then have "base * 2 ^ unat ?i + base * (2 ^ unat (syn_retries s') - 2 ^ unat (syn_retries s2))
       = base * (2 ^ unat (syn_retries s') - 2 ^ unat ?i)"
      using r2 power_increasing [of "unat (syn_retries s2)" "unat (syn_retries s')" "2::nat"]
      by (simp add: add_mult_distrib2 [symmetric])
    ultimately show ?thesis using sent2 by linarith
  qed (use keep Suc.prems in auto)
qed

lemma steady_clockD: "steady_clock N w \<Longrightarrow> j < N \<Longrightarrow> reading w j < 2 ^ 64"
  unfolding steady_clock_def by blast

lemma retry_ticks_exhausts:
  assumes "unat (syn_max_retries config) - unat (syn_retries s) = m"
    and "state (inner s) = SynSent" and "\<not> closed s"
    and "syn_retries s \<le> syn_max_retries config"
    and max: "syn_max_retries config \<le> 64"
    and base: "base = syn_retry_interval config div 1000000"
    and fits: "base * 2 ^ unat (syn_max_retries config) < 2 ^ 64"
    and "steady_clock N w" and "clock_reads w + 2 * m < N"
    and "\<forall>i. Suc i < N \<longrightarrow> reading w i + base * 2 ^ unat (syn_max_retries config) \<le> reading w (Suc i)"
    and "unat (syn_sent_at s) + base * 2 ^ unat (syn_max_retries config) \<le> unat (fst (epoch_ms w))"
  shows "fst (retry_ticks config (Suc m) s w) = replicate m (Inr True) @ [Inl DeadLink]"
  using assms(1-4,8-11)
proof (induction m arbitrary: s w)
  case 0
  then have "syn_max_retries config \<le> syn_retries s" by (simp add: word_le_nat_alt)
  with 0 show ?case by (simp add: maybe_retry_syn_def split: prod.splits)
next
  case (Suc m)
  let ?i = "syn_retries s"
  obtain now w1 where ep: "epoch_ms w = (now, w1)" by fastforce
  obtain r s2 w2 where mr: "maybe_retry_syn config now s w1 = (r, s2, w2)" by (metis prod_cases3)
  note ep_facts = epoch_ms_facts [OF ep]
  have i: "unat ?i < unat (syn_max_retries config)" "unat (syn_max_retries config) \<le> 64"
    using Suc.prems(1) max by (simp_all add: word_le_nat_alt)
  have le: "base * 2 ^ unat ?i \<le> base * 2 ^ unat (syn_max_retries config)"
    using i by (intro mult_le_mono power_increasing) auto
  from le_less_trans [OF this fits] have wait: "retry_wait config ?i = base * 2 ^ unat ?i"
    using i by (intro retry_wait_exact [OF _ _ base]) (simp_all add: word_less_nat_alt)
  have due: "retry_wait config ?i \<le> unat now - unat (syn_sent_at s)"
  proof -
    from Suc.prems(8) ep
    have "unat (syn_sent_at s) + base * 2 ^ unat (syn_max_retries config) \<le> unat now" by simp
    with le show ?thesis unfolding wait by linarith
  qed
  from mr show ?case
  proof (cases rule: maybe_retry_syn_cases)
    case retry
    have st1: "steady_clock N w1" "steady_clock N w2"
      using steady_clock_same [OF Suc.prems(5) ep_facts(2)] steady_clock_same retry(9) by blast+
    have rd: "reading w2 = reading w" "clock_reads w2 = clock_reads w + 2" "clock_reads w1 = clock_reads w + 1"
      using reading_same_oracles [OF ep_facts(2)] reading_same_oracles [OF retry(9)] ep_facts(3) retry(8) by auto
    have "reading w (clock_reads w + 2) < 2 ^ 64" "reading w (clock_reads w + 1) < 2 ^ 64"
      using Suc.prems(6) by (intro steady_clockD [OF Suc.prems(5)], simp)+
    then have "unat (fst (epoch_ms w1)) + base * 2 ^ unat (syn_max_retries config) \<le> unat (fst (epoch_ms w2))"
      using Suc.prems(6,7) rd reading_same_oracles [OF ep_facts(2)] by (simp add: unat_epoch_ms)
    moreover have "unat (syn_retries s2) = Suc (unat ?i)"
      using unat_Suc_less [OF retry(3)] retry(6) by simp
    ultimately have "fst (retry_ticks config (Suc m) s2 w2) = replicate m (Inr True) @ [Inl DeadLink]"
      using Suc.prems retry i rd st1 by (intro Suc.IH) (auto simp: word_le_nat_alt)
    then show ?thesis using ep mr retry(5) by (auto split: prod.splits)
  qed (use Suc.prems due i in \<open>auto simp: word_le_nat_alt\<close>)
qed


section \<open>A session to run\<close>

text \<open>An outbound session of the concrete KCP instance, for the witnesses.\<close>

definition demo_session :: "mini_kcp session" where
  "demo_session = fst (new_outbound (mini_api to_le_bytes) 7 (V4 2 9000) 1 config_default
     (fair_platform (V4 1 9000) 10))"

lemma demo_session_fields [simp]:
  "state (inner demo_session) = SynSent" "\<not> closed demo_session" "syn_retries demo_session = 0"
  "conv_id (inner demo_session) = 7" "peer_addr demo_session = V4 2 9000"
  "syn_sent_at demo_session = 10" "last_rx demo_session = 10"
  "out_peer (out_adapter (inner demo_session)) = V4 2 9000"
  by (simp_all add: demo_session_def new_outbound_def epoch_ms_def fair_platform_def as_millis_u64_def)


lemma fair_steady: "0 \<le> st \<Longrightarrow> nat (int N * st) < 2 ^ 64 \<Longrightarrow> steady_clock N (fair_platform a st)"
proof -
  assume st: "0 \<le> st" "nat (int N * st) < 2 ^ 64"
  have "reading (fair_platform a st) j < 2 ^ 64" if "j < N" for j
  proof -
    have "(int j + 1) * st \<le> int N * st" using that st(1) by (intro mult_right_mono) auto
    then show ?thesis using st(2) by (simp del: of_nat_Suc)
  qed
  moreover have "reading (fair_platform a st) i \<le> reading (fair_platform a st) j" if "i \<le> j" for i j
    using that st(1) by (auto intro!: nat_mono mult_right_mono)
  ultimately show ?thesis by (simp add: steady_clock_def del: fair_platform_fields)
qed


section \<open>Properties\<close>

text \<open>
  C30. The output adapter hands KCP's packet to the socket as exactly one datagram for the session's
  peer, the type byte followed by the packet, whatever its scratch buffer held before. When the
  socket takes datagrams whole, the write reports the full length of the packet if the datagram was
  taken or the socket would block (the packet is then dropped and left to retransmission), and any
  other socket error is passed on to KCP.
\<close>

theorem direct_write_spec:
  assumes "datagrams_whole w" and "direct_write buf d w = (r, d', w')"
  shows "offered w' = offered w @ [(out_peer d, encode_kcp_data buf)] \<and>
    out_peer d' = out_peer d \<and>
    r = (case send_outcome w (length (wire w)) (encode_kcp_data buf) of
           Inr n \<Rightarrow> Inr (length buf)
         | Inl e \<Rightarrow> if io_kind e = WouldBlock then Inr (length buf) else Inl e)"
proof -
  obtain res w1 where ts: "try_send_to (encode_kcp_data buf) (out_peer d) w = (res, w1)" by fastforce
  then have res: "res = send_outcome w (length (wire w)) (encode_kcp_data buf)"
    and "offered w1 = offered w @ [(out_peer d, encode_kcp_data buf)]"
    using offered_try_send_to [of "encode_kcp_data buf" "out_peer d" w]
    by (auto simp: try_send_to_def Let_def)
  moreover have "res = Inr n \<Longrightarrow> n - 1 = length buf" for n
  proof -
    assume "res = Inr n"
    with assms(1) res have "n = length (encode_kcp_data buf)" unfolding datagrams_whole_def by metis
    then show ?thesis by (simp add: encode_kcp_data_def)
  qed
  ultimately show ?thesis
    using assms(2) unfolding direct_write_eq ts
    by (auto split: sum.splits if_splits)
qed

theorem direct_write_spec_witness:
  "\<exists>r d' w'. datagrams_whole (fair_platform (V4 1 9000) 10) \<and>
     direct_write [1, 2] \<lparr>out_peer = V4 2 9000, out_buf = [9]\<rparr> (fair_platform (V4 1 9000) 10) = (r, d', w') \<and>
     offered w' = [(V4 2 9000, [0, 1, 2])] \<and> r = Inr 2"
proof -
  let ?w = "fair_platform (V4 1 9000) 10" and ?d = "\<lparr>out_peer = V4 2 9000, out_buf = [9]\<rparr>"
  obtain r d' w' where dw: "direct_write [1, 2] ?d ?w = (r, d', w')" by (metis prod_cases3)
  have "datagrams_whole ?w" by simp
  with direct_write_spec [OF this dw] dw show ?thesis
    by (auto simp: fair_platform_def offered_def encode_kcp_data_def)
qed

text \<open>
  Sending through a session, every outcome: \<^verbatim>\<open>SessionClosed\<close> iff it is closed,
  \<^verbatim>\<open>DeadLink\<close> iff it is open and KCP has given up, both without any effect; every other
  error is KCP's own. During the handshake nothing reaches the wire and a successful call has queued
  the data in KCP. In all cases only KCP's state changes, and only KCP data packets for this peer are
  offered to the socket.
\<close>

theorem send_data_spec:
  assumes "send_data api data s w = (r, s', w')"
  shows "(r = Inl SessionClosed \<longleftrightarrow> closed s) \<and>
     (r = Inl DeadLink \<longleftrightarrow> \<not> closed s \<and> api_is_dead_link api (kcp (inner s))) \<and>
     (\<forall>e. r = Inl e \<longrightarrow> e \<in> {SessionClosed, DeadLink} \<union> range Kcp) \<and>
     (r \<in> {Inl SessionClosed, Inl DeadLink} \<longrightarrow> s' = s \<and> w' = w) \<and>
     (state (inner s) = SynSent \<longrightarrow> w' = w) \<and>
     (state (inner s) = SynSent \<and> r = Inr () \<longrightarrow>
        (\<exists>n. api_send api data (kcp (inner s)) = (Inr n, kcp (inner s')))) \<and>
     kcp_frame s s' \<and> data_only (out_peer (out_adapter (inner s))) w w'"
  using send_data_frame [OF assms] assms
  by (auto simp: send_data_def Let_def split: if_splits prod.splits sum.splits)

theorem send_data_spec_witness:
  "\<exists>r s' w'. send_data (mini_api to_le_bytes) [5] demo_session (fair_platform (V4 1 9000) 10) = (r, s', w') \<and>
     r = Inr () \<and> w' = fair_platform (V4 1 9000) 10 \<and> mk_snd (kcp (inner s')) = [[5]]"
proof -
  let ?w = "fair_platform (V4 1 9000) 10" and ?api = "mini_api to_le_bytes"
  obtain r s' w' where sd: "send_data ?api [5] demo_session ?w = (r, s', w')" by (metis prod_cases3)
  have k: "mk_snd (kcp (inner demo_session)) = []" "\<not> mk_dead (kcp (inner demo_session))"
    by (simp_all add: demo_session_def new_outbound_def epoch_ms_def apply_to_def Let_def)
  have "r = Inr ()" using sd k by (auto simp: send_data_def)
  with send_data_spec [OF sd] sd k show ?thesis by auto (metis mini_kcp.select_convs(3) mini_kcp.surjective mini_kcp.update_convs(3))
qed

text \<open>
  C25. The drain loop terminates and delivers everything: under KCP's contract for
  \<^verbatim>\<open>peeksize\<close> and \<^verbatim>\<open>recv\<close> it returns all complete messages of the receive queue,
  in order and with their exact bytes, and leaves the queue empty; nothing else of the session
  changes.
\<close>

theorem try_recv_all_drains:
  assumes "kcp_recv_laws api q"
  shows "\<exists>s'. try_recv_all api [] s = Some (Inr (), q (kcp (inner s)), s') \<and>
     q (kcp (inner s')) = [] \<and> kcp_frame s s'"
  using drain_queue [OF assms, of "kcp (inner s)" "[]"] by (auto simp: try_recv_all_def)

theorem try_recv_all_drains_witness:
  "kcp_recv_laws (mini_api to_le_bytes) mk_rcv \<and>
   (\<exists>s'. try_recv_all (mini_api to_le_bytes) []
           (set_inner_kcp ((kcp (inner demo_session))\<lparr>mk_rcv := [[1], [2, 3]]\<rparr>) demo_session) =
         Some (Inr (), [[1], [2, 3]], s') \<and> mk_rcv (kcp (inner s')) = [])"
  using mini_recv_laws try_recv_all_drains [OF mini_recv_laws, of to_le_bytes
    "set_inner_kcp ((kcp (inner demo_session))\<lparr>mk_rcv := [[1], [2, 3]]\<rparr>) demo_session"]
  by auto

text \<open>
  C23. Handshake retries are bounded: over any number of ticks the session sends one SYN for each tick
  that reports a retry and nothing else, always the same packet to the same peer; the retry counter
  counts exactly these and never passes \<^verbatim>\<open>syn_max_retries\<close>; and \<^verbatim>\<open>DeadLink\<close> is
  only ever reported when the whole budget is used.
\<close>

theorem syn_retry_budget:
  assumes "retry_ticks config n s w = (rs, s', w')"
    and "state (inner s) = SynSent" and "\<not> closed s"
    and "syn_retries s \<le> syn_max_retries config"
  shows "unat (syn_retries s') = unat (syn_retries s) + length (filter ((=) (Inr True)) rs) \<and>
    syn_retries s' \<le> syn_max_retries config \<and>
    offered w' = offered w @ replicate (length (filter ((=) (Inr True)) rs))
      (peer_addr s, encode_control Syn (conv_id (inner s))) \<and>
    (Inl DeadLink \<in> set rs \<longrightarrow> syn_retries s' = syn_max_retries config)"
  using retry_ticks_budget [OF assms] by blast

theorem syn_retry_budget_witness:
  "\<exists>rs s' w'. retry_ticks config_default 9 demo_session (fair_platform (V4 1 9000) 10) = (rs, s', w') \<and>
     syn_retries s' \<le> 5 \<and> unat (syn_retries s') = length (filter ((=) (Inr True)) rs)"
proof -
  let ?w = "fair_platform (V4 1 9000) 10"
  obtain rs s' w' where rt: "retry_ticks config_default 9 demo_session ?w = (rs, s', w')"
    by (metis prod_cases3)
  from syn_retry_budget [OF rt] rt show ?thesis by auto
qed

text \<open>
  C22. The exponential backoff: on a clock that does not go back, a session whose first SYN went out at
  time \<open>t\<close> has sent its \<open>r\<close>-th retry no earlier than \<open>t + base * (2 ^ r - 1)\<close>
  milliseconds, and the handshake is not given up before \<open>t + base * (2 ^ max - 1)\<close>: 4650 ms with the
  defaults, as the documentation of \<^verbatim>\<open>syn_retry_interval\<close> says. The bounds on the retry count
  and on the largest wait keep the shift within 64 bits.
\<close>

theorem syn_backoff_schedule:
  assumes "retry_ticks config n s w = (rs, s', w')"
    and "state (inner s) = SynSent" and "\<not> closed s" and "syn_retries s = 0"
    and "steady_clock N w" and "clock_reads w + 2 * n < N"
    and "unat (syn_sent_at s) \<le> unat (fst (epoch_ms w))"
    and "syn_max_retries config \<le> 64"
    and "base = syn_retry_interval config div 1000000"
    and "base * 2 ^ unat (syn_max_retries config) < 2 ^ 64"
  shows "unat (syn_sent_at s) + base * (2 ^ unat (syn_retries s') - 1) \<le> unat (syn_sent_at s') \<and>
    (Inl DeadLink \<in> set rs \<longrightarrow>
       unat (syn_sent_at s) + base * (2 ^ unat (syn_max_retries config) - 1) \<le> unat (syn_sent_at s'))"
proof -
  have "syn_retries s \<le> syn_max_retries config" using assms(4) by simp
  with retry_ticks_spacing [OF assms(1-3,5-7) _ assms(8-10)] retry_ticks_budget [OF assms(1-3)] assms(4)
  show ?thesis by auto
qed

theorem syn_backoff_schedule_witness:
  "\<exists>rs s' w'. retry_ticks config_default 9 demo_session (fair_platform (V4 1 9000) 1000) = (rs, s', w') \<and>
     10 + 150 * (2 ^ unat (syn_retries s') - 1) \<le> unat (syn_sent_at s')"
proof -
  let ?w = "fair_platform (V4 1 9000) 1000"
  obtain rs s' w' where rt: "retry_ticks config_default 9 demo_session ?w = (rs, s', w')"
    by (metis prod_cases3)
  have "steady_clock 100 ?w" by (rule fair_steady) auto
  moreover have "unat (syn_sent_at demo_session) \<le> unat (fst (epoch_ms ?w))"
    by (simp add: unat_epoch_ms)
  ultimately have "10 + 150 * (2 ^ unat (syn_retries s') - 1) \<le> unat (syn_sent_at s')"
    using syn_backoff_schedule [OF rt, of 100 150] by simp
  with rt show ?thesis by blast
qed

text \<open>
  C24. An unanswered handshake ends: when the ticks are so far apart that every wait has elapsed, each
  tick retries until the budget is used, and the next one reports \<^verbatim>\<open>DeadLink\<close>, for which the
  update task removes the session.
\<close>

theorem syn_retry_exhausts:
  assumes "m = unat (syn_max_retries config) - unat (syn_retries s)"
    and "state (inner s) = SynSent" and "\<not> closed s"
    and "syn_retries s \<le> syn_max_retries config" and "syn_max_retries config \<le> 64"
    and "base = syn_retry_interval config div 1000000"
    and "base * 2 ^ unat (syn_max_retries config) < 2 ^ 64"
    and "steady_clock N w" and "clock_reads w + 2 * m < N"
    and "\<forall>i. Suc i < N \<longrightarrow> reading w i + base * 2 ^ unat (syn_max_retries config) \<le> reading w (Suc i)"
    and "unat (syn_sent_at s) + base * 2 ^ unat (syn_max_retries config) \<le> unat (fst (epoch_ms w))"
  shows "fst (retry_ticks config (Suc m) s w) = replicate m (Inr True) @ [Inl DeadLink]"
  using assms(1) by (intro retry_ticks_exhausts [OF _ assms(2-11)]) simp

theorem syn_retry_exhausts_witness:
  "fst (retry_ticks config_default 6 demo_session (fair_platform (V4 1 9000) 10000)) =
     [Inr True, Inr True, Inr True, Inr True, Inr True, Inl DeadLink]"
proof -
  let ?w = "fair_platform (V4 1 9000) 10000"
  have "steady_clock 100 ?w" by (rule fair_steady) auto
  moreover have "unat (syn_sent_at demo_session) + 150 * 2 ^ 5 \<le> unat (fst (epoch_ms ?w))"
    by (simp add: unat_epoch_ms)
  moreover have "\<forall>i. Suc i < 100 \<longrightarrow> reading ?w i + 150 * 2 ^ 5 \<le> reading ?w (Suc i)"
    by (simp add: nat_add_distrib algebra_simps)
  ultimately have "fst (retry_ticks config_default (Suc 5) demo_session ?w) =
     replicate 5 (Inr True) @ [Inl DeadLink]"
    by (intro syn_retry_exhausts [of _ _ _ 150 100]) simp_all
  then show ?thesis by (simp add: numeral_eq_Suc)
qed

end
