(* ===== verification/Addr_Table.thy ===== *)
theory Addr_Table
  imports Net_Addr "HOL-Library.AList"
begin

text \<open>
  The session map \<^verbatim>\<open>HashMap<CanonicalAddr, Arc<Session>>\<close> of
  \<^verbatim>\<open>src/src/transport.rs\<close>. The locale \<open>addr_table\<close> is the part of a map's contract that
  the transport relies on: what a lookup gives after an insertion or a removal, and that the iteration
  visits every entry once. It is interpreted on association lists with distinct keys; an
  \<^verbatim>\<open>Arc<Session>\<close> is a handle, the index of the session in the peer's arena, so that a session
  can be reached through a clone of its handle after it left the map.
\<close>

type_synonym handle = nat
type_synonym table = "(canonical_addr \<times> handle) list"

definition hm_get :: "table \<Rightarrow> canonical_addr \<Rightarrow> handle option" where
  "hm_get m can = map_of m can"

definition hm_insert :: "canonical_addr \<Rightarrow> handle \<Rightarrow> table \<Rightarrow> table" where
  "hm_insert can h m = AList.update can h m"

definition hm_remove :: "canonical_addr \<Rightarrow> table \<Rightarrow> table" where
  "hm_remove can m = AList.delete can m"

definition hm_values :: "table \<Rightarrow> handle list" where
  "hm_values m = map snd m"

definition table_ok :: "table \<Rightarrow> bool" where
  "table_ok m \<longleftrightarrow> distinct (map fst m)"

locale addr_table =
  fixes get :: "'m \<Rightarrow> 'a \<Rightarrow> 'v option"
    and ins :: "'a \<Rightarrow> 'v \<Rightarrow> 'm \<Rightarrow> 'm"
    and rem :: "'a \<Rightarrow> 'm \<Rightarrow> 'm"
    and entries :: "'m \<Rightarrow> ('a \<times> 'v) list"
    and ok :: "'m \<Rightarrow> bool"
  assumes get_ins: "get (ins a v m) b = (if b = a then Some v else get m b)"
    and get_rem: "get (rem a m) b = (if b = a then None else get m b)"
    and ok_ins: "ok m \<Longrightarrow> ok (ins a v m)"
    and ok_rem: "ok m \<Longrightarrow> ok (rem a m)"
    and entries_get: "ok m \<Longrightarrow> (a, v) \<in> set (entries m) \<longleftrightarrow> get m a = Some v"
    and entries_distinct: "ok m \<Longrightarrow> distinct (map fst (entries m))"
begin

lemma ins_same [simp]: "get (ins a v m) a = Some v"
  by (simp add: get_ins)

lemma rem_same [simp]: "get (rem a m) a = None"
  by (simp add: get_rem)

lemma other_untouched: "b \<noteq> a \<Longrightarrow> get (ins a v m) b = get m b \<and> get (rem a m) b = get m b"
  by (simp add: get_ins get_rem)

lemma entries_ins:
  "ok m \<Longrightarrow> set (entries (ins a v m)) = insert (a, v) {(b, x) \<in> set (entries m). b \<noteq> a}"
  by (auto simp: entries_get ok_ins get_ins split: if_splits)

lemma entries_rem:
  "ok m \<Longrightarrow> set (entries (rem a m)) = {(b, x) \<in> set (entries m). b \<noteq> a}"
  by (auto simp: entries_get ok_rem get_rem split: if_splits)

lemma entries_card: "ok m \<Longrightarrow> distinct (entries m)"
  using entries_distinct by (simp add: distinct_map)

text \<open>Removing the keys of a list one after the other removes exactly these.\<close>

lemma get_fold_rem: "get (fold rem as m) b = (if b \<in> set as then None else get m b)"
  by (induction as arbitrary: m) (auto simp: get_rem)

lemma ok_fold_rem: "ok m \<Longrightarrow> ok (fold rem as m)"
  by (induction as arbitrary: m) (auto intro: ok_rem)

end

interpretation hm: addr_table hm_get hm_insert hm_remove "\<lambda>m. m" table_ok
proof
  show "hm_get (hm_insert a v m) b = (if b = a then Some v else hm_get m b)" for a v m b
    by (simp add: hm_get_def hm_insert_def update_conv')
  show "hm_get (hm_remove a m) b = (if b = a then None else hm_get m b)" for a m b
    by (simp add: hm_get_def hm_remove_def delete_conv')
  show "table_ok m \<Longrightarrow> table_ok (hm_insert a v m)" for m a v
    by (simp add: table_ok_def hm_insert_def distinct_update)
  show "table_ok m \<Longrightarrow> table_ok (hm_remove a m)" for m a
    by (simp add: table_ok_def hm_remove_def distinct_delete)
  show "table_ok m \<Longrightarrow> (a, v) \<in> set m \<longleftrightarrow> hm_get m a = Some v" for m a v
    by (auto simp: table_ok_def hm_get_def)
  show "table_ok m \<Longrightarrow> distinct (map fst m)" for m
    by (simp add: table_ok_def)
qed

end
