(* ===== verification/Transport.thy ===== *)
theory Transport
  imports Session Addr_Table
begin

text \<open>
  The transport's state and its public operations, \<^verbatim>\<open>src/src/transport.rs\<close>:
  \<^verbatim>\<open>KcpPeer\<close> with \<^verbatim>\<open>bind_with\<close>, \<^verbatim>\<open>send\<close>, \<^verbatim>\<open>recv\<close>,
  \<^verbatim>\<open>peers\<close>, \<^verbatim>\<open>stats\<close>, \<^verbatim>\<open>disconnect\<close>, \<^verbatim>\<open>shutdown\<close> and
  \<^verbatim>\<open>drop\<close>. Every session ever created lives in the arena and never leaves it; the table maps
  canonical addresses to handles. The event channel is the log of what was sent to it. An awaited
  \<^verbatim>\<open>Notify\<close> is its stored permit; a \<^verbatim>\<open>recv\<close> that would wait is \<open>Pending\<close>.
\<close>

section \<open>State\<close>

datatype event = Connected sock_addr | Disconnected sock_addr | PeerRestarted sock_addr

record data_message =
  dm_peer :: sock_addr
  dm_data :: bytes

record peer_stats =
  ps_conv_id :: u32
  ps_send_wnd :: u32
  ps_recv_wnd :: u32
  ps_rmt_wnd :: u32
  ps_wait_snd :: usize
  ps_dead_link :: bool
  ps_elapsed :: duration

record 'k kcp_peer =
  plat :: platform
  arena :: "'k session list"
  sessions :: table
  event_log :: "event list"
  pending_data :: "data_message list"
  data_notify :: bool
  own_incarnation :: u64
  shutdown_token :: bool
  config :: kcp_config
  local_addr :: sock_addr

definition sess :: "'k kcp_peer \<Rightarrow> handle \<Rightarrow> 'k session" where
  "sess p h = arena p ! h"

definition set_sess :: "handle \<Rightarrow> 'k session \<Rightarrow> 'k kcp_peer \<Rightarrow> 'k kcp_peer" where
  "set_sess h s p = p\<lparr>arena := (arena p)[h := s]\<rparr>"

definition alloc :: "'k session \<Rightarrow> 'k kcp_peer \<Rightarrow> handle \<times> 'k kcp_peer" where
  "alloc s p = (length (arena p), p\<lparr>arena := arena p @ [s]\<rparr>)"

definition emit :: "event \<Rightarrow> 'k kcp_peer \<Rightarrow> 'k kcp_peer" where
  "emit ev p = p\<lparr>event_log := event_log p @ [ev]\<rparr>"

text \<open>An operation of a session run in the peer, on the session behind a handle.\<close>

definition on_session ::
  "('k session \<Rightarrow> platform \<Rightarrow> 'r \<times> 'k session \<times> platform) \<Rightarrow> handle \<Rightarrow> 'k kcp_peer \<Rightarrow> 'r \<times> 'k kcp_peer" where
  "on_session f h p =
     (case f (sess p h) (plat p) of (r, s, w) \<Rightarrow> (r, set_sess h s (p\<lparr>plat := w\<rparr>)))"

section \<open>Operations\<close>

text \<open>
  \<^verbatim>\<open>bind_with\<close>: what the operating system returns for the bind is an argument, a socket on a
  platform or an error; so is the random incarnation.
\<close>

definition bind_with :: "io_error + platform \<Rightarrow> u64 \<Rightarrow> kcp_config \<Rightarrow> 'k kcp_peer result" where
  "bind_with bound inc cfg =
     (case bound of
        Inl e \<Rightarrow> Inl (Io e)
      | Inr w \<Rightarrow>
          (case sock_local_addr w of
             Inl e \<Rightarrow> Inl (Io e)
           | Inr addr \<Rightarrow>
               Inr \<lparr>plat = w, arena = [], sessions = [], event_log = [], pending_data = [],
                    data_notify = False, own_incarnation = inc, shutdown_token = False,
                    config = cfg, local_addr = addr\<rparr>))"

definition bind :: "io_error + platform \<Rightarrow> u64 \<Rightarrow> 'k kcp_peer result" where
  "bind bound inc = bind_with bound inc config_default"

text \<open>
  \<^verbatim>\<open>initiate_session\<close> in its two critical sections: the lookup under the read lock, and the
  check and insertion under the write lock; the SYN goes out after the insertion. \<open>conv\<close> is the
  conversation id drawn from \<^verbatim>\<open>1..=u32::MAX\<close>.
\<close>

definition initiate_insert :: "canonical_addr \<Rightarrow> 'k session \<Rightarrow> 'k kcp_peer \<Rightarrow> (handle + handle) \<times> 'k kcp_peer" where
  "initiate_insert can s p =
     (case hm_get (sessions p) can of
        Some existing \<Rightarrow> (Inl existing, p)
      | None \<Rightarrow>
          (case alloc s p of
             (h, p1) \<Rightarrow> (Inr h, p1\<lparr>sessions := hm_insert can h (sessions p1)\<rparr>)))"

definition initiate_session :: "'k kcp_api \<Rightarrow> u32 \<Rightarrow> sock_addr \<Rightarrow> 'k kcp_peer \<Rightarrow> handle \<times> 'k kcp_peer" where
  "initiate_session api conv peer p =
     (let can = canonicalize peer
      in case hm_get (sessions p) can of
           Some existing \<Rightarrow> (existing, p)
         | None \<Rightarrow>
             (case new_outbound api conv peer (own_incarnation p) (config p) (plat p) of
                (s, w) \<Rightarrow>
                  (case initiate_insert can s (p\<lparr>plat := w\<rparr>) of
                     (Inl existing, p1) \<Rightarrow> (existing, p1)
                   | (Inr h, p1) \<Rightarrow>
                       (h, snd (on_session (\<lambda>s w. ((), send_syn s w)) h p1)))))"

definition send :: "'k kcp_api \<Rightarrow> u32 \<Rightarrow> sock_addr \<Rightarrow> bytes \<Rightarrow> 'k kcp_peer \<Rightarrow> unit result \<times> 'k kcp_peer" where
  "send api conv peer data p =
     (case hm_get (sessions p) (canonicalize peer) of
        Some h \<Rightarrow> on_session (send_data api data) h p
      | None \<Rightarrow>
          (case initiate_session api conv peer p of
             (h, p1) \<Rightarrow> on_session (send_data api data) h p1))"

datatype 'a poll = Ready 'a | Pending

function recv :: "'k kcp_peer \<Rightarrow> data_message result poll \<times> 'k kcp_peer" where
  "recv p =
     (if shutdown_token p then (Ready (Inl ShuttingDown), p)
      else case pending_data p of
             msg # rest \<Rightarrow> (Ready (Inr msg), p\<lparr>pending_data := rest\<rparr>)
           | [] \<Rightarrow> if data_notify p then recv (p\<lparr>data_notify := False\<rparr>) else (Pending, p))"
  by pat_completeness auto
termination
  by (relation "measure (\<lambda>p. if data_notify p then 1 else 0)") auto

definition peers :: "'k kcp_peer \<Rightarrow> sock_addr list" where
  "peers p = map peer_addr (filter (\<lambda>s. \<not> closed s) (map (sess p) (hm_values (sessions p))))"

definition stats :: "'k kcp_api \<Rightarrow> sock_addr \<Rightarrow> 'k kcp_peer \<Rightarrow> peer_stats option \<times> 'k kcp_peer" where
  "stats api peer p =
     (case hm_get (sessions p) (canonicalize peer) of
        None \<Rightarrow> (None, p)
      | Some h \<Rightarrow>
          if closed (sess p h) then (None, p)
          else
            let i = inner (sess p h)
            in case epoch_ms (plat p) of
                 (now, w) \<Rightarrow>
                   (Some \<lparr>ps_conv_id = conv_id i,
                          ps_send_wnd = api_snd_wnd api (kcp i),
                          ps_recv_wnd = api_rcv_wnd api (kcp i),
                          ps_rmt_wnd = api_rmt_wnd api (kcp i),
                          ps_wait_snd = api_wait_snd api (kcp i),
                          ps_dead_link = api_is_dead_link api (kcp i),
                          ps_elapsed = from_millis (saturating_sub now (last_rx (sess p h)))\<rparr>,
                    p\<lparr>plat := w\<rparr>))"

text \<open>\<^verbatim>\<open>for _ in 0..3 { let _ = socket.try_send_to(&reset, dest); }\<close>\<close>

definition send_resets :: "u32 \<Rightarrow> sock_addr \<Rightarrow> 'k kcp_peer \<Rightarrow> 'k kcp_peer" where
  "send_resets conv dest p = p\<lparr>plat := send_copies 3 (encode_control Reset conv) dest (plat p)\<rparr>"

definition close_session :: "handle \<Rightarrow> 'k kcp_peer \<Rightarrow> 'k kcp_peer" where
  "close_session h p = set_sess h (mark_closed (sess p h)) p"

definition disconnect :: "sock_addr \<Rightarrow> 'k kcp_peer \<Rightarrow> 'k kcp_peer" where
  "disconnect peer p =
     (let can = canonicalize peer
      in case hm_get (sessions p) can of
           None \<Rightarrow> p
         | Some h \<Rightarrow>
             let p1 = close_session h (p\<lparr>sessions := hm_remove can (sessions p)\<rparr>);
                 p2 = send_resets (conv_id (inner (sess p1 h))) peer p1
             in emit (Disconnected peer) p2)"

text \<open>\<^verbatim>\<open>shutdown\<close>: the token, then a RESET to every session of the map; the awaited background
  tasks stop on the token.\<close>

fun reset_all :: "handle list \<Rightarrow> 'k kcp_peer \<Rightarrow> 'k kcp_peer" where
  "reset_all [] p = p"
| "reset_all (h # hs) p =
     (let p1 = close_session h p
      in reset_all hs (send_resets (conv_id (inner (sess p1 h))) (peer_addr (sess p1 h)) p1))"

definition shutdown :: "'k kcp_peer \<Rightarrow> 'k kcp_peer" where
  "shutdown p =
     (let p1 = p\<lparr>shutdown_token := True\<rparr>
      in reset_all (hm_values (sessions p1)) p1)"

definition drop_peer :: "'k kcp_peer \<Rightarrow> 'k kcp_peer" where
  "drop_peer p = p\<lparr>shutdown_token := True\<rparr>"

declare initiate_session_def [initiate_defs] initiate_insert_def [initiate_defs] alloc_def [initiate_defs]

section \<open>Selectors of the building blocks\<close>

lemma set_sess_sel [simp]:
  "plat (set_sess h s p) = plat p" "sessions (set_sess h s p) = sessions p"
  "event_log (set_sess h s p) = event_log p" "pending_data (set_sess h s p) = pending_data p"
  "data_notify (set_sess h s p) = data_notify p" "own_incarnation (set_sess h s p) = own_incarnation p"
  "shutdown_token (set_sess h s p) = shutdown_token p" "config (set_sess h s p) = config p"
  "local_addr (set_sess h s p) = local_addr p" "length (arena (set_sess h s p)) = length (arena p)"
  by (simp_all add: set_sess_def)

lemma emit_sel [simp]:
  "plat (emit ev p) = plat p" "sessions (emit ev p) = sessions p" "arena (emit ev p) = arena p"
  "event_log (emit ev p) = event_log p @ [ev]" "pending_data (emit ev p) = pending_data p"
  "data_notify (emit ev p) = data_notify p" "own_incarnation (emit ev p) = own_incarnation p"
  "shutdown_token (emit ev p) = shutdown_token p" "config (emit ev p) = config p"
  "local_addr (emit ev p) = local_addr p"
  by (simp_all add: emit_def)

lemma send_resets_sel [simp]:
  "plat (send_resets c d p) = send_copies 3 (encode_control Reset c) d (plat p)"
  "sessions (send_resets c d p) = sessions p" "arena (send_resets c d p) = arena p"
  "event_log (send_resets c d p) = event_log p" "pending_data (send_resets c d p) = pending_data p"
  "data_notify (send_resets c d p) = data_notify p"
  "own_incarnation (send_resets c d p) = own_incarnation p"
  "shutdown_token (send_resets c d p) = shutdown_token p" "config (send_resets c d p) = config p"
  "local_addr (send_resets c d p) = local_addr p"
  by (simp_all add: send_resets_def)

lemma close_session_sel [simp]:
  "plat (close_session h p) = plat p" "sessions (close_session h p) = sessions p"
  "event_log (close_session h p) = event_log p" "pending_data (close_session h p) = pending_data p"
  "data_notify (close_session h p) = data_notify p"
  "own_incarnation (close_session h p) = own_incarnation p"
  "shutdown_token (close_session h p) = shutdown_token p" "config (close_session h p) = config p"
  "local_addr (close_session h p) = local_addr p"
  "length (arena (close_session h p)) = length (arena p)"
  by (simp_all add: close_session_def)

lemma sess_upd [simp]:
  "sess (p\<lparr>plat := w\<rparr>) h = sess p h" "sess (p\<lparr>sessions := m\<rparr>) h = sess p h"
  "sess (p\<lparr>pending_data := ms\<rparr>) h = sess p h" "sess (p\<lparr>data_notify := b\<rparr>) h = sess p h"
  "sess (p\<lparr>event_log := l\<rparr>) h = sess p h" "sess (p\<lparr>shutdown_token := b\<rparr>) h = sess p h"
  "sess (emit ev p) h = sess p h" "sess (send_resets c d p) h = sess p h"
  by (simp_all add: sess_def)

lemma sess_set_sess:
  "h < length (arena p) \<Longrightarrow> sess (set_sess h s p) h' = (if h' = h then s else sess p h')"
  by (simp add: sess_def set_sess_def nth_list_update)

lemma sess_close_session:
  "h < length (arena p) \<Longrightarrow>
     sess (close_session h p) h' = (if h' = h then mark_closed (sess p h) else sess p h')"
  by (simp add: close_session_def sess_set_sess)

lemma alloc_sel:
  assumes "alloc s p = (h, p')"
  shows "h = length (arena p)" "p' = p\<lparr>arena := arena p @ [s]\<rparr>"
    "h' \<le> length (arena p) \<Longrightarrow> sess p' h' = (if h' = length (arena p) then s else sess p h')"
  using assms by (auto simp: alloc_def sess_def nth_append)

lemma mark_closed_sel [simp]:
  "closed (mark_closed s)" "inner (mark_closed s) = inner s" "peer_addr (mark_closed s) = peer_addr s"
  "last_rx (mark_closed s) = last_rx s" "syn_sent_at (mark_closed s) = syn_sent_at s"
  "syn_retries (mark_closed s) = syn_retries s"
  by (simp_all add: mark_closed_def)

end
