(* ===== verification/Incoming.thy ===== *)
theory Incoming
  imports Transport
begin

text \<open>
  The receive path, \<^verbatim>\<open>handle_incoming\<close> and the receive task of
  \<^verbatim>\<open>src/src/transport.rs\<close>, one definition per packet type. The SYN branch is split where the
  source drops its locks: the decision under the read lock, the SYN_ACK, the new session and its
  insertion. Draining KCP may not return, so the handler returns an option.
\<close>

section \<open>Definitions\<close>

text \<open>\<^verbatim>\<open>let _ = kcp.update(current_ms()); let _ = kcp.flush();\<close>\<close>

definition flush_queued :: "'k kcp_api \<Rightarrow> 'k session \<Rightarrow> platform \<Rightarrow> 'k session \<times> platform" where
  "flush_queued api s w =
     (case current_ms w of
        (now, w1) \<Rightarrow>
          (case run_kcp (api_update api now (kcp (inner s))) s w1 of
             (_, s2, w2) \<Rightarrow>
               (case run_kcp (api_flush api (kcp (inner s2))) s2 w2 of
                  (_, s3, w3) \<Rightarrow> (s3, w3))))"

text \<open>The transition to Established: state, time of the last packet, queued data.\<close>

definition establish :: "'k kcp_api \<Rightarrow> 'k session \<Rightarrow> platform \<Rightarrow> 'k session \<times> platform" where
  "establish api s w =
     (case epoch_ms w of
        (now, w1) \<Rightarrow> flush_queued api ((set_inner_state Established s)\<lparr>last_rx := now\<rparr>) w1)"

definition on_kcp_data ::
  "'k kcp_api \<Rightarrow> bytes \<Rightarrow> sock_addr \<Rightarrow> 'k kcp_peer \<Rightarrow> (unit result \<times> 'k kcp_peer) option" where
  "on_kcp_data api payload from p =
     (case hm_get (sessions p) (canonicalize from) of
        Some h \<Rightarrow>
          (case epoch_ms (plat p) of
             (now, w1) \<Rightarrow>
               let s1 = (sess p h)\<lparr>last_rx := now\<rparr>;
                   p1 = set_sess h s1 (p\<lparr>plat := w1\<rparr>)
               in case session_input api payload s1 of
                    (Inl e, s2) \<Rightarrow> Some (Inl e, set_sess h s2 p1)
                  | (Inr _, s2) \<Rightarrow>
                      (case try_recv_all api [] s2 of
                         None \<Rightarrow> None
                       | Some (Inl e, msgs, s3) \<Rightarrow> Some (Inl e, set_sess h s3 p1)
                       | Some (Inr _, msgs, s3) \<Rightarrow>
                           let p3 = set_sess h s3 p1
                           in Some (Inr (),
                                if msgs \<noteq> []
                                then p3\<lparr>pending_data := pending_data p3 @
                                           map (\<lambda>m. \<lparr>dm_peer = peer_addr s3, dm_data = m\<rparr>) msgs,
                                        data_notify := True\<rparr>
                                else p3)))
      | None \<Rightarrow>
          (case read_conv payload of
             None \<Rightarrow> Some (Inr (), p)
           | Some conv \<Rightarrow> Some (Inr (), send_resets conv from p)))"

datatype syn_action = CreateNew | KeepExisting | Ignore

record syn_result =
  syn_action :: syn_action
  send_ack_to :: "sock_addr option"
  ack_conv :: u32

text \<open>The decision on a SYN, under the read lock of the map and the lock of the session.\<close>

definition syn_decide ::
  "'k kcp_api \<Rightarrow> u32 \<Rightarrow> sock_addr \<Rightarrow> sock_addr \<Rightarrow> 'k kcp_peer \<Rightarrow> syn_result \<times> 'k kcp_peer" where
  "syn_decide api conv from my_addr p =
     (case hm_get (sessions p) (canonicalize from) of
        None \<Rightarrow> (\<lparr>syn_action = CreateNew, send_ack_to = None, ack_conv = 0\<rparr>, p)
      | Some h \<Rightarrow>
          let s = sess p h;
              old_conv = conv_id (inner s)
          in if old_conv = conv
             then if state (inner s) = Established
                  then case epoch_ms (plat p) of
                         (now, w) \<Rightarrow>
                           (\<lparr>syn_action = Ignore, send_ack_to = Some from, ack_conv = conv\<rparr>,
                            set_sess h (s\<lparr>last_rx := now\<rparr>) (p\<lparr>plat := w\<rparr>))
                  else (\<lparr>syn_action = Ignore, send_ack_to = None, ack_conv = 0\<rparr>, p)
             else if state (inner s) = SynSent
             then if from > my_addr
                  then let s1 = s\<lparr>inner := (inner s)\<lparr>kcp := api_set_conv api conv (kcp (inner s)),
                                                    conv_id := conv\<rparr>\<rparr>
                       in case establish api s1 (plat p) of
                            (s2, w) \<Rightarrow>
                              (\<lparr>syn_action = KeepExisting, send_ack_to = Some from, ack_conv = conv\<rparr>,
                               emit (Connected from) (set_sess h s2 (p\<lparr>plat := w\<rparr>)))
                  else case establish api s (plat p) of
                         (s2, w) \<Rightarrow>
                           (\<lparr>syn_action = KeepExisting, send_ack_to = Some from, ack_conv = old_conv\<rparr>,
                            emit (Connected from) (set_sess h s2 (p\<lparr>plat := w\<rparr>)))
             else (\<lparr>syn_action = CreateNew, send_ack_to = None, ack_conv = 0\<rparr>,
                   emit (PeerRestarted from) (close_session h p)))"

definition syn_ack_reply :: "syn_result \<Rightarrow> 'k kcp_peer \<Rightarrow> 'k kcp_peer" where
  "syn_ack_reply r p =
     (case send_ack_to r of
        None \<Rightarrow> p
      | Some peer \<Rightarrow> p\<lparr>plat := snd (send_to (encode_control SynAck (ack_conv r)) peer (plat p))\<rparr>)"

text \<open>The new inbound session, and its insertion under the write lock.\<close>

definition insert_inbound :: "sock_addr \<Rightarrow> 'k session \<Rightarrow> 'k kcp_peer \<Rightarrow> 'k kcp_peer" where
  "insert_inbound from s p =
     (case alloc s p of
        (h, p1) \<Rightarrow>
          emit (Connected from) (p1\<lparr>sessions := hm_insert (canonicalize from) h (sessions p1)\<rparr>))"

definition syn_create :: "'k kcp_api \<Rightarrow> u32 \<Rightarrow> sock_addr \<Rightarrow> 'k kcp_peer \<Rightarrow> 'k kcp_peer" where
  "syn_create api conv from p =
     (case new_inbound api conv from (own_incarnation p) (config p) (plat p) of
        (s, w) \<Rightarrow> insert_inbound from s (p\<lparr>plat := w\<rparr>))"

definition on_syn ::
  "'k kcp_api \<Rightarrow> bytes \<Rightarrow> sock_addr \<Rightarrow> 'k kcp_peer \<Rightarrow> unit result \<times> 'k kcp_peer" where
  "on_syn api payload from p =
     (case read_conv payload of
        None \<Rightarrow> (Inl (Io (IoError InvalidData ''truncated SYN'')), p)
      | Some conv \<Rightarrow>
          (case sock_local_addr (plat p) of
             Inl e \<Rightarrow> (Inl (Io e), p)
           | Inr my_addr \<Rightarrow>
               (case syn_decide api conv from my_addr p of
                  (r, p1) \<Rightarrow>
                    let p2 = syn_ack_reply r p1
                    in (Inr (), if syn_action r = CreateNew then syn_create api conv from p2 else p2))))"

definition on_syn_ack ::
  "'k kcp_api \<Rightarrow> bytes \<Rightarrow> sock_addr \<Rightarrow> 'k kcp_peer \<Rightarrow> unit result \<times> 'k kcp_peer" where
  "on_syn_ack api payload from p =
     (case read_conv payload of
        None \<Rightarrow> (Inl (Io (IoError InvalidData ''truncated SYN_ACK'')), p)
      | Some conv \<Rightarrow>
          (case hm_get (sessions p) (canonicalize from) of
             None \<Rightarrow> (Inr (), p)
           | Some h \<Rightarrow>
               let s = sess p h
               in if state (inner s) = SynSent \<and> conv_id (inner s) = conv
                  then case establish api s (plat p) of
                         (s2, w) \<Rightarrow> (Inr (), emit (Connected from) (set_sess h s2 (p\<lparr>plat := w\<rparr>)))
                  else (Inr (), p)))"

text \<open>
  A RESET is checked against the session under the read lock; the removal takes the write lock anew.
\<close>

definition reset_remove :: "handle \<Rightarrow> sock_addr \<Rightarrow> 'k kcp_peer \<Rightarrow> 'k kcp_peer" where
  "reset_remove h from p =
     emit (Disconnected from) (close_session h (p\<lparr>sessions := hm_remove (canonicalize from) (sessions p)\<rparr>))"

definition on_reset :: "bytes \<Rightarrow> sock_addr \<Rightarrow> 'k kcp_peer \<Rightarrow> unit result \<times> 'k kcp_peer" where
  "on_reset payload from p =
     (case read_conv payload of
        None \<Rightarrow> (Inl (Io (IoError InvalidData ''truncated RESET'')), p)
      | Some conv \<Rightarrow>
          (case hm_get (sessions p) (canonicalize from) of
             None \<Rightarrow> (Inr (), p)
           | Some h \<Rightarrow>
               if conv_id (inner (sess p h)) = conv then (Inr (), reset_remove h from p) else (Inr (), p)))"

definition handle_incoming ::
  "'k kcp_api \<Rightarrow> bytes \<Rightarrow> sock_addr \<Rightarrow> 'k kcp_peer \<Rightarrow> (unit result \<times> 'k kcp_peer) option" where
  "handle_incoming api data from p =
     (case split_packet data of
        None \<Rightarrow> Some (Inl (Io (IoError InvalidData ''empty packet'')), p)
      | Some (typ, payload) \<Rightarrow>
          (case typ of
             KcpData \<Rightarrow> on_kcp_data api payload from p
           | Syn \<Rightarrow> Some (on_syn api payload from p)
           | SynAck \<Rightarrow> Some (on_syn_ack api payload from p)
           | Reset \<Rightarrow> Some (on_reset payload from p)))"

text \<open>
  The receive task: the results of \<^verbatim>\<open>recv_from\<close> in order, until the shutdown token. The
  receive buffer holds 65535 bytes; a socket error or a handler error is logged and skipped.
\<close>

fun receive_task ::
  "'k kcp_api \<Rightarrow> (io_error + (bytes \<times> sock_addr)) list \<Rightarrow> 'k kcp_peer \<Rightarrow> 'k kcp_peer option" where
  "receive_task api [] p = Some p"
| "receive_task api (rx # rxs) p =
     (if shutdown_token p then Some p
      else case rx of
             Inl e \<Rightarrow> receive_task api rxs p
           | Inr (dgram, from) \<Rightarrow>
               (case handle_incoming api (take 65535 dgram) from p of
                  None \<Rightarrow> None
                | Some (r, p') \<Rightarrow> receive_task api rxs p'))"

declare on_syn_def [syn_defs] syn_decide_def [syn_defs] syn_ack_reply_def [syn_defs]

end
