(* ===== verification/Update_Task.thy ===== *)
theory Update_Task
  imports Transport
begin

text \<open>
  The update task of \<^verbatim>\<open>src/src/transport.rs\<close>: one tick drives KCP and the handshake retries of
  every session and collects the sessions to remove, then removes them. The map is visited in the
  order of the table.
\<close>

section \<open>Definitions\<close>

text \<open>One iteration of the scan: whether the session is to be removed, and its new state.\<close>

definition tick_session ::
  "'k kcp_api \<Rightarrow> kcp_config \<Rightarrow> u32 \<Rightarrow> u64 \<Rightarrow> 'k session \<Rightarrow> platform \<Rightarrow> bool \<times> 'k session \<times> platform" where
  "tick_session api cfg now_ms now_epoch s w =
     (if closed s then (False, s, w)
      else case session_update api now_ms s w of
             (r1, s1, w1) \<Rightarrow>
               if r1 = Inl DeadLink then (True, s1, w1)
               else case maybe_retry_syn cfg now_epoch s1 w1 of
                      (r2, s2, w2) \<Rightarrow>
                        if r2 = Inl DeadLink then (True, s2, w2)
                        else
                          let last_rx_ms = last_rx s2
                          in if last_rx_ms > 0
                             then let age = from_millis (saturating_sub now_epoch last_rx_ms)
                                  in (age > session_timeout cfg, s2, w2)
                             else (False, s2, w2))"

fun tick_scan ::
  "'k kcp_api \<Rightarrow> u32 \<Rightarrow> u64 \<Rightarrow> table \<Rightarrow> 'k kcp_peer \<Rightarrow> canonical_addr list \<times> 'k kcp_peer" where
  "tick_scan api now_ms now_epoch [] p = ([], p)"
| "tick_scan api now_ms now_epoch ((can, h) # es) p =
     (case on_session (tick_session api (config p) now_ms now_epoch) h p of
        (remove, p1) \<Rightarrow>
          (case tick_scan api now_ms now_epoch es p1 of
             (to_remove, p2) \<Rightarrow> (if remove then can # to_remove else to_remove, p2)))"

definition prune_one :: "canonical_addr \<Rightarrow> 'k kcp_peer \<Rightarrow> 'k kcp_peer" where
  "prune_one can p =
     (case hm_get (sessions p) can of
        None \<Rightarrow> p
      | Some h \<Rightarrow>
          let p1 = p\<lparr>sessions := hm_remove can (sessions p)\<rparr>;
              s = sess p1 h;
              p2 = send_resets (conv_id (inner s)) (peer_addr s) p1
          in emit (Disconnected (peer_addr s)) (close_session h p2))"

definition update_tick :: "'k kcp_api \<Rightarrow> 'k kcp_peer \<Rightarrow> 'k kcp_peer" where
  "update_tick api p =
     (if sessions p = [] then p
      else case current_ms (plat p) of
             (now_ms, w1) \<Rightarrow>
               (case epoch_ms w1 of
                  (now_epoch, w2) \<Rightarrow>
                    (case tick_scan api now_ms now_epoch (sessions p) (p\<lparr>plat := w2\<rparr>) of
                       (to_remove, p1) \<Rightarrow> fold prune_one to_remove p1)))"

text \<open>The loop of the task over \<open>n\<close> ticks, until the shutdown token.\<close>

fun update_task :: "'k kcp_api \<Rightarrow> nat \<Rightarrow> 'k kcp_peer \<Rightarrow> 'k kcp_peer" where
  "update_task api 0 p = p"
| "update_task api (Suc n) p =
     (if shutdown_token p then p else update_task api n (update_tick api p))"

end
