(* ===== verification/Peer_Inv.thy ===== *)
theory Peer_Inv
  imports Incoming Update_Task
begin

text \<open>
  The invariant of a running peer and its preservation by every operation. The peer is well formed
  when its table has one entry per key, every handle in it is allocated and refers to a session for
  that address whose output goes to that address, and the open sessions are exactly those in the
  table: no session is open without being reachable, none in the table is closed.
\<close>

section \<open>Definitions\<close>

definition session_at :: "canonical_addr \<Rightarrow> 'k session \<Rightarrow> bool" where
  "session_at can s \<longleftrightarrow>
     canonicalize (peer_addr s) = can \<and> out_peer (out_adapter (inner s)) = peer_addr s"

definition wf_peer :: "'k kcp_peer \<Rightarrow> bool" where
  "wf_peer p \<longleftrightarrow> table_ok (sessions p) \<and>
     (\<forall>(can, h) \<in> set (sessions p). h < length (arena p) \<and> session_at can (sess p h)) \<and>
     (\<forall>h < length (arena p). closed (sess p h) \<longleftrightarrow> h \<notin> snd ` set (sessions p))"

text \<open>What an operation on a session keeps of its identity.\<close>

definition same_identity :: "'k session \<Rightarrow> 'k session \<Rightarrow> bool" where
  "same_identity s s' \<longleftrightarrow> peer_addr s' = peer_addr s \<and> closed s' = closed s \<and>
     out_peer (out_adapter (inner s')) = out_peer (out_adapter (inner s))"

section \<open>Rules for the invariant\<close>

lemma wf_table_ok: "wf_peer p \<Longrightarrow> table_ok (sessions p)"
  by (simp add: wf_peer_def)

lemma wf_lookup:
  assumes "wf_peer p" and "hm_get (sessions p) can = Some h"
  shows "h < length (arena p)" "session_at can (sess p h)" "\<not> closed (sess p h)"
proof -
  have "(can, h) \<in> set (sessions p)" using assms by (simp add: hm.entries_get wf_table_ok)
  with assms(1) show "h < length (arena p)" "session_at can (sess p h)" "\<not> closed (sess p h)"
    unfolding wf_peer_def by force+
qed

lemma wf_handle_inj:
  assumes "wf_peer p" and "hm_get (sessions p) can = Some h" and "hm_get (sessions p) can' = Some h"
  shows "can' = can"
  using wf_lookup(2) [OF assms(1,2)] wf_lookup(2) [OF assms(1,3)] by (simp add: session_at_def)

lemma wf_handle_other:
  assumes "wf_peer p" and "hm_get (sessions p) can = Some h" and "hm_get (sessions p) can' = Some h'"
    and "can' \<noteq> can"
  shows "h' \<noteq> h"
  using wf_handle_inj [OF assms(1,2)] assms(3,4) by auto

lemma wf_upd [simp]:
  "wf_peer (p\<lparr>plat := w\<rparr>) = wf_peer p" "wf_peer (p\<lparr>event_log := l\<rparr>) = wf_peer p"
  "wf_peer (p\<lparr>pending_data := ms\<rparr>) = wf_peer p" "wf_peer (p\<lparr>data_notify := b\<rparr>) = wf_peer p"
  "wf_peer (emit ev p) = wf_peer p" "wf_peer (send_resets c d p) = wf_peer p"
  by (simp_all add: wf_peer_def)

lemma wf_unmapped:
  assumes "wf_peer p" and "h < length (arena p)" and "\<And>can. hm_get (sessions p) can \<noteq> Some h"
  shows "closed (sess p h)"
proof -
  have "h \<notin> snd ` set (sessions p)"
    using assms(3) wf_table_ok [OF assms(1)] by (auto simp: hm.entries_get)
  with assms show ?thesis by (simp add: wf_peer_def)
qed

lemma wf_peerI:
  assumes ok: "table_ok (sessions p)"
    and "\<And>can h. hm_get (sessions p) can = Some h \<Longrightarrow>
      h < length (arena p) \<and> session_at can (sess p h) \<and> \<not> closed (sess p h)"
    and "\<And>h. h < length (arena p) \<Longrightarrow> \<forall>can. hm_get (sessions p) can \<noteq> Some h \<Longrightarrow> closed (sess p h)"
  shows "wf_peer p"
proof -
  have "h \<in> snd ` set (sessions p) \<longleftrightarrow> (\<exists>can. hm_get (sessions p) can = Some h)" for h
    using hm.entries_get [OF ok] by (force simp: image_iff)
  with assms show ?thesis by (auto simp: wf_peer_def hm.entries_get)
qed

lemma wf_set_sess:
  assumes "wf_peer p" and "hm_get (sessions p) can = Some h" and "same_identity (sess p h) s"
  shows "wf_peer (set_sess h s p)"
proof (rule wf_peerI)
  show "table_ok (sessions (set_sess h s p))" using assms(1) by (simp add: wf_table_ok)
next
  fix can' h' assume "hm_get (sessions (set_sess h s p)) can' = Some h'"
  then have get: "hm_get (sessions p) can' = Some h'" by simp
  have "can' = can" if "h' = h" using wf_handle_inj [OF assms(1,2)] get that by simp
  with get show "h' < length (arena (set_sess h s p)) \<and> session_at can' (sess (set_sess h s p) h') \<and>
      \<not> closed (sess (set_sess h s p) h')"
    using wf_lookup [OF assms(1,2)] wf_lookup [OF assms(1) get] assms(3)
    by (auto simp: sess_set_sess same_identity_def session_at_def)
next
  fix h' assume "h' < length (arena (set_sess h s p))"
    "\<forall>can. hm_get (sessions (set_sess h s p)) can \<noteq> Some h'"
  then show "closed (sess (set_sess h s p) h')"
    using assms wf_lookup(1) [OF assms(1,2)] by (auto simp: sess_set_sess intro: wf_unmapped)
qed

lemma wf_remove:
  assumes "wf_peer p" and "hm_get (sessions p) can = Some h"
  shows "wf_peer (close_session h (p\<lparr>sessions := hm_remove can (sessions p)\<rparr>))" (is "wf_peer ?p")
proof (rule wf_peerI)
  show "table_ok (sessions ?p)" using assms(1) by (simp add: wf_table_ok hm.ok_rem)
next
  fix can' h' assume "hm_get (sessions ?p) can' = Some h'"
  then have "hm_get (sessions p) can' = Some h'" "can' \<noteq> can" by (auto simp: hm.get_rem split: if_splits)
  then show "h' < length (arena ?p) \<and> session_at can' (sess ?p h') \<and> \<not> closed (sess ?p h')"
    using wf_lookup [OF assms(1)] wf_handle_other [OF assms] wf_lookup(1) [OF assms]
    by (auto simp: sess_close_session)
next
  fix h' assume "h' < length (arena ?p)" and none: "\<forall>c. hm_get (sessions ?p) c \<noteq> Some h'"
  moreover have "closed (sess p h')" if "h' \<noteq> h"
  proof (rule wf_unmapped [OF assms(1)])
    fix c show "hm_get (sessions p) c \<noteq> Some h'"
      using spec [OF none, of c] that assms(2) by (cases "c = can") (simp_all add: hm.get_rem)
  qed (use \<open>h' < length (arena ?p)\<close> in simp)
  ultimately show "closed (sess ?p h')"
    using wf_lookup(1) [OF assms] by (simp add: sess_close_session)
qed

text \<open>
  A new session takes the place of whatever the table held for its address, provided that one is
  closed first.
\<close>

lemma wf_insert:
  assumes wf: "wf_peer p" and s: "session_at can s" "\<not> closed s"
    and q: "q = (case hm_get (sessions p) can of None \<Rightarrow> p | Some h \<Rightarrow> close_session h p)"
  shows "wf_peer (q\<lparr>arena := arena q @ [s], sessions := hm_insert can (length (arena q)) (sessions q)\<rparr>)"
    (is "wf_peer ?p")
proof -
  have q_sel: "sessions q = sessions p" "length (arena q) = length (arena p)"
    unfolding q by (simp_all split: option.splits)
  have old: "sess q h = sess p h" if "hm_get (sessions p) can \<noteq> Some h" for h
    using that wf_lookup(1) [OF wf] unfolding q by (auto simp: sess_close_session split: option.splits)
  have old_closed: "closed (sess q h)" if "hm_get (sessions p) can = Some h" for h
    using that wf_lookup(1) [OF wf that] unfolding q by (simp add: sess_close_session)
  have new: "sess (q\<lparr>arena := arena q @ [s]\<rparr>) h = (if h = length (arena p) then s else sess q h)"
    if "h \<le> length (arena p)" for h
    using that q_sel by (auto simp: sess_def nth_append)
  show ?thesis
  proof (rule wf_peerI)
    show "table_ok (sessions ?p)" using wf by (simp add: q_sel wf_table_ok hm.ok_ins)
  next
    fix c h assume "hm_get (sessions ?p) c = Some h"
    then consider "c = can" "h = length (arena p)" | "c \<noteq> can" "hm_get (sessions p) c = Some h"
      by (auto simp: q_sel hm.get_ins split: if_splits)
    then show "h < length (arena ?p) \<and> session_at c (sess ?p h) \<and> \<not> closed (sess ?p h)"
    proof cases
      case 1
      with s show ?thesis by (simp add: new q_sel)
    next
      case 2
      then have "hm_get (sessions p) can \<noteq> Some h" using wf_handle_inj [OF wf] by blast
      with 2 wf_lookup [OF wf 2(2)] show ?thesis by (simp add: new old q_sel)
    qed
  next
    fix h assume h: "h < length (arena ?p)" and none: "\<forall>c. hm_get (sessions ?p) c \<noteq> Some h"
    from spec [OF none, of can] have "h \<noteq> length (arena p)" by (auto simp: q_sel)
    with h have h: "h < length (arena p)" by (simp add: q_sel)
    show "closed (sess ?p h)"
    proof (cases "hm_get (sessions p) can = Some h")
      case True
      with h show ?thesis by (simp add: new old_closed)
    next
      case False
      have "closed (sess p h)"
      proof (rule wf_unmapped [OF wf h])
        fix c show "hm_get (sessions p) c \<noteq> Some h"
          using spec [OF none, of c] False by (cases "c = can") (simp_all add: hm.get_ins q_sel)
      qed
      with h False show ?thesis by (simp add: new old)
    qed
  qed
qed

end
