(* ===== verification/Lifecycle.thy ===== *)
theory Lifecycle
  imports Peer_Inv
begin

text \<open>
  The life cycle of a link, as an abstract machine, and the refinement of the receive path, of
  \<^verbatim>\<open>send\<close> and of \<^verbatim>\<open>disconnect\<close> to it. A link is what a peer knows of one remote
  address: nothing, a handshake under way, or an established conversation. The machine says for every
  packet what the link becomes, which events the application sees and which control packets go back.
  The relation \<open>moves\<close> carries the refinement: the peer's view of one address changes to a given
  link with given events and control packets, the invariant holds again, and the sessions of all other
  addresses are untouched.
\<close>

section \<open>The abstract link\<close>

datatype link = NoLink | Opening u32 | Up u32

fun link_conv :: "link \<Rightarrow> u32 option" where
  "link_conv NoLink = None"
| "link_conv (Opening c) = Some c"
| "link_conv (Up c) = Some c"

text \<open>
  The reaction to a SYN with conversation id \<open>c\<close>: \<open>yield\<close> says whether the address comparison
  makes this side adopt the other's id when both have a handshake under way.
\<close>

fun link_syn :: "bool \<Rightarrow> sock_addr \<Rightarrow> u32 \<Rightarrow> link \<Rightarrow> link \<times> event list \<times> (packet_type \<times> u32) list" where
  "link_syn yield from c NoLink = (Up c, [Connected from], [(SynAck, c)])"
| "link_syn yield from c (Opening own) =
     (if own = c then (Opening own, [], [])
      else let agreed = (if yield then c else own) in (Up agreed, [Connected from], [(SynAck, agreed)]))"
| "link_syn yield from c (Up old) =
     (if old = c then (Up old, [], [(SynAck, c)])
      else (Up c, [PeerRestarted from, Connected from], [(SynAck, c)]))"

fun link_syn_ack :: "sock_addr \<Rightarrow> u32 \<Rightarrow> link \<Rightarrow> link \<times> event list \<times> (packet_type \<times> u32) list" where
  "link_syn_ack from c (Opening own) = (if own = c then (Up own, [Connected from], []) else (Opening own, [], []))"
| "link_syn_ack from c l = (l, [], [])"

definition link_reset :: "sock_addr \<Rightarrow> u32 \<Rightarrow> link \<Rightarrow> link \<times> event list \<times> (packet_type \<times> u32) list" where
  "link_reset from c l = (if link_conv l = Some c then (NoLink, [Disconnected from], []) else (l, [], []))"

definition link_data :: "u32 \<Rightarrow> link \<Rightarrow> link \<times> event list \<times> (packet_type \<times> u32) list" where
  "link_data c l = (l, [], if l = NoLink then replicate 3 (Reset, c) else [])"

fun link_on ::
  "bool \<Rightarrow> sock_addr \<Rightarrow> packet_type \<Rightarrow> u32 \<Rightarrow> link \<Rightarrow> link \<times> event list \<times> (packet_type \<times> u32) list" where
  "link_on yield from Syn c l = link_syn yield from c l"
| "link_on yield from SynAck c l = link_syn_ack from c l"
| "link_on yield from Reset c l = link_reset from c l"
| "link_on yield from KcpData c l = link_data c l"

text \<open>A whole packet: one that carries no known type or no conversation id changes nothing.\<close>

definition link_packet ::
  "bool \<Rightarrow> sock_addr \<Rightarrow> bytes \<Rightarrow> link \<Rightarrow> link \<times> event list \<times> (packet_type \<times> u32) list" where
  "link_packet yield from data l =
     (case decode_control data of
        None \<Rightarrow> (l, [], [])
      | Some (typ, c) \<Rightarrow> link_on yield from typ c l)"

section \<open>The view of a peer\<close>

definition link_of :: "'k session \<Rightarrow> link" where
  "link_of s = (case state (inner s) of SynSent \<Rightarrow> Opening | Established \<Rightarrow> Up) (conv_id (inner s))"

definition view :: "'k kcp_peer \<Rightarrow> canonical_addr \<Rightarrow> link" where
  "view p can = (case hm_get (sessions p) can of None \<Rightarrow> NoLink | Some h \<Rightarrow> link_of (sess p h))"

text \<open>The control packets a peer has offered to the socket: everything but KCP's own frames.\<close>

definition control_sent :: "platform \<Rightarrow> (sock_addr \<times> bytes) list" where
  "control_sent w =
     filter (\<lambda>(_, b). case split_packet b of Some (KcpData, _) \<Rightarrow> False | _ \<Rightarrow> True) (offered w)"

definition reply_to :: "sock_addr \<Rightarrow> (packet_type \<times> u32) list \<Rightarrow> (sock_addr \<times> bytes) list" where
  "reply_to from = map (\<lambda>(t, c). (from, encode_control t c))"

text \<open>What no step changes; and sessions are only ever added to the arena.\<close>

definition same_env :: "'k kcp_peer \<Rightarrow> 'k kcp_peer \<Rightarrow> bool" where
  "same_env p p' \<longleftrightarrow> same_oracles (plat p) (plat p') \<and> config p' = config p \<and>
     local_addr p' = local_addr p \<and> own_incarnation p' = own_incarnation p \<and>
     shutdown_token p' = shutdown_token p \<and> length (arena p) \<le> length (arena p')"

definition others_same :: "canonical_addr \<Rightarrow> 'k kcp_peer \<Rightarrow> 'k kcp_peer \<Rightarrow> bool" where
  "others_same can p p' \<longleftrightarrow>
     (\<forall>c. c \<noteq> can \<longrightarrow> hm_get (sessions p') c = hm_get (sessions p) c \<and>
        (\<forall>h. hm_get (sessions p) c = Some h \<longrightarrow> sess p' h = sess p h))"

definition moves ::
  "'k kcp_peer \<Rightarrow> canonical_addr \<Rightarrow> link \<Rightarrow> event list \<Rightarrow> (sock_addr \<times> bytes) list \<Rightarrow> 'k kcp_peer \<Rightarrow> bool" where
  "moves p can l evs ctl p' \<longleftrightarrow>
     wf_peer p' \<and> view p' can = l \<and> others_same can p p' \<and> same_env p p' \<and>
     event_log p' = event_log p @ evs \<and> control_sent (plat p') = control_sent (plat p) @ ctl"

section \<open>Rules for moves\<close>

lemma reply_to_simps [simp]:
  "reply_to from [] = []" "reply_to from ((t, c) # xs) = (from, encode_control t c) # reply_to from xs"
  by (simp_all add: reply_to_def)

lemma control_sent_eq: "offered w' = offered w \<Longrightarrow> control_sent w' = control_sent w"
  by (simp add: control_sent_def)

lemma control_sent_control:
  assumes "offered w' = offered w @ map (\<lambda>_. (dest, encode_control t c)) xs" and "t \<noteq> KcpData"
  shows "control_sent w' = control_sent w @ map (\<lambda>_. (dest, encode_control t c)) xs"
proof -
  have "(case Some (t, to_le_bytes c) of Some (KcpData, _) \<Rightarrow> False | _ \<Rightarrow> True)"
    using assms(2) by (cases t) auto
  then show ?thesis by (simp add: control_sent_def assms(1) filter_empty_conv comp_def del: option.case)
qed

lemma control_sent_data_only:
  assumes "data_only peer w w'"
  shows "control_sent w' = control_sent w"
  using assms by (auto simp: data_only_def control_sent_def filter_empty_conv)

lemma same_env_refl [simp, intro]: "same_env p p"
  by (simp add: same_env_def)

lemma same_env_trans [frame_trans]: "same_env p p' \<Longrightarrow> same_env p' p'' \<Longrightarrow> same_env p p''"
  by (auto simp: same_env_def intro: frame_trans)

lemma others_same_refl [simp, intro]: "others_same can p p"
  by (simp add: others_same_def)

lemma others_same_trans [frame_trans]: "others_same can p p' \<Longrightarrow> others_same can p' p'' \<Longrightarrow> others_same can p p''"
  by (simp add: others_same_def)

lemma others_same_view: "others_same can p p' \<Longrightarrow> c \<noteq> can \<Longrightarrow> view p' c = view p c"
  by (auto simp: others_same_def view_def split: option.split)

lemma moves_view: "moves p can l evs ctl p' \<Longrightarrow> view p' = (view p)(can := l)"
  by (auto simp: moves_def fun_eq_iff dest: others_same_view)

lemma moves_wf: "moves p can l evs ctl p' \<Longrightarrow> wf_peer p'"
  by (simp add: moves_def)

lemma moves_refl: "wf_peer p \<Longrightarrow> moves p can (view p can) [] [] p"
  by (simp add: moves_def)

lemma moves_trans:
  "moves p can l evs ctl p' \<Longrightarrow> moves p' can l' evs' ctl' p'' \<Longrightarrow>
     moves p can l' (evs @ evs') (ctl @ ctl') p''"
  by (auto simp: moves_def intro: frame_trans)

lemma view_upd [simp]:
  "view (p\<lparr>plat := w\<rparr>) = view p" "view (p\<lparr>event_log := l\<rparr>) = view p"
  "view (p\<lparr>pending_data := ms\<rparr>) = view p" "view (p\<lparr>data_notify := b\<rparr>) = view p"
  "view (emit ev p) = view p" "view (send_resets c d p) = view p"
  by (auto simp: view_def fun_eq_iff split: option.split)

lemma others_same_upd [simp]:
  "others_same can p (p'\<lparr>plat := w\<rparr>) = others_same can p p'"
  "others_same can p (p'\<lparr>pending_data := ms\<rparr>) = others_same can p p'"
  "others_same can p (p'\<lparr>data_notify := b\<rparr>) = others_same can p p'"
  "others_same can p (emit ev p') = others_same can p p'"
  "others_same can p (send_resets c d p') = others_same can p p'"
  "others_same can (p\<lparr>plat := w\<rparr>) p' = others_same can p p'"
  by (simp_all add: others_same_def)

lemma moves_emit:
  "moves p can l evs ctl p' \<Longrightarrow> moves p can l (evs @ [ev]) ctl (emit ev p')"
  by (simp add: moves_def same_env_def)

lemma moves_pending [simp]:
  "moves p can l evs ctl (p'\<lparr>pending_data := ms\<rparr>) = moves p can l evs ctl p'"
  "moves p can l evs ctl (p'\<lparr>data_notify := b\<rparr>) = moves p can l evs ctl p'"
  by (simp_all add: moves_def same_env_def)

lemma moves_quiet:
  assumes "moves p can l evs ctl p'" and "same_oracles (plat p') w"
    and "control_sent w = control_sent (plat p') @ ctl'"
  shows "moves p can l evs (ctl @ ctl') (p'\<lparr>plat := w\<rparr>)"
  using assms by (auto simp: moves_def same_env_def intro: frame_trans)

lemma moves_send_resets:
  assumes "moves p can l evs ctl p'"
  shows "moves p can l evs (ctl @ replicate 3 (dest, encode_control Reset c)) (send_resets c dest p')"
proof -
  have "control_sent (send_copies 3 (encode_control Reset c) dest (plat p')) =
      control_sent (plat p') @ replicate 3 (dest, encode_control Reset c)"
    using control_sent_control [of _ "plat p'" dest Reset c "replicate 3 ()"] by (simp add: map_replicate_const)
  from moves_quiet [OF assms _ this] show ?thesis by (simp add: send_resets_def)
qed

lemma moves_send_control:
  assumes "moves p can l evs ctl p'" and "t \<noteq> KcpData"
  shows "moves p can l evs (ctl @ [(dest, encode_control t c)])
    (p'\<lparr>plat := snd (send_to (encode_control t c) dest (plat p'))\<rparr>)"
  by (rule moves_quiet [OF assms(1)])
    (use control_sent_control [OF _ assms(2), of _ "plat p'" dest c "[()]"] in simp_all)

text \<open>A session of the table runs an operation that keeps its identity.\<close>

lemma moves_set_sess:
  assumes "wf_peer p" and "hm_get (sessions p) can = Some h" and "same_identity (sess p h) s"
    and "same_oracles (plat p) w" and "control_sent w = control_sent (plat p) @ ctl"
  shows "moves p can (link_of s) [] ctl (set_sess h s (p\<lparr>plat := w\<rparr>))"
proof -
  have "wf_peer (set_sess h s (p\<lparr>plat := w\<rparr>))"
    using wf_set_sess [of "p\<lparr>plat := w\<rparr>" can h s] assms(1-3) by simp
  moreover have "view (set_sess h s (p\<lparr>plat := w\<rparr>)) can = link_of s"
    using wf_lookup(1) [OF assms(1,2)] assms(2) by (simp add: view_def sess_set_sess)
  moreover have "others_same can p (set_sess h s (p\<lparr>plat := w\<rparr>))"
    using wf_lookup(1) [OF assms(1,2)] wf_handle_other [OF assms(1,2)]
    by (auto simp: others_same_def sess_set_sess)
  ultimately show ?thesis using assms(4,5) by (simp add: moves_def same_env_def)
qed

lemma moves_remove:
  assumes "wf_peer p" and "hm_get (sessions p) can = Some h"
  shows "moves p can NoLink [] [] (close_session h (p\<lparr>sessions := hm_remove can (sessions p)\<rparr>))"
    (is "moves p can NoLink [] [] ?p")
proof -
  have "others_same can p ?p"
    using wf_lookup(1) [OF assms] wf_handle_other [OF assms]
    by (auto simp: others_same_def hm.get_rem sess_close_session)
  moreover have "view ?p can = NoLink" by (simp add: view_def)
  ultimately show ?thesis using wf_remove [OF assms] by (simp add: moves_def same_env_def)
qed

lemma moves_insert:
  assumes "wf_peer p" and "session_at can s" "\<not> closed s"
    and q: "q = (case hm_get (sessions p) can of None \<Rightarrow> p | Some h \<Rightarrow> close_session h p)"
  shows "moves p can (link_of s) [] []
    (q\<lparr>arena := arena q @ [s], sessions := hm_insert can (length (arena q)) (sessions q)\<rparr>)"
    (is "moves p can _ [] [] ?p")
proof -
  have q_sel: "sessions q = sessions p" "length (arena q) = length (arena p)" "same_env p q"
     "plat q = plat p" "event_log q = event_log p"
    unfolding q by (simp_all add: same_env_def split: option.splits)
  have new: "sess (q\<lparr>arena := arena q @ [s]\<rparr>) h = (if h = length (arena p) then s else sess q h)"
    if "h \<le> length (arena p)" for h
    using that q_sel by (auto simp: sess_def nth_append)
  have "view ?p can = link_of s" by (simp add: view_def new q_sel)
  moreover have "others_same can p ?p"
    unfolding others_same_def
  proof (intro allI impI conjI)
    fix c h assume c: "c \<noteq> can" and get: "hm_get (sessions p) c = Some h"
    then have "hm_get (sessions p) can \<noteq> Some h" using wf_handle_inj [OF assms(1)] by blast
    then have "sess q h = sess p h"
      using wf_lookup(1) [OF assms(1)] unfolding q by (auto simp: sess_close_session split: option.splits)
    with wf_lookup(1) [OF assms(1) get] show "sess ?p h = sess p h" by (simp add: new)
  qed (simp add: q_sel hm.get_ins)
  moreover have "same_env p ?p" using q_sel(3) by (simp add: same_env_def)
  ultimately show ?thesis
    using wf_insert [OF assms] q_sel by (simp add: moves_def)
qed

section \<open>The handlers\<close>

lemma flush_queued_frame:
  assumes "flush_queued api s w = (s', w')"
  shows "kcp_frame s s'" "data_only (out_peer (out_adapter (inner s))) w w'"
proof -
  obtain now w1 where cm: "current_ms w = (now, w1)" by fastforce
  obtain r2 s2 w2 where up: "run_kcp (api_update api now (kcp (inner s))) s w1 = (r2, s2, w2)"
    by (metis prod_cases3)
  obtain r3 where fl: "run_kcp (api_flush api (kcp (inner s2))) s2 w2 = (r3, s', w')"
    using assms cm up by (auto simp: flush_queued_def split: prod.splits)
  from run_kcp_frame [OF up] run_kcp_frame [OF fl] data_only_current_ms [OF cm]
  show "kcp_frame s s'" "data_only (out_peer (out_adapter (inner s))) w w'"
    by (auto simp: kcp_frame_fields) (blast intro: frame_trans)+
qed

lemma establish_frame:
  assumes "establish api s w = (s', w')"
  shows "same_identity s s'" "link_of s' = Up (conv_id (inner s))" "last_rx s' = fst (epoch_ms w)"
    "same_oracles w w'" "control_sent w' = control_sent w"
proof -
  obtain now w1 where ep: "epoch_ms w = (now, w1)" by fastforce
  let ?s = "(set_inner_state Established s)\<lparr>last_rx := now\<rparr>"
  have fq: "flush_queued api ?s w1 = (s', w')" using assms ep by (simp add: establish_def)
  note fr = flush_queued_frame [OF fq]
  show "same_identity s s'" "link_of s' = Up (conv_id (inner s))" "last_rx s' = fst (epoch_ms w)"
    using kcp_frame_fields [OF fr(1)] ep by (simp_all add: same_identity_def link_of_def)
  show "control_sent w' = control_sent w"
    using control_sent_data_only [OF fr(2)] control_sent_eq [OF epoch_ms_facts(1) [OF ep]] by simp
  show "same_oracles w w'"
    using fr(2) epoch_ms_facts(2) [OF ep] by (auto simp: data_only_def intro: frame_trans)
qed

lemma moves_establish:
  assumes "wf_peer p" and "hm_get (sessions p) can = Some h" and "same_identity (sess p h) s"
    and "establish api s (plat p) = (s', w)"
  shows "moves p can (Up (conv_id (inner s))) [ev] [] (emit ev (set_sess h s' (p\<lparr>plat := w\<rparr>)))"
proof -
  note fr = establish_frame [OF assms(4)]
  have "same_identity (sess p h) s'" using assms(3) fr(1) by (simp add: same_identity_def)
  from moves_set_sess [OF assms(1,2) this fr(4)] fr(2,5) moves_emit show ?thesis by fastforce
qed

lemma view_Some: "hm_get (sessions p) can = Some h \<Longrightarrow> view p can = link_of (sess p h)"
  by (simp add: view_def)

lemma view_None: "hm_get (sessions p) can = None \<Longrightarrow> view p can = NoLink"
  by (simp add: view_def)

lemma link_of_cases:
  "link_of s = NoLink \<longleftrightarrow> False"
  "link_of s = Opening c \<longleftrightarrow> state (inner s) = SynSent \<and> conv_id (inner s) = c"
  "link_of s = Up c \<longleftrightarrow> state (inner s) = Established \<and> conv_id (inner s) = c"
  by (auto simp: link_of_def split: session_state.splits)

lemma link_conv_link_of [simp]: "link_conv (link_of s) = Some (conv_id (inner s))"
  by (simp add: link_of_def split: session_state.splits)

lemma session_input_frame: "session_input api data s = (r, s') \<Longrightarrow> kcp_frame s s'"
  by (auto simp: session_input_def split: prod.splits sum.splits)

lemma try_recv_all_frame: "try_recv_all api out s = Some (r, msgs, s') \<Longrightarrow> kcp_frame s s'"
  by (auto simp: try_recv_all_def)

lemma same_identity_frame: "kcp_frame s s' \<Longrightarrow> same_identity s s'"
  by (simp add: same_identity_def kcp_frame_fields)

lemma same_identity_trans:
  "same_identity s s' \<Longrightarrow> same_identity s' s'' \<Longrightarrow> same_identity s s''"
  by (simp add: same_identity_def)

lemma link_of_frame: "kcp_frame s s' \<Longrightarrow> link_of s' = link_of s"
  by (simp add: link_of_def kcp_frame_fields)

lemma set_sess_twice: "set_sess h s (set_sess h s' p) = set_sess h s p"
  by (simp add: set_sess_def)

lemma pending_id [simp]: "\<exists>ms b. q = q\<lparr>pending_data := ms, data_notify := b\<rparr>"
  by (rule exI [of _ "pending_data q"], rule exI [of _ "data_notify q"]) simp

lemma moves_kcp_data:
  assumes wf: "wf_peer p" and run: "on_kcp_data api payload from p = Some (r, p')"
    and c: "read_conv payload = c"
    and a: "(l, evs, ctl) = (case c of None \<Rightarrow> (view p (canonicalize from), [], [])
                             | Some conv \<Rightarrow> link_data conv (view p (canonicalize from)))"
  shows "moves p (canonicalize from) l evs (reply_to from ctl) p'"
proof (cases "hm_get (sessions p) (canonicalize from)")
  case None
  then show ?thesis
    using run c a moves_refl [OF wf, of "canonicalize from"]
      moves_send_resets [OF moves_refl [OF wf, of "canonicalize from"]]
    by (auto simp: on_kcp_data_def link_data_def view_None split: option.splits)
next
  case (Some h)
  obtain now w1 where ep: "epoch_ms (plat p) = (now, w1)" by fastforce
  let ?s1 = "(sess p h)\<lparr>last_rx := now\<rparr>"
  obtain ri s2 where inp: "session_input api payload ?s1 = (ri, s2)" by fastforce
  have "\<exists>s'. kcp_frame ?s1 s' \<and> (\<exists>ms b. p' = (set_sess h s' (p\<lparr>plat := w1\<rparr>))\<lparr>pending_data := ms, data_notify := b\<rparr>)"
  proof (cases "\<exists>e. ri = Inl e")
    case True
    then show ?thesis
      using run Some ep inp session_input_frame [OF inp]
      by (auto simp: on_kcp_data_def set_sess_twice intro!: exI [of _ s2])
  next
    case False
    then obtain r2 msgs s3 where ta: "try_recv_all api [] s2 = Some (r2, msgs, s3)"
      using run Some ep inp by (auto simp: on_kcp_data_def Let_def split: option.splits sum.splits)
    then show ?thesis
      using False run Some ep inp kcp_frame_trans [OF session_input_frame [OF inp] try_recv_all_frame [OF ta]]
      by (auto simp: on_kcp_data_def Let_def set_sess_twice split: sum.splits if_splits intro!: exI [of _ s3])
  qed
  then obtain s' ms b where s': "kcp_frame ?s1 s'"
    and p': "p' = (set_sess h s' (p\<lparr>plat := w1\<rparr>))\<lparr>pending_data := ms, data_notify := b\<rparr>" by blast
  have "same_identity (sess p h) s'" "link_of s' = link_of (sess p h)"
    using kcp_frame_fields [OF s'] by (simp_all add: same_identity_def link_of_def)
  then have "moves p (canonicalize from) (link_of (sess p h)) [] [] p'"
    unfolding p' using moves_set_sess [OF wf Some, of s' w1 "[]"] epoch_ms_facts(2) [OF ep]
      control_sent_eq [OF epoch_ms_facts(1) [OF ep]] by simp
  with a show ?thesis
    by (auto simp: view_Some [OF Some] link_data_def link_of_cases split: option.splits)
qed

text \<open>The SYN branch, by what the table holds for the sender.\<close>

lemma session_at_new_inbound:
  assumes "new_inbound api conv from inc cfg w = (s, w')"
  shows "session_at (canonicalize from) s" "\<not> closed s" "link_of s = Up conv"
    "same_oracles w w'" "control_sent w' = control_sent w @ [(from, encode_control SynAck conv)]"
proof -
  let ?w1 = "snd (send_to (encode_control SynAck conv) from w)"
  obtain now where ep: "epoch_ms ?w1 = (now, w')"
    using assms by (auto simp: new_inbound_def Let_def split: prod.splits)
  with assms show "session_at (canonicalize from) s" "\<not> closed s" "link_of s = Up conv"
    by (auto simp: new_inbound_def session_at_def link_of_def Let_def)
  show "same_oracles w w'"
    using epoch_ms_facts(2) [OF ep] same_oracles_try_send_to same_oracles_trans by blast
  show "control_sent w' = control_sent w @ [(from, encode_control SynAck conv)]"
    using control_sent_eq [OF epoch_ms_facts(1) [OF ep]]
      control_sent_control [of ?w1 w "from" SynAck conv "[()]"] by simp
qed

lemma moves_syn_create:
  assumes wf: "wf_peer p"
    and q: "q = (case hm_get (sessions p) (canonicalize from) of None \<Rightarrow> p | Some h \<Rightarrow> close_session h p)"
  shows "moves p (canonicalize from) (Up conv) [Connected from] (reply_to from [(SynAck, conv)])
    (syn_create api conv from q)"
proof -
  obtain s w where ni: "new_inbound api conv from (own_incarnation q) (config q) (plat q) = (s, w)" by fastforce
  note new = session_at_new_inbound [OF ni]
  have plat_q: "plat q = plat p" unfolding q by (simp split: option.splits)
  let ?p = "q\<lparr>arena := arena q @ [s], sessions := hm_insert (canonicalize from) (length (arena q)) (sessions q)\<rparr>"
  have "moves p (canonicalize from) (Up conv) [] (reply_to from [(SynAck, conv)]) (?p\<lparr>plat := w\<rparr>)"
    using moves_quiet [OF moves_insert [OF wf new(1,2) q], of w "[(from, encode_control SynAck conv)]"] new(3-5)
    by simp
  moreover have "syn_create api conv from q = emit (Connected from) (?p\<lparr>plat := w\<rparr>)"
    using ni by (simp add: syn_create_def insert_inbound_def alloc_def emit_def)
  ultimately show ?thesis using moves_emit [of _ _ _ "[]"] by fastforce
qed

lemma moves_events:
  "moves p can l evs ctl p' \<Longrightarrow> moves p can l evs' ctl (p'\<lparr>event_log := event_log p @ evs'\<rparr>)"
  by (simp add: moves_def same_env_def others_same_def)

lemma syn_create_emit:
  "syn_create api conv from (emit ev q) =
     (syn_create api conv from q)\<lparr>event_log := event_log q @ [ev, Connected from]\<rparr>"
  by (simp add: syn_create_def insert_inbound_def alloc_def emit_def split: prod.splits)

lemma moves_syn:
  assumes wf: "wf_peer p" and my: "sock_local_addr (plat p) = Inr my_addr"
    and c: "read_conv payload = Some conv"
    and a: "link_syn (my_addr < from) from conv (view p (canonicalize from)) = (l, evs, ctl)"
    and run: "on_syn api payload from p = (r, p')"
  shows "r = Inr () \<and> moves p (canonicalize from) l evs (reply_to from ctl) p'"
proof (cases "hm_get (sessions p) (canonicalize from)")
  case None
  with run c my have "p' = syn_create api conv from p" "r = Inr ()"
    by (auto simp: syn_defs Let_def)
  with moves_syn_create [OF wf, of p "from" conv api] None a show ?thesis by (auto simp: view_None)
next
  case (Some h)
  let ?s = "sess p h" and ?can = "canonicalize from"
  have same: "same_identity ?s ?s" by (simp add: same_identity_def)
  show ?thesis
  proof (cases "state (inner ?s)")
    case SynSent
    let ?s1 = "if my_addr < from then ?s\<lparr>inner := (inner ?s)\<lparr>kcp := api_set_conv api conv (kcp (inner ?s)), conv_id := conv\<rparr>\<rparr> else ?s"
    obtain s2 w where es: "establish api ?s1 (plat p) = (s2, w)" by fastforce
    let ?q = "emit (Connected from) (set_sess h s2 (p\<lparr>plat := w\<rparr>))"
    have id: "same_identity ?s ?s1" by (simp add: same_identity_def)
    let ?agreed = "if my_addr < from then conv else conv_id (inner ?s)"
    have "moves p ?can (Up ?agreed) [Connected from] (reply_to from [(SynAck, ?agreed)])
      (?q\<lparr>plat := snd (send_to (encode_control SynAck ?agreed) from (plat ?q))\<rparr>)"
      using moves_send_control [OF moves_establish [OF wf Some id es, of "Connected from"], of SynAck "from" ?agreed]
      by (auto split: if_splits)
    moreover have "view p ?can = Opening (conv_id (inner ?s))"
      using SynSent by (simp add: view_Some [OF Some] link_of_cases)
    ultimately show ?thesis
      using run c my a Some SynSent es moves_refl [OF wf, of ?can]
      by (auto simp: syn_defs Let_def split: if_splits)
  next
    case Established
    have v: "view p ?can = Up (conv_id (inner ?s))"
      using Established by (simp add: view_Some [OF Some] link_of_cases)
    obtain now w where ep: "epoch_ms (plat p) = (now, w)" by fastforce
    let ?q = "set_sess h (?s\<lparr>last_rx := now\<rparr>) (p\<lparr>plat := w\<rparr>)"
    have "moves p ?can (Up (conv_id (inner ?s))) [] (reply_to from [(SynAck, conv)])
        (?q\<lparr>plat := snd (send_to (encode_control SynAck conv) from (plat ?q))\<rparr>)"
      using moves_send_control [OF moves_set_sess [OF wf Some, of "?s\<lparr>last_rx := now\<rparr>" w "[]"], of SynAck "from" conv]
        epoch_ms_facts(2) [OF ep] control_sent_eq [OF epoch_ms_facts(1) [OF ep]] Established
      by (simp add: same_identity_def link_of_def)
    moreover have "moves p ?can (Up conv) [PeerRestarted from, Connected from] (reply_to from [(SynAck, conv)])
        (syn_create api conv from (emit (PeerRestarted from) (close_session h p)))"
      using moves_events [OF moves_syn_create [OF wf, of "close_session h p" "from" conv api]] Some
      by (simp add: syn_create_emit)
    ultimately show ?thesis
      using run c my a Some Established v ep
      by (auto simp: syn_defs Let_def split: if_splits)
  qed
qed

lemma moves_syn_ack:
  assumes wf: "wf_peer p" and c: "read_conv payload = Some conv"
    and a: "link_syn_ack from conv (view p (canonicalize from)) = (l, evs, ctl)"
    and run: "on_syn_ack api payload from p = (r, p')"
  shows "r = Inr () \<and> moves p (canonicalize from) l evs (reply_to from ctl) p'"
proof (cases "hm_get (sessions p) (canonicalize from)")
  case None
  with run c a moves_refl [OF wf, of "canonicalize from"] show ?thesis
    by (auto simp: on_syn_ack_def view_None)
next
  case (Some h)
  let ?s = "sess p h"
  obtain s2 w where es: "establish api ?s (plat p) = (s2, w)" by fastforce
  have "same_identity ?s ?s" by (simp add: same_identity_def)
  note est = moves_establish [OF wf Some this es, of "Connected from"]
  show ?thesis
  proof (cases "state (inner ?s)")
    case SynSent
    then have "view p (canonicalize from) = Opening (conv_id (inner ?s))"
      by (simp add: view_Some [OF Some] link_of_cases)
    with run c a Some SynSent es est moves_refl [OF wf, of "canonicalize from"] show ?thesis
      by (auto simp: on_syn_ack_def Let_def split: if_splits)
  next
    case Established
    then have "view p (canonicalize from) = Up (conv_id (inner ?s))"
      by (simp add: view_Some [OF Some] link_of_cases)
    with run c a Some Established moves_refl [OF wf, of "canonicalize from"] show ?thesis
      by (auto simp: on_syn_ack_def Let_def)
  qed
qed

lemma moves_reset:
  assumes wf: "wf_peer p" and c: "read_conv payload = Some conv"
    and a: "link_reset from conv (view p (canonicalize from)) = (l, evs, ctl)"
    and run: "on_reset payload from p = (r, p')"
  shows "r = Inr () \<and> moves p (canonicalize from) l evs (reply_to from ctl) p'"
proof (cases "hm_get (sessions p) (canonicalize from)")
  case None
  with run c a moves_refl [OF wf, of "canonicalize from"] show ?thesis
    by (auto simp: on_reset_def view_None link_reset_def)
next
  case (Some h)
  with run c a moves_refl [OF wf, of "canonicalize from"]
    moves_emit [OF moves_remove [OF wf Some], of "Disconnected from"] show ?thesis
    by (auto simp: on_reset_def reset_remove_def view_Some link_reset_def split: if_splits)
qed

text \<open>What the handler rejects, with the error it reports; the peer is then unchanged.\<close>

definition reject :: "bytes \<Rightarrow> error option" where
  "reject data =
     (case split_packet data of
        None \<Rightarrow> Some (Io (IoError InvalidData ''empty packet''))
      | Some (typ, payload) \<Rightarrow>
          if 4 \<le> length payload then None
          else (case typ of
                  KcpData \<Rightarrow> None
                | Syn \<Rightarrow> Some (Io (IoError InvalidData ''truncated SYN''))
                | SynAck \<Rightarrow> Some (Io (IoError InvalidData ''truncated SYN_ACK''))
                | Reset \<Rightarrow> Some (Io (IoError InvalidData ''truncated RESET''))))"

lemma handle_incoming_reject:
  assumes "reject data = Some e"
  shows "handle_incoming api data from p = Some (Inl e, p)" "decode_control data = None"
proof -
  have short: "read_conv payload = None" if "\<not> 4 \<le> length payload" for payload
    using that read_conv_None_iff by simp
  from assms show "handle_incoming api data from p = Some (Inl e, p)" "decode_control data = None"
    unfolding reject_def handle_incoming_def decode_control_def on_syn_def on_syn_ack_def on_reset_def
    by (auto simp: short split: option.splits if_splits packet_type.splits)
qed

lemma moves_incoming:
  assumes wf: "wf_peer p" and my: "sock_local_addr (plat p) = Inr my_addr"
    and a: "link_packet (my_addr < from) from data (view p (canonicalize from)) = (l, evs, ctl)"
    and run: "handle_incoming api data from p = Some (r, p')"
  shows "moves p (canonicalize from) l evs (reply_to from ctl) p'"
proof (cases "reject data")
  case (Some e)
  from handle_incoming_reject(1) [OF this, of api "from" p] run have "p' = p" by simp
  with a handle_incoming_reject(2) [OF Some] moves_refl [OF wf, of "canonicalize from"] show ?thesis
    by (auto simp: link_packet_def)
next
  case None
  then obtain ty payload where sp: "split_packet data = Some (ty, payload)"
    and len: "ty \<noteq> KcpData \<Longrightarrow> \<not> length payload < 4"
    by (auto simp: reject_def split: option.splits if_splits packet_type.splits)
  show ?thesis
  proof (cases "ty = KcpData")
    case True
    with sp run have "on_kcp_data api payload from p = Some (r, p')" by (simp add: handle_incoming_def)
    from moves_kcp_data [OF wf this refl] a sp True show ?thesis
      by (auto simp: link_packet_def decode_control_def split: option.splits)
  next
    case False
    with len obtain c where c: "read_conv payload = Some c"
      using read_conv_None_iff [of payload] by fastforce
    with a sp have "link_on (my_addr < from) from ty c (view p (canonicalize from)) = (l, evs, ctl)"
      by (simp add: link_packet_def decode_control_def)
    with moves_syn [OF wf my c] moves_syn_ack [OF wf c] moves_reset [OF wf c] False sp run show ?thesis
      by (cases ty) (auto simp: handle_incoming_def)
  qed
qed

section \<open>The operations of the application\<close>

lemma session_at_new_outbound:
  assumes "new_outbound api conv peer inc cfg w = (s, w')"
  shows "session_at (canonicalize peer) s" "\<not> closed s" "link_of s = Opening conv"
    "same_oracles w w'" "control_sent w' = control_sent w"
proof -
  obtain now where ep: "epoch_ms w = (now, w')"
    using assms by (auto simp: new_outbound_def Let_def split: prod.splits)
  with assms show "session_at (canonicalize peer) s" "\<not> closed s" "link_of s = Opening conv"
    by (auto simp: new_outbound_def session_at_def link_of_def Let_def)
  show "same_oracles w w'" by (rule epoch_ms_facts(2) [OF ep])
  show "control_sent w' = control_sent w" by (rule control_sent_eq [OF epoch_ms_facts(1) [OF ep]])
qed

lemma send_syn_frame:
  assumes "send_syn s w = (s', w')"
  shows "\<exists>t. s' = s\<lparr>syn_sent_at := t\<rparr>" "same_oracles w w'"
    "control_sent w' = control_sent w @ [(peer_addr s, encode_control Syn (conv_id (inner s)))]"
proof -
  let ?syn = "encode_control Syn (conv_id (inner s))"
  obtain res w1 where ts: "send_to ?syn (peer_addr s) w = (res, w1)" by fastforce
  obtain t w2 where ep: "epoch_ms w1 = (t, w2)" by fastforce
  have w1: "control_sent w1 = control_sent w @ [(peer_addr s, ?syn)]" "same_oracles w w1"
    using control_sent_control [of w1 w "peer_addr s" Syn "conv_id (inner s)" "[()]"]
      offered_try_send_to [of ?syn "peer_addr s" w] same_oracles_try_send_to [of w ?syn "peer_addr s"] ts
    by simp_all
  have "\<exists>t. s = s\<lparr>syn_sent_at := t\<rparr>" by (rule exI [of _ "syn_sent_at s"]) simp
  with assms ts ep show "\<exists>t. s' = s\<lparr>syn_sent_at := t\<rparr>"
    by (auto simp: send_syn_def Let_def split: sum.splits)
  show "same_oracles w w'" "control_sent w' = control_sent w @ [(peer_addr s, ?syn)]"
    using assms ts ep w1 epoch_ms_facts(2) [OF ep] control_sent_eq [OF epoch_ms_facts(1) [OF ep]]
    by (auto simp: send_syn_def Let_def split: sum.splits intro: frame_trans)
qed

lemma moves_initiate:
  assumes wf: "wf_peer p" and none: "hm_get (sessions p) (canonicalize peer) = None"
    and run: "initiate_session api conv peer p = (h, p')"
  shows "moves p (canonicalize peer) (Opening conv) [] [(peer, encode_control Syn conv)] p' \<and>
    hm_get (sessions p') (canonicalize peer) = Some h"
proof -
  let ?can = "canonicalize peer"
  obtain s w where no: "new_outbound api conv peer (own_incarnation p) (config p) (plat p) = (s, w)" by fastforce
  note new = session_at_new_outbound [OF no]
  let ?p = "p\<lparr>arena := arena p @ [s], sessions := hm_insert ?can (length (arena p)) (sessions p)\<rparr>"
  let ?q = "?p\<lparr>plat := w\<rparr>"
  have mv: "moves p ?can (Opening conv) [] [] ?q"
    using moves_quiet [OF moves_insert [OF wf new(1,2), of p], of w "[]"] none new(3-5) by simp
  have get: "hm_get (sessions ?q) ?can = Some (length (arena p))" by simp
  obtain s' w' where ss: "send_syn s w = (s', w')" by fastforce
  note fr = send_syn_frame [OF ss]
  have sq: "sess ?q (length (arena p)) = s" by (simp add: sess_def)
  have "same_identity s s'" "link_of s' = Opening conv" "peer_addr s = peer" "conv_id (inner s) = conv"
    using fr(1) new(3) no by (auto simp: same_identity_def link_of_def new_outbound_def Let_def split: prod.splits)
  moreover have "initiate_session api conv peer p =
      (length (arena p), set_sess (length (arena p)) s' (?q\<lparr>plat := w'\<rparr>))"
    using none no ss
    by (simp add: initiate_defs on_session_def sess_def Let_def)
  ultimately show ?thesis
    using moves_trans [OF mv moves_set_sess [OF moves_wf [OF mv] get, of s' w']] fr(2,3) sq run by simp
qed

lemma moves_send_data:
  assumes wf: "wf_peer p" and get: "hm_get (sessions p) can = Some h"
    and run: "on_session (send_data api data) h p = (r, p')"
  shows "moves p can (view p can) [] [] p'"
proof -
  obtain s w where sd: "send_data api data (sess p h) (plat p) = (r, s, w)"
    and p': "p' = set_sess h s (p\<lparr>plat := w\<rparr>)"
    using run by (auto simp: on_session_def split: prod.splits)
  have fr: "kcp_frame (sess p h) s" and w: "data_only (out_peer (out_adapter (inner (sess p h)))) (plat p) w"
    using send_data_frame [OF sd] by simp_all
  have "same_oracles (plat p) w" using w by (simp add: data_only_def)
  with moves_set_sess [OF wf get same_identity_frame [OF fr], of w "[]"] show ?thesis
    unfolding p' view_Some [OF get]
    by (simp add: link_of_frame [OF fr] control_sent_data_only [OF w])
qed

lemma moves_send:
  assumes wf: "wf_peer p" and run: "send api conv peer data p = (r, p')"
  shows "if view p (canonicalize peer) = NoLink
    then moves p (canonicalize peer) (Opening conv) [] [(peer, encode_control Syn conv)] p'
    else moves p (canonicalize peer) (view p (canonicalize peer)) [] [] p'"
proof (cases "hm_get (sessions p) (canonicalize peer)")
  case None
  obtain h p1 where is1: "initiate_session api conv peer p = (h, p1)" by fastforce
  note mv = moves_initiate [OF wf None is1]
  have "on_session (send_data api data) h p1 = (r, p')" using run None is1 by (simp add: send_def)
  from moves_send_data [OF moves_wf _ this] mv have "moves p1 (canonicalize peer) (Opening conv) [] [] p'"
    by (metis moves_def)
  from moves_trans [OF conjunct1 [OF mv] this] show ?thesis by (simp add: view_None None)
next
  case (Some h)
  with run have "on_session (send_data api data) h p = (r, p')" by (simp add: send_def)
  from moves_send_data [OF wf Some this] show ?thesis by (simp add: view_Some [OF Some] link_of_cases)
qed

lemma moves_disconnect:
  assumes wf: "wf_peer p"
  shows "case link_conv (view p (canonicalize peer)) of
      None \<Rightarrow> disconnect peer p = p
    | Some c \<Rightarrow> moves p (canonicalize peer) NoLink [Disconnected peer]
                  (replicate 3 (peer, encode_control Reset c)) (disconnect peer p)"
proof (cases "hm_get (sessions p) (canonicalize peer)")
  case None
  then show ?thesis by (simp add: view_None disconnect_def)
next
  case (Some h)
  have "conv_id (inner (sess (close_session h (p\<lparr>sessions := hm_remove (canonicalize peer) (sessions p)\<rparr>)) h)) =
      conv_id (inner (sess p h))"
    using wf_lookup(1) [OF wf Some] by (simp add: sess_close_session)
  with moves_emit [OF moves_send_resets [OF moves_remove [OF wf Some]], of "Disconnected peer" peer] Some
  show ?thesis by (simp add: view_Some disconnect_def Let_def)
qed

section \<open>Results and termination\<close>

lemma handle_incoming_returns:
  assumes "kcp_recv_laws api q"
  shows "\<exists>r p'. handle_incoming api data from p = Some (r, p')"
proof -
  have "\<exists>r msgs s'. try_recv_all api [] s = Some (r, msgs, s')" for s
    using drain_queue [OF assms, of "kcp (inner s)" "[]"] by (auto simp: try_recv_all_def)
  then have "\<exists>r p'. on_kcp_data api payload from p = Some (r, p')" for payload
    unfolding on_kcp_data_def Let_def
    by (auto split: option.split prod.split sum.split) (metis option.distinct(1))+
  then show ?thesis
    by (auto simp: handle_incoming_def split: option.split packet_type.split)
qed

lemma receive_task_terminates:
  assumes "kcp_recv_laws api q"
  shows "\<exists>p'. receive_task api rxs p = Some p'"
proof (induction rxs arbitrary: p)
  case (Cons rx rxs)
  show ?case
  proof (cases rx)
    case (Inr y)
    obtain r p' where "handle_incoming api (take 65535 (fst y)) (snd y) p = Some (r, p')"
      using handle_incoming_returns [OF assms] by blast
    with Cons.IH [of p'] Inr show ?thesis by (cases y) auto
  qed (use Cons.IH in auto)
qed simp

lemma handle_incoming_control_ok:
  assumes "decode_control data = Some (t, c)" and "t \<noteq> KcpData"
    and "sock_local_addr (plat p) = Inr my_addr"
    and "handle_incoming api data from p = Some (r, p')"
  shows "r = Inr ()"
  using assms
  by (cases t) (auto simp: handle_incoming_def decode_control_def on_syn_def on_syn_ack_def on_reset_def Let_def
      split: option.splits prod.splits if_splits)

lemma drain_result:
  assumes "drain api k out = Some y"
  shows "fst y = Inl e \<Longrightarrow> e \<in> range Kcp"
proof (rule drain.raw_induct [OF _ assms, of "\<lambda>_ _ _ y. fst y = Inl e \<longrightarrow> e \<in> range Kcp", THEN mp])
  fix drain' :: "'a kcp_api \<Rightarrow> 'a \<Rightarrow> bytes list \<Rightarrow> (unit result \<times> bytes list \<times> 'a) option"
  fix api k out y
  assume IH: "\<And>api k out y. drain' api k out = Some y \<Longrightarrow> fst y = Inl e \<longrightarrow> e \<in> range Kcp"
    and step: "(case api_peeksize api k of Inl e \<Rightarrow> Some (Inr (), out, k)
      | Inr sz \<Rightarrow> (case api_recv api (replicate sz 0) k of
          (r, buf, k') \<Rightarrow> (case r of Inl e \<Rightarrow> Some (Inl (Kcp e), out, k')
             | Inr n \<Rightarrow> drain' api k' (out @ [buf])))) = Some y"
  show "fst y = Inl e \<longrightarrow> e \<in> range Kcp"
    using step IH by (auto split: sum.splits prod.splits)
qed

lemma on_kcp_data_result:
  assumes "on_kcp_data api payload from p = Some (Inl e, p')"
  shows "e \<in> range Kcp"
  using assms
  by (auto simp: on_kcp_data_def Let_def session_input_def try_recv_all_def dest: drain_result
      split: option.splits prod.splits sum.splits if_splits)

section \<open>A peer to run\<close>

definition demo_peer :: "sock_addr \<Rightarrow> mini_kcp kcp_peer" where
  "demo_peer addr =
     \<lparr>plat = fair_platform addr 10, arena = [], sessions = [], event_log = [], pending_data = [],
      data_notify = False, own_incarnation = 42, shutdown_token = False, config = config_default,
      local_addr = addr\<rparr>"

lemma demo_peer_bind: "bind_with (Inr (fair_platform addr 10)) 42 config_default = Inr (demo_peer addr)"
  by (simp add: bind_with_def demo_peer_def)

lemma bind_with_wf: "bind_with bound inc cfg = Inr p \<Longrightarrow> wf_peer p \<and> view p = (\<lambda>_. NoLink)"
  by (auto simp: bind_with_def wf_peer_def table_ok_def view_def hm_get_def split: sum.splits)

lemma demo_peer_sel [simp]:
  "wf_peer (demo_peer addr)" "view (demo_peer addr) can = NoLink"
  "sock_local_addr (plat (demo_peer addr)) = Inr addr" "event_log (demo_peer addr) = []"
  "sessions (demo_peer addr) = []" "control_sent (plat (demo_peer addr)) = []"
  "shutdown_token (demo_peer addr) = False" "pending_data (demo_peer addr) = []"
  using bind_with_wf [OF demo_peer_bind, of addr]
  by (simp_all add: demo_peer_def control_sent_def offered_def fair_platform_def)

text \<open>The same peer after it accepted a SYN.\<close>

definition demo_up :: "mini_kcp kcp_peer" where
  "demo_up = snd (on_syn (mini_api to_le_bytes) (to_le_bytes 7) (V4 2 9000) (demo_peer (V4 1 9000)))"

lemma demo_up_moves:
  "moves (demo_peer (V4 1 9000)) (CanonicalAddr (V4 2 9000)) (Up 7) [Connected (V4 2 9000)]
     [(V4 2 9000, encode_control SynAck 7)] demo_up"
proof -
  obtain r p where run: "on_syn (mini_api to_le_bytes) (to_le_bytes 7) (V4 2 9000) (demo_peer (V4 1 9000)) = (r, p)"
    by fastforce
  have "read_conv (to_le_bytes 7) = Some 7" using read_conv_to_le_bytes [of 7 "[]"] by simp
  from moves_syn [OF _ _ this _ run] run show ?thesis by (simp add: demo_up_def)
qed

lemma demo_up_sel [simp]:
  "wf_peer demo_up" "hm_get (sessions demo_up) (CanonicalAddr (V4 2 9000)) = Some 0"
  "mk_conv (kcp (inner (sess demo_up 0))) = 7" "mk_rcv (kcp (inner (sess demo_up 0))) = []"
  "peer_addr (sess demo_up 0) = V4 2 9000" "pending_data demo_up = []"
proof -
  show "wf_peer demo_up" using moves_wf [OF demo_up_moves] .
  have c: "read_conv (to_le_bytes 7) = Some 7" using read_conv_to_le_bytes [of 7 "[]"] by simp
  obtain s w where ni: "new_inbound (mini_api to_le_bytes) 7 (V4 2 9000) 42 config_default (fair_platform (V4 1 9000) 10) = (s, w)"
    by fastforce
  have up: "demo_up = insert_inbound (V4 2 9000) s ((demo_peer (V4 1 9000))\<lparr>plat := w\<rparr>)"
    using ni by (simp add: demo_up_def syn_defs c syn_create_def
        demo_peer_def hm_get_def Let_def)
  have s: "mk_conv (kcp (inner s)) = 7" "mk_rcv (kcp (inner s)) = []" "peer_addr s = V4 2 9000"
    using ni by (auto simp: new_inbound_def Let_def apply_to_def split: prod.splits)
  then show "mk_conv (kcp (inner (sess demo_up 0))) = 7" "mk_rcv (kcp (inner (sess demo_up 0))) = []"
    "peer_addr (sess demo_up 0) = V4 2 9000" "pending_data demo_up = []"
    "hm_get (sessions demo_up) (CanonicalAddr (V4 2 9000)) = Some 0"
    unfolding up by (simp_all add: insert_inbound_def alloc_def demo_peer_def sess_def)
qed

lemma on_session_send_data_result:
  assumes "wf_peer p" and "hm_get (sessions p) can = Some h"
    and "on_session (send_data api data) h p = (r, p')"
  shows "r = Inr () \<or> r = Inl DeadLink \<or> (\<exists>e. r = Inl (Kcp e))"
  using assms(3) wf_lookup(3) [OF assms(1,2)]
  by (auto simp: on_session_def send_data_def Let_def split: prod.splits sum.splits if_splits)

lemma send_result:
  assumes "wf_peer p" and "send api conv peer data p = (r, p')"
  shows "r = Inr () \<or> r = Inl DeadLink \<or> (\<exists>e. r = Inl (Kcp e))"
proof (cases "hm_get (sessions p) (canonicalize peer)")
  case None
  obtain h p1 where is1: "initiate_session api conv peer p = (h, p1)" by fastforce
  note mv = moves_initiate [OF assms(1) None is1]
  from on_session_send_data_result [OF moves_wf [OF conjunct1 [OF mv]] conjunct2 [OF mv]] None is1 assms(2)
  show ?thesis by (simp add: send_def)
next
  case (Some h)
  with on_session_send_data_result [OF assms(1) Some] assms(2) show ?thesis by (simp add: send_def)
qed

text \<open>Delivery: a data packet that KCP accepts for a session.\<close>

lemma on_kcp_data_delivers:
  assumes laws: "kcp_recv_laws api q" and get: "hm_get (sessions p) (canonicalize from) = Some h"
    and inp: "api_input api payload (kcp (inner (sess p h))) = (Inr n, k)"
    and len: "h < length (arena p)"
  shows "\<exists>p'. on_kcp_data api payload from p = Some (Inr (), p') \<and>
    pending_data p' = pending_data p @ map (\<lambda>m. \<lparr>dm_peer = peer_addr (sess p h), dm_data = m\<rparr>) (q k) \<and>
    (data_notify p' \<longleftrightarrow> data_notify p \<or> q k \<noteq> []) \<and>
    q (kcp (inner (sess p' h))) = [] \<and> last_rx (sess p' h) = fst (epoch_ms (plat p))"
proof -
  obtain now w1 where ep: "epoch_ms (plat p) = (now, w1)" by fastforce
  let ?s1 = "(sess p h)\<lparr>last_rx := now\<rparr>"
  obtain k' where dr: "drain api k [] = Some (Inr (), q k, k')" "q k' = []"
    using drain_queue [OF laws, of k "[]"] by auto
  then show ?thesis
    using get inp ep len
    by (auto simp: on_kcp_data_def session_input_def try_recv_all_def Let_def sess_set_sess set_sess_twice)
qed

section \<open>Properties\<close>

text \<open>
  C3. The receive path implements the link machine. For every packet from an address, whatever its
  bytes: the peer's view of the canonical address of the sender becomes what the abstract link becomes,
  the view of every other address stays; the application sees exactly the machine's events, in order;
  exactly the machine's control packets go back to the sender; and the peer is well formed again.
\<close>

theorem handle_incoming_refines:
  assumes "wf_peer p" and "sock_local_addr (plat p) = Inr my_addr"
    and "handle_incoming api data from p = Some (r, p')"
    and "link_packet (my_addr < from) from data (view p (canonicalize from)) = (l, evs, ctl)"
  shows "wf_peer p' \<and> view p' = (view p)(canonicalize from := l) \<and>
    event_log p' = event_log p @ evs \<and>
    control_sent (plat p') = control_sent (plat p) @ reply_to from ctl"
  using moves_incoming [OF assms(1,2,4,3)] moves_view [OF moves_incoming [OF assms(1,2,4,3)]]
  by (simp add: moves_def)

theorem handle_incoming_refines_witness:
  "\<exists>r p'. handle_incoming (mini_api to_le_bytes) (encode_control Syn 7) (V4 2 9000) (demo_peer (V4 1 9000)) =
       Some (r, p') \<and>
     view p' (CanonicalAddr (V4 2 9000)) = Up 7 \<and> event_log p' = [Connected (V4 2 9000)] \<and>
     control_sent (plat p') = [(V4 2 9000, encode_control SynAck 7)]"
proof -
  let ?p = "demo_peer (V4 1 9000)" and ?from = "V4 2 9000"
  obtain r p' where run: "handle_incoming (mini_api to_le_bytes) (encode_control Syn 7) ?from ?p = Some (r, p')"
    by (auto simp: handle_incoming_def) (metis prod.exhaust_sel)
  have "link_packet (V4 1 9000 < ?from) ?from (encode_control Syn 7) (view ?p (canonicalize ?from)) =
      (Up 7, [Connected ?from], [(SynAck, 7)])"
    by (simp add: link_packet_def decode_encode_control)
  from handle_incoming_refines [OF _ _ run this] run show ?thesis by simp
qed

text \<open>
  C18. Isolation: a packet from one address, however malformed or hostile, leaves the sessions of all
  other addresses exactly as they were, their handles in the map and their whole state, and changes
  neither the configuration nor the shutdown token.
\<close>

theorem handle_incoming_isolation:
  assumes "wf_peer p" and "sock_local_addr (plat p) = Inr my_addr"
    and "handle_incoming api data from p = Some (r, p')" and "can \<noteq> canonicalize from"
  shows "hm_get (sessions p') can = hm_get (sessions p) can \<and>
    (\<forall>h. hm_get (sessions p) can = Some h \<longrightarrow> sess p' h = sess p h) \<and>
    config p' = config p \<and> shutdown_token p' = shutdown_token p"
proof -
  obtain l evs ctl where "link_packet (my_addr < from) from data (view p (canonicalize from)) = (l, evs, ctl)"
    by (metis prod_cases3)
  from moves_incoming [OF assms(1,2) this assms(3)] assms(4) show ?thesis
    by (simp add: moves_def others_same_def same_env_def)
qed

theorem handle_incoming_isolation_witness:
  "\<exists>r p'. handle_incoming (mini_api to_le_bytes) (encode_control Syn 7) (V4 2 9000) (demo_peer (V4 1 9000)) =
       Some (r, p') \<and> hm_get (sessions p') (CanonicalAddr (V4 3 9000)) = None"
proof -
  let ?p = "demo_peer (V4 1 9000)" and ?from = "V4 2 9000"
  obtain r p' where run: "handle_incoming (mini_api to_le_bytes) (encode_control Syn 7) ?from ?p = Some (r, p')"
    by (auto simp: handle_incoming_def) (metis prod.exhaust_sel)
  from handle_incoming_isolation [OF _ _ run, of "V4 1 9000" "CanonicalAddr (V4 3 9000)"] run show ?thesis
    by (auto simp: hm_get_def)
qed

text \<open>
  C26. The handler's results, every case: a packet without a known type byte and a control packet with
  fewer than four bytes of payload are refused with their own \<^verbatim>\<open>InvalidData\<close> error and
  change nothing at all; a complete control packet is never refused; and the only errors of a data
  packet are KCP's.
\<close>

theorem handle_incoming_results:
  assumes "sock_local_addr (plat p) = Inr my_addr"
    and "handle_incoming api data from p = Some (r, p')"
  shows "(\<forall>e. reject data = Some e \<longrightarrow> r = Inl e \<and> p' = p) \<and>
    (\<forall>t c. decode_control data = Some (t, c) \<and> t \<noteq> KcpData \<longrightarrow> r = Inr ()) \<and>
    (\<forall>payload. split_packet data = Some (KcpData, payload) \<longrightarrow> r = Inr () \<or> (\<exists>e. r = Inl (Kcp e)))"
proof (intro conjI allI impI)
  fix payload assume "split_packet data = Some (KcpData, payload)"
  with assms(2) have run: "on_kcp_data api payload from p = Some (r, p')" by (simp add: handle_incoming_def)
  show "r = Inr () \<or> (\<exists>e. r = Inl (Kcp e))"
  proof (cases r)
    case (Inl e)
    with run have "on_kcp_data api payload from p = Some (Inl e, p')" by simp
    from on_kcp_data_result [OF this] Inl show ?thesis by auto
  qed simp
qed (use assms handle_incoming_reject(1) [of data _ api "from" p] handle_incoming_control_ok [OF _ _ assms] in auto)

theorem handle_incoming_results_witness:
  "\<exists>r p'. handle_incoming (mini_api to_le_bytes) [1, 9] (V4 2 9000) (demo_peer (V4 1 9000)) = Some (r, p') \<and>
     r = Inl (Io (IoError InvalidData ''truncated SYN'')) \<and> p' = demo_peer (V4 1 9000)"
proof -
  let ?p = "demo_peer (V4 1 9000)" and ?from = "V4 2 9000"
  have rej: "reject [1, 9] = Some (Io (IoError InvalidData ''truncated SYN''))"
    by (simp add: reject_def split_packet_def from_byte_def)
  obtain r p' where run: "handle_incoming (mini_api to_le_bytes) [1, 9] ?from ?p = Some (r, p')"
    using handle_incoming_returns [OF mini_recv_laws] by blast
  from handle_incoming_results [OF _ run] rej run show ?thesis by auto
qed

text \<open>
  C20. \<^verbatim>\<open>send\<close> and the handshake: to an address without a session it starts one, with the
  drawn conversation id, and puts exactly one SYN on the wire; with a session it sends no control
  packet and the link stays. In both cases no event is fired, no other session changes, and the result
  is success, \<^verbatim>\<open>DeadLink\<close> or an error of KCP: \<^verbatim>\<open>SessionClosed\<close>,
  \<^verbatim>\<open>ShuttingDown\<close> and \<^verbatim>\<open>SessionNotFound\<close> never come out of an
  undisturbed call.
\<close>

theorem send_refines:
  assumes "wf_peer p" and "send api conv peer data p = (r, p')"
  shows "(r = Inr () \<or> r = Inl DeadLink \<or> (\<exists>e. r = Inl (Kcp e))) \<and>
    wf_peer p' \<and> event_log p' = event_log p \<and> others_same (canonicalize peer) p p' \<and>
    (if view p (canonicalize peer) = NoLink
     then view p' (canonicalize peer) = Opening conv \<and>
       control_sent (plat p') = control_sent (plat p) @ [(peer, encode_control Syn conv)]
     else view p' = view p \<and> control_sent (plat p') = control_sent (plat p))"
proof (cases "view p (canonicalize peer) = NoLink")
  case True
  with moves_send [OF assms] send_result [OF assms] show ?thesis by (simp add: moves_def)
next
  case False
  with moves_send [OF assms] have mv: "moves p (canonicalize peer) (view p (canonicalize peer)) [] [] p'" by simp
  from moves_view [OF this] have "view p' = view p" by simp
  with mv send_result [OF assms] False show ?thesis by (simp add: moves_def)
qed

theorem send_refines_witness:
  "\<exists>r p'. send (mini_api to_le_bytes) 7 (V4 2 9000) [1, 2] (demo_peer (V4 1 9000)) = (r, p') \<and>
     view p' (CanonicalAddr (V4 2 9000)) = Opening 7 \<and> event_log p' = [] \<and>
     control_sent (plat p') = [(V4 2 9000, encode_control Syn 7)]"
proof -
  obtain r p' where run: "send (mini_api to_le_bytes) 7 (V4 2 9000) [1, 2] (demo_peer (V4 1 9000)) = (r, p')"
    by fastforce
  from send_refines [OF _ run] run show ?thesis by simp
qed

text \<open>
  C27. \<^verbatim>\<open>disconnect\<close>: an address without a session is left alone, peer and wire unchanged; a
  session is removed and closed, three RESETs with its conversation id go to the address, and one
  \<^verbatim>\<open>Disconnected\<close> event is fired. Afterwards the address has no session, is not listed by
  \<^verbatim>\<open>peers\<close> under any spelling, has no statistics, and all other sessions are unchanged.
\<close>

theorem disconnect_refines:
  assumes "wf_peer p" and "p' = disconnect peer p"
  shows "wf_peer p' \<and> others_same (canonicalize peer) p p' \<and> view p' (canonicalize peer) = NoLink \<and>
    (\<forall>a. canonicalize a = canonicalize peer \<longrightarrow> a \<notin> set (peers p') \<and> stats api a p' = (None, p')) \<and>
    (case link_conv (view p (canonicalize peer)) of
       None \<Rightarrow> p' = p
     | Some c \<Rightarrow> event_log p' = event_log p @ [Disconnected peer] \<and>
         control_sent (plat p') = control_sent (plat p) @ replicate 3 (peer, encode_control Reset c))"
proof -
  let ?can = "canonicalize peer"
  have "view p ?can = NoLink \<longleftrightarrow> link_conv (view p ?can) = None" by (cases "view p ?can") auto
  with moves_disconnect [OF assms(1), of peer] assms
  have main: "wf_peer p'" "others_same ?can p p'" "view p' ?can = NoLink"
    "case link_conv (view p ?can) of
       None \<Rightarrow> p' = p
     | Some c \<Rightarrow> event_log p' = event_log p @ [Disconnected peer] \<and>
         control_sent (plat p') = control_sent (plat p) @ replicate 3 (peer, encode_control Reset c)"
    by (auto simp: moves_def split: option.splits)
  then have none: "hm_get (sessions p') ?can = None"
    by (simp add: view_def link_of_cases split: option.splits)
  have "canonicalize (peer_addr (sess p' h)) \<noteq> ?can" if "h \<in> set (hm_values (sessions p'))" for h
  proof -
    from that obtain c where "(c, h) \<in> set (sessions p')" by (auto simp: hm_values_def)
    with main(1) have "hm_get (sessions p') c = Some h" by (simp add: hm.entries_get wf_table_ok)
    with wf_lookup(2) [OF main(1) this] none show ?thesis by (auto simp: session_at_def)
  qed
  then have "a \<notin> set (peers p')" if "canonicalize a = ?can" for a
    using that by (auto simp: peers_def)
  with main none show ?thesis by (simp add: stats_def)
qed

theorem disconnect_refines_witness:
  "\<exists>p p'. wf_peer p \<and> view p (CanonicalAddr (V4 2 9000)) = Opening 7 \<and> p' = disconnect (V4 2 9000) p \<and>
     view p' (CanonicalAddr (V4 2 9000)) = NoLink \<and> event_log p' = event_log p @ [Disconnected (V4 2 9000)] \<and>
     V4 2 9000 \<notin> set (peers p') \<and> stats (mini_api to_le_bytes) (V4 2 9000) p' = (None, p')"
proof -
  let ?a = "V4 2 9000"
  obtain r p where run: "send (mini_api to_le_bytes) 7 ?a [1] (demo_peer (V4 1 9000)) = (r, p)" by fastforce
  from moves_send [OF _ run] have p: "wf_peer p" "view p (CanonicalAddr ?a) = Opening 7"
    by (simp_all add: moves_def)
  let ?q = "disconnect ?a p"
  note dr = disconnect_refines [OF p(1) refl, of ?a "mini_api to_le_bytes"]
  from dr p(2) have "view ?q (CanonicalAddr ?a) = NoLink" "event_log ?q = event_log p @ [Disconnected ?a]"
    by simp_all
  moreover from dr have "?a \<notin> set (peers ?q)" "stats (mini_api to_le_bytes) ?a ?q = (None, ?q)"
    by blast+
  ultimately show ?thesis using p by blast
qed

end
