(* ===== verification/Tick_Spec.thy ===== *)
theory Tick_Spec
  imports Lifecycle
begin

text \<open>
  What a tick of the update task does to the sessions: which it removes and why, what it fires and
  what it sends. The scan visits every session once and changes only KCP's state and the retry
  counters; the removal then closes exactly the sessions the scan collected.
\<close>

section \<open>Verdicts\<close>

definition timed_out :: "kcp_config \<Rightarrow> u64 \<Rightarrow> 'k session \<Rightarrow> bool" where
  "timed_out cfg now s \<longleftrightarrow>
     0 < last_rx s \<and> session_timeout cfg < (unat now - unat (last_rx s)) * 1000000"

definition gave_up :: "kcp_config \<Rightarrow> 'k session \<Rightarrow> bool" where
  "gave_up cfg s \<longleftrightarrow> state (inner s) = SynSent \<and> syn_max_retries cfg \<le> syn_retries s"

definition dead :: "'k kcp_api \<Rightarrow> 'k session \<Rightarrow> bool" where
  "dead api s \<longleftrightarrow> state (inner s) = Established \<and> api_is_dead_link api (kcp (inner s))"

section \<open>One session\<close>

lemma session_update_result:
  assumes "session_update api now_ms s w = (r, s', w')"
  shows "r = Inl DeadLink \<Longrightarrow> dead api s'" "dead api s \<Longrightarrow> r = Inl DeadLink"
proof -
  obtain r2 s2 w2 where up: "run_kcp (api_update api now_ms (kcp (inner s))) s w = (r2, s2, w2)"
    by (metis prod_cases3)
  from assms kcp_frame_fields(7) [OF conjunct1 [OF run_kcp_frame [OF up]]]
  show "r = Inl DeadLink \<Longrightarrow> dead api s'" "dead api s \<Longrightarrow> r = Inl DeadLink"
    by (auto simp: session_update_def dead_def up split: if_splits sum.splits)
qed

lemma maybe_retry_syn_frame:
  assumes "maybe_retry_syn cfg now s w = (r, s', w')"
  shows "same_identity s s'" "link_of s' = link_of s" "last_rx s' = last_rx s" "inner s' = inner s"
    "same_oracles w w'"
    "control_sent w' = control_sent w \<or>
     (state (inner s) = SynSent \<and>
      control_sent w' = control_sent w @ [(peer_addr s, encode_control Syn (conv_id (inner s)))])"
    "r = Inl DeadLink \<longleftrightarrow> \<not> closed s \<and> gave_up cfg s"
proof -
  from assms have "same_identity s s' \<and> link_of s' = link_of s \<and> last_rx s' = last_rx s \<and> inner s' = inner s \<and>
     same_oracles w w' \<and> (r = Inl DeadLink \<longleftrightarrow> \<not> closed s \<and> gave_up cfg s) \<and>
     (control_sent w' = control_sent w \<or>
      (state (inner s) = SynSent \<and>
       control_sent w' = control_sent w @ [(peer_addr s, encode_control Syn (conv_id (inner s)))]))"
  proof (cases rule: maybe_retry_syn_cases)
    case retry
    then show ?thesis
      using control_sent_control [of w' w "peer_addr s" Syn "conv_id (inner s)" "[()]"]
      by (auto simp: same_identity_def link_of_def gave_up_def)
  qed (auto simp: same_identity_def gave_up_def)
  then show "same_identity s s'" "link_of s' = link_of s" "last_rx s' = last_rx s" "inner s' = inner s"
    "same_oracles w w'"
    "control_sent w' = control_sent w \<or>
     (state (inner s) = SynSent \<and>
      control_sent w' = control_sent w @ [(peer_addr s, encode_control Syn (conv_id (inner s)))])"
    "r = Inl DeadLink \<longleftrightarrow> \<not> closed s \<and> gave_up cfg s" by blast+
qed

definition ticked :: "'k kcp_api \<Rightarrow> kcp_config \<Rightarrow> u64 \<Rightarrow> 'k session \<Rightarrow> bool \<Rightarrow> 'k session \<Rightarrow> bool" where
  "ticked api cfg now s rm s' \<longleftrightarrow>
     same_identity s s' \<and> link_of s' = link_of s \<and> last_rx s' = last_rx s \<and>
     (rm \<longrightarrow> timed_out cfg now s \<or> gave_up cfg s \<or> dead api s') \<and>
     (timed_out cfg now s \<or> gave_up cfg s \<or> dead api s \<longrightarrow> rm \<or> closed s)"

lemma ticked_fields:
  assumes "ticked api cfg now s rm s'"
  shows "same_identity s s'" "peer_addr s' = peer_addr s" "link_of s' = link_of s" "last_rx s' = last_rx s"
    "conv_id (inner s') = conv_id (inner s)"
proof -
  from assms show *: "same_identity s s'" "link_of s' = link_of s" "last_rx s' = last_rx s"
    by (simp_all add: ticked_def)
  from *(1) show "peer_addr s' = peer_addr s" by (simp add: same_identity_def)
  from arg_cong [OF *(2), of link_conv] show "conv_id (inner s') = conv_id (inner s)" by simp
qed

lemma tick_session_frame:
  assumes "tick_session api cfg now_ms now s w = (rm, s', w')"
  shows "ticked api cfg now s rm s'" "same_oracles w w'"
    "control_sent w' = control_sent w \<or>
     (state (inner s) = SynSent \<and>
      control_sent w' = control_sent w @ [(peer_addr s, encode_control Syn (conv_id (inner s)))])"
proof -
  obtain r1 s1 w1 where up: "session_update api now_ms s w = (r1, s1, w1)" by (metis prod_cases3)
  obtain r2 s2 w2 where mr: "maybe_retry_syn cfg now s1 w1 = (r2, s2, w2)" by (metis prod_cases3)
  note up_fr = session_update_frame [OF up, THEN conjunct1]
  note up_do = session_update_frame [OF up, THEN conjunct2]
  note up_f = kcp_frame_fields [OF up_fr]
  note mr_f = maybe_retry_syn_frame [OF mr]
  have so: "same_oracles w w1" "control_sent w1 = control_sent w"
    using up_do control_sent_data_only [OF up_do] by (simp_all add: data_only_def)
  have gu: "gave_up cfg s1 = gave_up cfg s" by (simp add: gave_up_def up_f)
  have to: "timed_out cfg now s2 = timed_out cfg now s" by (simp add: timed_out_def mr_f(3) up_f)
  have to_iff: "timed_out cfg now s2 \<longleftrightarrow>
      0 < last_rx s2 \<and> session_timeout cfg < from_millis (saturating_sub now (last_rx s2))"
    by (simp add: timed_out_def unat_saturating_sub)
  have id: "same_identity s s1" "same_identity s s2" "link_of s1 = link_of s" "link_of s2 = link_of s"
    "last_rx s1 = last_rx s" "last_rx s2 = last_rx s"
    using up_fr mr_f(1-3) same_identity_frame [OF up_fr] same_identity_trans link_of_frame [OF up_fr] up_f
    by auto
  have "dead api s2 = dead api s1" by (simp add: dead_def mr_f(4))
  then show "ticked api cfg now s rm s'"
    using assms up mr id gu to to_iff mr_f(7) session_update_result [OF up] up_f(1)
    by (auto simp: tick_session_def ticked_def same_identity_def Let_def split: if_splits)
  show "same_oracles w w'"
    using assms up mr so(1) mr_f(5) by (auto simp: tick_session_def Let_def split: if_splits intro: frame_trans)
  show "control_sent w' = control_sent w \<or>
     (state (inner s) = SynSent \<and>
      control_sent w' = control_sent w @ [(peer_addr s, encode_control Syn (conv_id (inner s)))])"
    using assms up mr so(2) mr_f(6) up_f by (auto simp: tick_session_def Let_def split: if_splits)
qed

section \<open>The scan\<close>

text \<open>Two peers that differ in the sessions behind the handles \<open>H\<close> and in the platform only.\<close>

definition same_but :: "handle set \<Rightarrow> 'k kcp_peer \<Rightarrow> 'k kcp_peer \<Rightarrow> bool" where
  "same_but H p p' \<longleftrightarrow> sessions p' = sessions p \<and> event_log p' = event_log p \<and>
     length (arena p') = length (arena p) \<and> same_env p p' \<and> pending_data p' = pending_data p \<and>
     data_notify p' = data_notify p \<and> (\<forall>h. h \<notin> H \<longrightarrow> sess p' h = sess p h)"

definition retried :: "'k kcp_peer \<Rightarrow> table \<Rightarrow> (sock_addr \<times> bytes) list" where
  "retried p es = map (\<lambda>(c, h). (peer_addr (sess p h), encode_control Syn (conv_id (inner (sess p h))))) es"

lemma ticked_cons:
  assumes here: "ticked api cfg now (sess p h) rm (sess p' h)"
    and rest: "\<And>c' h'. (c', h') \<in> set es \<Longrightarrow> ticked api cfg now (sess p h') (c' \<in> set rms) (sess p' h')"
    and c: "c \<notin> fst ` set es" "set rms \<subseteq> fst ` set es"
  shows "\<forall>(c', h') \<in> set ((c, h) # es).
    ticked api cfg now (sess p h') (c' \<in> set (if rm then c # rms else rms)) (sess p' h')"
proof (intro ballI, clarify)
  fix c' h' assume "(c', h') \<in> set ((c, h) # es)"
  then consider "c' = c" "h' = h" | "(c', h') \<in> set es" "c' \<noteq> c" using c(1) by (auto simp: image_iff)
  then show "ticked api cfg now (sess p h') (c' \<in> set (if rm then c # rms else rms)) (sess p' h')"
  proof cases
    case 1
    then have "c' \<in> set (if rm then c # rms else rms) \<longleftrightarrow> rm" using c by auto
    with 1 here show ?thesis by simp
  next
    case 2
    then have "c' \<in> set (if rm then c # rms else rms) \<longleftrightarrow> c' \<in> set rms" by auto
    with rest [OF 2(1)] show ?thesis by simp
  qed
qed

lemma tick_scan_spec:
  assumes "tick_scan api now_ms now es p = (rms, p')"
    and "distinct (map fst es)" and "distinct (map snd es)" and "\<forall>(c, h) \<in> set es. h < length (arena p)"
  shows "same_but (snd ` set es) p p' \<and> distinct rms \<and> set rms \<subseteq> fst ` set es \<and>
    (\<forall>(c, h) \<in> set es. ticked api (config p) now (sess p h) (c \<in> set rms) (sess p' h)) \<and>
    (\<exists>Q. control_sent (plat p') = control_sent (plat p) @ retried p (filter Q es) \<and>
       (\<forall>(c, h) \<in> set es. Q (c, h) \<longrightarrow> state (inner (sess p h)) = SynSent))"
  using assms
proof (induction es arbitrary: p rms)
  case Nil
  then show ?case by (simp add: same_but_def retried_def)
next
  case (Cons e es)
  obtain c h where e: "e = (c, h)" by fastforce
  obtain rm s w where ts: "tick_session api (config p) now_ms now (sess p h) (plat p) = (rm, s, w)"
    by (metis prod_cases3)
  define p1 where "p1 = set_sess h s (p\<lparr>plat := w\<rparr>)"
  obtain rms2 where rec: "tick_scan api now_ms now es p1 = (rms2, p')"
    and rms: "rms = (if rm then c # rms2 else rms2)"
    using Cons.prems(1) e ts by (auto simp: on_session_def p1_def split: prod.splits)
  note fr = tick_session_frame [OF ts]
  have h: "h < length (arena p)" "h \<notin> snd ` set es" "c \<notin> fst ` set es" using Cons.prems(2-4) e by auto
  have sess1: "sess p1 h' = (if h' = h then s else sess p h')" for h'
    using h(1) by (simp add: p1_def sess_set_sess)
  have sess_es: "sess p1 h' = sess p h'" if "(c', h') \<in> set es" for c' h'
    using that h(2) by (force simp: sess1)
  have b1: "same_but {h} p p1"
    using fr(2) by (simp add: same_but_def same_env_def p1_def) (simp add: sess1 [unfolded p1_def])
  have cfg: "config p1 = config p" "length (arena p1) = length (arena p)" by (simp_all add: p1_def)
  from Cons.IH [OF rec] Cons.prems cfg obtain Q where
    ih: "same_but (snd ` set es) p1 p'" "distinct rms2" "set rms2 \<subseteq> fst ` set es"
      "\<forall>(c, h) \<in> set es. ticked api (config p) now (sess p1 h) (c \<in> set rms2) (sess p' h)"
    and Q: "control_sent (plat p') = control_sent (plat p1) @ retried p1 (filter Q es)"
      "\<forall>(c, h) \<in> set es. Q (c, h) \<longrightarrow> state (inner (sess p1 h)) = SynSent"
    by auto
  have here: "ticked api (config p) now (sess p h) rm (sess p' h)"
    using ih(1) h(2) fr(1) by (simp add: same_but_def sess1)
  have r1: "retried p1 (filter Q es) = retried p (filter Q es)"
    unfolding retried_def by (rule map_cong [OF refl]) (auto dest: sess_es)
  define Q' where "Q' x = (if x = (c, h) then control_sent w \<noteq> control_sent (plat p) else Q x)" for x
  have "filter Q' es = filter Q es"
    using h(3) by (intro filter_cong) (auto simp: Q'_def image_iff)
  then have "control_sent (plat p') = control_sent (plat p) @ retried p (filter Q' (e # es))"
    using Q(1) r1 fr(3) e by (auto simp: p1_def Q'_def retried_def)
  moreover have "\<forall>(c', h') \<in> set (e # es). Q' (c', h') \<longrightarrow> state (inner (sess p h')) = SynSent"
    using Q(2) fr(3) e sess_es by (auto simp: Q'_def)
  moreover have "same_but (snd ` set (e # es)) p p'"
    using b1 ih(1) e by (auto simp: same_but_def intro: same_env_trans)
  moreover have "\<forall>(c', h') \<in> set (e # es). ticked api (config p) now (sess p h') (c' \<in> set rms) (sess p' h')"
    unfolding e rms using here ih(3,4) h(3) sess_es by (intro ticked_cons) auto
  ultimately show ?case using ih(2,3) h(3) rms e by auto
qed

lemma wf_handles_distinct:
  assumes "wf_peer p"
  shows "distinct (map snd (sessions p))"
proof -
  have "inj_on snd (set (sessions p))"
    using assms wf_handle_inj [OF assms] by (auto simp: inj_on_def hm.entries_get wf_table_ok)
  moreover have "distinct (sessions p)" using hm.entries_card wf_table_ok [OF assms] by blast
  ultimately show ?thesis by (simp add: distinct_map)
qed

lemma wf_same_but:
  assumes wf: "wf_peer p" and sb: "same_but H p p'"
    and id: "\<And>can h. hm_get (sessions p) can = Some h \<Longrightarrow> same_identity (sess p h) (sess p' h)"
    and H: "\<And>h. h \<in> H \<Longrightarrow> \<exists>can. hm_get (sessions p) can = Some h"
  shows "wf_peer p'"
proof (rule wf_peerI)
  show "table_ok (sessions p')" using wf sb by (simp add: same_but_def wf_table_ok)
next
  fix can h assume "hm_get (sessions p') can = Some h"
  then have "hm_get (sessions p) can = Some h" using sb by (simp add: same_but_def)
  with wf_lookup [OF wf this] id [OF this] sb
  show "h < length (arena p') \<and> session_at can (sess p' h) \<and> \<not> closed (sess p' h)"
    by (auto simp: same_but_def same_identity_def session_at_def)
next
  fix h assume h: "h < length (arena p')" "\<forall>can. hm_get (sessions p') can \<noteq> Some h"
  with H sb have "sess p' h = sess p h" by (auto simp: same_but_def)
  with wf_unmapped [OF wf] h sb show "closed (sess p' h)" by (simp add: same_but_def)
qed

section \<open>The removal\<close>

lemma moves_prune_one:
  assumes wf: "wf_peer p" and get: "hm_get (sessions p) can = Some h"
  shows "moves p can NoLink [Disconnected (peer_addr (sess p h))]
      (replicate 3 (peer_addr (sess p h), encode_control Reset (conv_id (inner (sess p h))))) (prune_one can p)"
    "sess (prune_one can p) h' = (if h' = h then mark_closed (sess p h) else sess p h')"
proof -
  let ?s = "sess p h" and ?q = "close_session h (p\<lparr>sessions := hm_remove can (sessions p)\<rparr>)"
  have eq: "prune_one can p =
      emit (Disconnected (peer_addr ?s)) (send_resets (conv_id (inner ?s)) (peer_addr ?s) ?q)"
    using get by (simp add: prune_one_def Let_def close_session_def set_sess_def send_resets_def sess_def)
  show "moves p can NoLink [Disconnected (peer_addr ?s)]
      (replicate 3 (peer_addr ?s, encode_control Reset (conv_id (inner ?s)))) (prune_one can p)"
    unfolding eq
    using moves_emit [OF moves_send_resets [OF moves_remove [OF wf get]], of "Disconnected (peer_addr ?s)"] by simp
  show "sess (prune_one can p) h' = (if h' = h then mark_closed ?s else sess p h')"
    unfolding eq using wf_lookup(1) [OF wf get] by (simp add: sess_close_session)
qed

definition pruned_events :: "'k kcp_peer \<Rightarrow> canonical_addr list \<Rightarrow> event list" where
  "pruned_events p rms = map (\<lambda>c. Disconnected (peer_addr (sess p (the (hm_get (sessions p) c))))) rms"

definition pruned_resets :: "'k kcp_peer \<Rightarrow> canonical_addr list \<Rightarrow> (sock_addr \<times> bytes) list" where
  "pruned_resets p rms =
     concat (map (\<lambda>c. let s = sess p (the (hm_get (sessions p) c))
                      in replicate 3 (peer_addr s, encode_control Reset (conv_id (inner s)))) rms)"

lemma prune_fold:
  assumes "wf_peer p" and "distinct rms" and "\<forall>c \<in> set rms. \<exists>h. hm_get (sessions p) c = Some h"
    and "p' = fold prune_one rms p"
  shows "wf_peer p' \<and> same_env p p' \<and>
    (\<forall>c. hm_get (sessions p') c = (if c \<in> set rms then None else hm_get (sessions p) c)) \<and>
    (\<forall>h. sess p' h = (if \<exists>c \<in> set rms. hm_get (sessions p) c = Some h then mark_closed (sess p h) else sess p h)) \<and>
    event_log p' = event_log p @ pruned_events p rms \<and>
    control_sent (plat p') = control_sent (plat p) @ pruned_resets p rms"
  using assms
proof (induction rms arbitrary: p)
  case Nil
  then show ?case by (simp add: pruned_events_def pruned_resets_def)
next
  case (Cons can rms)
  from Cons.prems(3) obtain h where get: "hm_get (sessions p) can = Some h" by auto
  let ?q = "prune_one can p"
  note mv = moves_prune_one [OF Cons.prems(1) get]
  have can: "can \<notin> set rms" using Cons.prems(2) by simp
  have gone: "hm_get (sessions ?q) can = None"
    using mv(1) by (auto simp: moves_def view_def link_of_cases split: option.splits)
  have other: "hm_get (sessions ?q) c = hm_get (sessions p) c" if "c \<noteq> can" for c
    using mv(1) that by (auto simp: moves_def others_same_def)
  have mapped: "\<exists>h'. hm_get (sessions p) c = Some h' \<and> h' \<noteq> h \<and> hm_get (sessions ?q) c = Some h'"
    if "c \<in> set rms" for c
    using that Cons.prems(3) can other [of c] wf_handle_other [OF Cons.prems(1) get] by fastforce
  have q: "sess ?q (the (hm_get (sessions ?q) c)) = sess p (the (hm_get (sessions p) c))" if "c \<in> set rms" for c
    using mapped [OF that] mv(2) by auto
  have ev: "pruned_events ?q rms = pruned_events p rms" "pruned_resets ?q rms = pruned_resets p rms"
    unfolding pruned_events_def pruned_resets_def Let_def
    by (auto simp: q intro!: map_cong arg_cong [of _ _ concat])
  have "\<forall>c \<in> set rms. \<exists>h. hm_get (sessions ?q) c = Some h" using mapped by blast
  from Cons.IH [OF moves_wf [OF mv(1)] _ this] Cons.prems(2,4)
  have ih: "wf_peer p'" "same_env ?q p'"
    "\<forall>c. hm_get (sessions p') c = (if c \<in> set rms then None else hm_get (sessions ?q) c)"
    "\<forall>h. sess p' h = (if \<exists>c \<in> set rms. hm_get (sessions ?q) c = Some h then mark_closed (sess ?q h) else sess ?q h)"
    "event_log p' = event_log ?q @ pruned_events ?q rms"
    "control_sent (plat p') = control_sent (plat ?q) @ pruned_resets ?q rms"
    by simp_all
  have "(\<exists>c \<in> set (can # rms). hm_get (sessions p) c = Some h') \<longleftrightarrow>
      h' = h \<or> (\<exists>c \<in> set rms. hm_get (sessions ?q) c = Some h')"
    "h' = h \<Longrightarrow> \<not> (\<exists>c \<in> set rms. hm_get (sessions ?q) c = Some h')" for h'
    using mapped get by fastforce+
  then have "\<forall>h. sess p' h = (if \<exists>c \<in> set (can # rms). hm_get (sessions p) c = Some h then mark_closed (sess p h) else sess p h)"
    using ih(4) mv(2) by simp
  moreover have "\<forall>c. hm_get (sessions p') c = (if c \<in> set (can # rms) then None else hm_get (sessions p) c)"
    using ih(3) gone other by auto
  moreover have "same_env p p'" using mv(1) ih(2) by (auto simp: moves_def intro: same_env_trans)
  moreover have "event_log p' = event_log p @ pruned_events p (can # rms)"
    "control_sent (plat p') = control_sent (plat p) @ pruned_resets p (can # rms)"
    using ih(5,6) ev mv(1) get by (simp_all add: moves_def pruned_events_def pruned_resets_def Let_def)
  ultimately show ?case using ih(1) by blast
qed

section \<open>The tick\<close>

abbreviation tick_now :: "'k kcp_peer \<Rightarrow> u64" where
  "tick_now p \<equiv> fst (epoch_ms (snd (current_ms (plat p))))"

lemma wf_table_entries: "wf_peer p \<Longrightarrow> (c, h) \<in> set (sessions p) \<longleftrightarrow> hm_get (sessions p) c = Some h"
  by (simp add: hm.entries_get wf_table_ok)

text \<open>The scan of the whole table.\<close>

lemma table_scan:
  assumes wf: "wf_peer p" and sc: "tick_scan api now_ms now (sessions p) p = (rms, p1)"
  obtains Q where "wf_peer p1" "sessions p1 = sessions p" "event_log p1 = event_log p" "same_env p p1"
    "distinct rms" "\<forall>c \<in> set rms. \<exists>h. hm_get (sessions p) c = Some h"
    "\<And>c h. hm_get (sessions p) c = Some h \<Longrightarrow> ticked api (config p) now (sess p h) (c \<in> set rms) (sess p1 h)"
    "control_sent (plat p1) = control_sent (plat p) @ retried p (filter Q (sessions p))"
    "\<And>c h. (c, h) \<in> set (sessions p) \<Longrightarrow> Q (c, h) \<Longrightarrow> state (inner (sess p h)) = SynSent"
proof -
  have pre: "distinct (map fst (sessions p))" "distinct (map snd (sessions p))"
    "\<forall>(c, h) \<in> set (sessions p). h < length (arena p)"
    using wf wf_table_ok [OF wf] wf_handles_distinct [OF wf] wf_lookup(1) [OF wf]
    by (auto simp: table_ok_def wf_table_entries)
  from tick_scan_spec [OF sc pre] obtain Q where
    scan: "same_but (snd ` set (sessions p)) p p1" "distinct rms" "set rms \<subseteq> fst ` set (sessions p)"
      "\<forall>(c, h) \<in> set (sessions p). ticked api (config p) now (sess p h) (c \<in> set rms) (sess p1 h)"
    and Q: "control_sent (plat p1) = control_sent (plat p) @ retried p (filter Q (sessions p))"
      "\<forall>(c, h) \<in> set (sessions p). Q (c, h) \<longrightarrow> state (inner (sess p h)) = SynSent"
    by auto
  have tk: "ticked api (config p) now (sess p h) (c \<in> set rms) (sess p1 h)"
    if "hm_get (sessions p) c = Some h" for c h
    using scan(4) that wf_table_entries [OF wf] by blast
  have "wf_peer p1"
    using tk wf by (intro wf_same_but [OF _ scan(1)]) (auto simp: wf_table_entries dest: tk ticked_fields(1))
  moreover have "\<forall>c \<in> set rms. \<exists>h. hm_get (sessions p) c = Some h"
    using scan(3) wf_table_entries [OF wf] by fastforce
  ultimately show thesis using scan(1,2) tk Q by (intro that [of Q]) (auto simp: same_but_def)
qed

lemma update_tick_spec:
  assumes wf: "wf_peer p" and p': "p' = update_tick api p"
  obtains rms Q where "wf_peer p'" "same_env p p'" "distinct rms"
    "\<forall>c \<in> set rms. \<exists>h. hm_get (sessions p) c = Some h"
    "\<And>c. view p' c = (if c \<in> set rms then NoLink else view p c)"
    "\<And>c h. hm_get (sessions p) c = Some h \<Longrightarrow>
       hm_get (sessions p') c = (if c \<in> set rms then None else Some h) \<and>
       (\<exists>s. ticked api (config p) (tick_now p) (sess p h) (c \<in> set rms) s \<and>
            sess p' h = (if c \<in> set rms then mark_closed s else s))"
    "event_log p' = event_log p @ pruned_events p rms"
    "control_sent (plat p') = control_sent (plat p) @ retried p (filter Q (sessions p)) @ pruned_resets p rms"
    "\<And>c h. (c, h) \<in> set (sessions p) \<Longrightarrow> Q (c, h) \<Longrightarrow> state (inner (sess p h)) = SynSent"
proof (cases "sessions p = []")
  case True
  then have "hm_get (sessions p) c = None" for c by (simp add: hm_get_def)
  with True wf p' show thesis
    by (intro that [of "[]" "\<lambda>_. False"])
      (auto simp: update_tick_def pruned_events_def pruned_resets_def retried_def view_def)
next
  case False
  obtain now_ms w1 where cm: "current_ms (plat p) = (now_ms, w1)" by fastforce
  obtain now w2 where ep: "epoch_ms w1 = (now, w2)" by fastforce
  let ?p0 = "p\<lparr>plat := w2\<rparr>"
  obtain rms p1 where sc: "tick_scan api now_ms now (sessions p) ?p0 = (rms, p1)" by fastforce
  have now: "tick_now p = now" using cm ep by simp
  have env0: "same_env p ?p0" "control_sent w2 = control_sent (plat p)"
    using same_oracles_current_ms [of "plat p"] epoch_ms_facts [OF ep] cm
      control_sent_eq [of w2 "plat p"] offered_current_ms [of "plat p"]
    by (auto simp: same_env_def intro: frame_trans)
  from wf sc obtain Q where s1: "wf_peer p1" "sessions p1 = sessions p" "event_log p1 = event_log p" "same_env ?p0 p1"
    and rms: "distinct rms" "\<forall>c \<in> set rms. \<exists>h. hm_get (sessions p) c = Some h"
    and tk: "\<And>c h. hm_get (sessions p) c = Some h \<Longrightarrow> ticked api (config p) now (sess p h) (c \<in> set rms) (sess p1 h)"
    and Q: "control_sent (plat p1) = control_sent w2 @ retried p (filter Q (sessions p))"
      "\<And>c h. (c, h) \<in> set (sessions p) \<Longrightarrow> Q (c, h) \<Longrightarrow> state (inner (sess p h)) = SynSent"
    by (auto elim!: table_scan [of ?p0, simplified] simp: retried_def)
  have p'_eq: "p' = fold prune_one rms p1" using p' False cm ep sc by (simp add: update_tick_def)
  have "\<forall>c \<in> set rms. \<exists>h. hm_get (sessions p1) c = Some h" using rms(2) s1(2) by simp
  note pr = prune_fold [OF s1(1) rms(1) this p'_eq, unfolded s1(2,3)]
  note id1 = ticked_fields [OF tk]
  have "pruned_events p1 rms = pruned_events p rms" "pruned_resets p1 rms = pruned_resets p rms"
    unfolding pruned_events_def pruned_resets_def Let_def s1 using rms(2) id1
    by (auto intro!: map_cong arg_cong [of _ _ concat])
  moreover have sel: "hm_get (sessions p') c = (if c \<in> set rms then None else Some h)"
    "sess p' h = (if c \<in> set rms then mark_closed (sess p1 h) else sess p1 h)"
    if "hm_get (sessions p) c = Some h" for c h
    using pr that wf_handle_inj [OF wf] by auto
  moreover have "view p' c = (if c \<in> set rms then NoLink else view p c)" for c
    using sel [of c] id1(3) [of c] pr by (auto simp: view_def split: option.split)
  moreover have "hm_get (sessions p') c = (if c \<in> set rms then None else Some h) \<and>
      (\<exists>s. ticked api (config p) (tick_now p) (sess p h) (c \<in> set rms) s \<and>
           sess p' h = (if c \<in> set rms then mark_closed s else s))"
    if "hm_get (sessions p) c = Some h" for c h
    using sel [OF that] tk [OF that] now by auto
  moreover have "same_env p p'" using pr s1(4) env0(1) by (blast intro: same_env_trans)
  ultimately show thesis
    using pr Q env0(2) rms by (intro that [of rms Q]) auto
qed

section \<open>Properties\<close>

lemma pruned_events_mem:
  "c \<in> set rms \<Longrightarrow> hm_get (sessions p) c = Some h \<Longrightarrow> Disconnected (peer_addr (sess p h)) \<in> set (pruned_events p rms)"
  by (force simp: pruned_events_def)

lemma pruned_resets_mem:
  "c \<in> set rms \<Longrightarrow> hm_get (sessions p) c = Some h \<Longrightarrow>
     (peer_addr (sess p h), encode_control Reset (conv_id (inner (sess p h)))) \<in> set (pruned_resets p rms)"
  by (force simp: pruned_resets_def Let_def)

text \<open>A peer whose configuration allows no retry, after a \<^verbatim>\<open>send\<close>.\<close>

lemma demo_gave_up:
  obtains p :: "mini_kcp kcp_peer" and h where "wf_peer p" "hm_get (sessions p) (CanonicalAddr (V4 2 9000)) = Some h"
    "gave_up (config p) (sess p h)"
proof -
  let ?p0 = "(demo_peer (V4 1 9000))\<lparr>config := config_default\<lparr>syn_max_retries := 0\<rparr>\<rparr>"
  have wf0: "wf_peer ?p0" and v0: "view ?p0 can = NoLink" for can
    by (simp_all add: demo_peer_def wf_peer_def table_ok_def view_def hm_get_def)
  obtain r p where run: "send (mini_api to_le_bytes) 7 (V4 2 9000) [1] ?p0 = (r, p)" by fastforce
  from moves_send [OF wf0 run] have mv: "wf_peer p" "view p (CanonicalAddr (V4 2 9000)) = Opening 7" "same_env ?p0 p"
    by (simp_all add: v0 moves_def)
  then obtain h where h: "hm_get (sessions p) (CanonicalAddr (V4 2 9000)) = Some h" "link_of (sess p h) = Opening 7"
    by (auto simp: view_def split: option.splits)
  from mv(3) have "syn_max_retries (config p) = 0" by (simp add: same_env_def)
  with h have "gave_up (config p) (sess p h)" by (simp add: gave_up_def link_of_cases)
  with mv(1) h(1) show thesis by (rule that)
qed

text \<open>
  C10. Pruning is complete and justified. At every tick, a session that has heard nothing for longer
  than \<^verbatim>\<open>session_timeout\<close>, one whose handshake has used up its retries and one whose
  link KCP has declared dead is removed: it is closed, a \<^verbatim>\<open>Disconnected\<close> event is fired and
  a RESET with its conversation id goes to its peer. And a session is removed for no other reason:
  whatever the tick removes was timed out, out of retries, or dead when KCP was updated.
\<close>

theorem update_tick_prunes:
  assumes "wf_peer p" and "p' = update_tick api p" and "hm_get (sessions p) can = Some h"
    and "s = sess p h" and "now = fst (epoch_ms (snd (current_ms (plat p))))"
  shows "(timed_out (config p) now s \<or> gave_up (config p) s \<or> dead api s \<longrightarrow>
      hm_get (sessions p') can = None \<and> closed (sess p' h) \<and>
      Disconnected (peer_addr s) \<in> set (drop (length (event_log p)) (event_log p')) \<and>
      (peer_addr s, encode_control Reset (conv_id (inner s))) \<in>
        set (drop (length (control_sent (plat p))) (control_sent (plat p')))) \<and>
    (hm_get (sessions p') can = None \<longrightarrow>
      timed_out (config p) now s \<or> gave_up (config p) s \<or> dead api (sess p' h)) \<and>
    (hm_get (sessions p') can \<noteq> None \<longrightarrow> hm_get (sessions p') can = Some h \<and> \<not> closed (sess p' h))"
  using assms(1,2)
proof (rule update_tick_spec)
  fix rms Q
  assume wf': "wf_peer p'" and ev: "event_log p' = event_log p @ pruned_events p rms"
    and ctl: "control_sent (plat p') = control_sent (plat p) @ retried p (filter Q (sessions p)) @ pruned_resets p rms"
    and each: "\<And>c h. hm_get (sessions p) c = Some h \<Longrightarrow>
       hm_get (sessions p') c = (if c \<in> set rms then None else Some h) \<and>
       (\<exists>s. ticked api (config p) (tick_now p) (sess p h) (c \<in> set rms) s \<and>
            sess p' h = (if c \<in> set rms then mark_closed s else s))"
  from each [OF assms(3)] obtain s1 where get: "hm_get (sessions p') can = (if can \<in> set rms then None else Some h)"
    and tk: "ticked api (config p) now s (can \<in> set rms) s1"
    and s': "sess p' h = (if can \<in> set rms then mark_closed s1 else s1)"
    using assms(4,5) by auto
  have open_s: "\<not> closed s" using wf_lookup(3) [OF assms(1,3)] assms(4) by simp
  have keep: "can \<notin> set rms \<Longrightarrow> \<not> closed (sess p' h)"
    using ticked_fields(1) [OF tk] s' open_s by (simp add: same_identity_def)
  have "dead api (sess p' h) = dead api s1" using s' by (simp add: dead_def)
  then show ?thesis
    using tk get s' open_s keep ev ctl pruned_events_mem [OF _ assms(3)] pruned_resets_mem [OF _ assms(3)] assms(4)
    by (auto simp: ticked_def)
qed

theorem update_tick_prunes_witness:
  "\<exists>p p' h. wf_peer p \<and> hm_get (sessions p) (CanonicalAddr (V4 2 9000)) = Some h \<and> gave_up (config p) (sess p h) \<and>
     p' = update_tick (mini_api to_le_bytes) p \<and>
     hm_get (sessions p') (CanonicalAddr (V4 2 9000)) = None \<and> closed (sess p' h)"
proof -
  obtain p :: "mini_kcp kcp_peer" and h where p: "wf_peer p" "hm_get (sessions p) (CanonicalAddr (V4 2 9000)) = Some h"
    "gave_up (config p) (sess p h)" by (rule demo_gave_up)
  from update_tick_prunes [OF p(1) refl p(2) refl refl, of "mini_api to_le_bytes"] p show ?thesis by blast
qed

text \<open>
  C21. What a tick does to the peer as a whole: it keeps the peer well formed, every link either stays
  as it was or disappears, and the events and control packets account for exactly that: one
  \<^verbatim>\<open>Disconnected\<close> per removed session, at most one SYN for each link whose handshake is
  under way, three RESETs per removed session, and nothing else.
\<close>

theorem update_tick_frame:
  assumes "wf_peer p" and "p' = update_tick api p"
  shows "\<exists>removed retry. wf_peer p' \<and> distinct removed \<and> set retry \<subseteq> set (sessions p) \<and> distinct retry \<and>
    (\<forall>can. view p' can = (if can \<in> set removed then NoLink else view p can)) \<and>
    (\<forall>can \<in> set removed. view p can \<noteq> NoLink) \<and>
    (\<forall>(can, h) \<in> set retry. view p can = Opening (conv_id (inner (sess p h)))) \<and>
    event_log p' = event_log p @ pruned_events p removed \<and>
    control_sent (plat p') = control_sent (plat p) @ retried p retry @ pruned_resets p removed"
  using assms
proof (rule update_tick_spec)
  fix rms Q
  assume a: "wf_peer p'" "distinct rms" "\<forall>c \<in> set rms. \<exists>h. hm_get (sessions p) c = Some h"
    "\<And>c. view p' c = (if c \<in> set rms then NoLink else view p c)"
    "event_log p' = event_log p @ pruned_events p rms"
    "control_sent (plat p') = control_sent (plat p) @ retried p (filter Q (sessions p)) @ pruned_resets p rms"
    and Q: "\<And>c h. (c, h) \<in> set (sessions p) \<Longrightarrow> Q (c, h) \<Longrightarrow> state (inner (sess p h)) = SynSent"
  have "distinct (sessions p)" using hm.entries_card wf_table_ok [OF assms(1)] by blast
  moreover have "\<forall>(can, h) \<in> set (filter Q (sessions p)). view p can = Opening (conv_id (inner (sess p h)))"
    using Q assms(1) by (auto simp: wf_table_entries view_Some link_of_cases)
  moreover have "\<forall>can \<in> set rms. view p can \<noteq> NoLink"
    using a(3) by (auto simp: view_Some link_of_cases)
  ultimately show ?thesis using a by (intro exI [of _ rms] exI [of _ "filter Q (sessions p)"]) auto
qed

theorem update_tick_frame_witness:
  "\<exists>removed. wf_peer (update_tick (mini_api to_le_bytes) demo_up) \<and>
     (\<forall>can. view (update_tick (mini_api to_le_bytes) demo_up) can =
        (if can \<in> set removed then NoLink else view demo_up can))"
  using update_tick_frame [OF demo_up_sel(1) refl, of "mini_api to_le_bytes"] by blast

end
