(* ===== verification/Peer_Steps.thy ===== *)
theory Peer_Steps
  imports Tick_Spec
begin

text \<open>
  The peer as a transition system: every operation of the application, every packet and every tick is
  a step, in any order; \<^verbatim>\<open>shutdown\<close> and \<^verbatim>\<open>drop\<close> consume the peer and end
  it. A locale states what an invariant of a transition system gives; it is
  interpreted for the well-formedness of the peer and for the protocol of its events. The theory also
  holds the properties of \<^verbatim>\<open>recv\<close>, \<^verbatim>\<open>peers\<close> and
  \<^verbatim>\<open>shutdown\<close>.
\<close>

section \<open>Steps\<close>

inductive peer_step :: "'k kcp_api \<Rightarrow> 'k kcp_peer \<Rightarrow> 'k kcp_peer \<Rightarrow> bool" for api where
  step_send: "conv \<noteq> 0 \<Longrightarrow> send api conv peer data p = (r, p') \<Longrightarrow> peer_step api p p'"
| step_recv: "recv p = (m, p') \<Longrightarrow> peer_step api p p'"
| step_stats: "stats api peer p = (st, p') \<Longrightarrow> peer_step api p p'"
| step_disconnect: "p' = disconnect peer p \<Longrightarrow> peer_step api p p'"
| step_incoming: "handle_incoming api data from p = Some (r, p') \<Longrightarrow> peer_step api p p'"
| step_tick: "p' = update_tick api p \<Longrightarrow> peer_step api p p'"

definition bound_peer :: "'k kcp_peer \<Rightarrow> bool" where
  "bound_peer p \<longleftrightarrow> (\<exists>bound inc cfg. bind_with bound inc cfg = Inr p)"

definition reachable :: "'k kcp_api \<Rightarrow> 'k kcp_peer \<Rightarrow> bool" where
  "reachable api p \<longleftrightarrow> (\<exists>p0. bound_peer p0 \<and> (peer_step api)\<^sup>*\<^sup>* p0 p)"

locale invariant_of =
  fixes init :: "'s \<Rightarrow> bool" and step :: "'s \<Rightarrow> 's \<Rightarrow> bool" and inv :: "'s \<Rightarrow> bool"
  assumes init_inv: "init s \<Longrightarrow> inv s"
    and step_inv: "inv s \<Longrightarrow> step s s' \<Longrightarrow> inv s'"
begin

lemma steps_inv: "step\<^sup>*\<^sup>* s s' \<Longrightarrow> inv s \<Longrightarrow> inv s'"
  by (induction rule: rtranclp_induct) (auto intro: step_inv)

lemma reach_inv: "init s \<Longrightarrow> step\<^sup>*\<^sup>* s s' \<Longrightarrow> inv s'"
  using steps_inv init_inv by blast

end

section \<open>Receiving\<close>

lemma recv_eq:
  "recv p =
     (if shutdown_token p then (Ready (Inl ShuttingDown), p)
      else case pending_data p of
             m # ms \<Rightarrow> (Ready (Inr m), p\<lparr>pending_data := ms\<rparr>)
           | [] \<Rightarrow> (Pending, p\<lparr>data_notify := False\<rparr>))"
proof (cases "pending_data p")
  case Nil
  then show ?thesis
    by (subst recv.simps) (simp add: recv.simps [of "p\<lparr>data_notify := False\<rparr>"])
next
  case Cons
  then show ?thesis by (subst recv.simps) simp
qed

lemma recv_frame:
  assumes "recv p = (m, p')"
  shows "\<exists>ms b. p' = p\<lparr>pending_data := ms, data_notify := b\<rparr>"
proof -
  have "\<exists>ms b. q = p\<lparr>pending_data := ms, data_notify := b\<rparr>"
    if "q = p \<or> q = p\<lparr>data_notify := False\<rparr> \<or> q = p\<lparr>pending_data := tl (pending_data p)\<rparr>" for q
    using that
    by (intro exI [of _ "pending_data q"] exI [of _ "data_notify q"]) auto
  with assms show ?thesis by (cases "pending_data p") (auto simp: recv_eq split: if_splits)
qed

fun recv_times :: "nat \<Rightarrow> 'k kcp_peer \<Rightarrow> data_message result poll list \<times> 'k kcp_peer" where
  "recv_times 0 p = ([], p)"
| "recv_times (Suc n) p =
     (case recv p of (r, p1) \<Rightarrow> (case recv_times n p1 of (rs, p2) \<Rightarrow> (r # rs, p2)))"

lemma recv_times_eq:
  "fst (recv_times n p) =
     (if shutdown_token p then replicate n (Ready (Inl ShuttingDown))
      else map (\<lambda>m. Ready (Inr m)) (take n (pending_data p)) @ replicate (n - length (pending_data p)) Pending) \<and>
   pending_data (snd (recv_times n p)) =
     (if shutdown_token p then pending_data p else drop n (pending_data p))"
proof (induction n arbitrary: p)
  case (Suc n)
  show ?case
    using Suc.IH [of p] Suc.IH [of "p\<lparr>data_notify := False\<rparr>"] Suc.IH [of "p\<lparr>pending_data := tl (pending_data p)\<rparr>"]
    by (cases "pending_data p") (auto simp: recv_eq split: prod.splits)
qed simp

section \<open>Well-formedness\<close>

definition peer_ok :: "'k kcp_peer \<Rightarrow> bool" where
  "peer_ok p \<longleftrightarrow> wf_peer p \<and> sock_local_addr (plat p) = Inr (local_addr p)"

lemma same_env_local: "same_env p p' \<Longrightarrow> sock_local_addr (plat p) = Inr (local_addr p) \<Longrightarrow>
    sock_local_addr (plat p') = Inr (local_addr p')"
  by (simp add: same_env_def same_oracles_def)

lemma stats_frame:
  assumes st: "stats api peer p = (st, p')"
  shows "\<exists>w. p' = p\<lparr>plat := w\<rparr> \<and> same_oracles (plat p) w \<and> offered w = offered (plat p)"
proof -
  obtain t w where ep: "epoch_ms (plat p) = (t, w)" by fastforce
  have "p' = p\<lparr>plat := plat p\<rparr> \<or> p' = p\<lparr>plat := w\<rparr>"
    using st ep by (auto simp: stats_def Let_def split: option.splits if_splits)
  with epoch_ms_facts(1,2) [OF ep] show ?thesis by blast
qed

text \<open>
  What can happen to one link in a step: nothing, a handshake of our own, its removal, or a packet.
\<close>

inductive link_step :: "sock_addr \<Rightarrow> link \<Rightarrow> link \<Rightarrow> event list \<Rightarrow> bool" where
  stay: "link_step a l l []"
| opened: "link_step a NoLink (Opening c) []"
| gone: "l \<noteq> NoLink \<Longrightarrow> link_step a l NoLink [Disconnected a]"
| packet: "link_packet yield a data l = (l', evs, ctl) \<Longrightarrow> link_step a l l' evs"

text \<open>
  Every step as a change of links: for a step of the application or of the network there is one
  address whose link moves, for a tick several links may disappear.
\<close>

lemma peer_okI: "wf_peer p' \<Longrightarrow> same_env p p' \<Longrightarrow> peer_ok p \<Longrightarrow> peer_ok p'"
  by (auto simp: peer_ok_def intro: same_env_local)

lemma peer_step_moves [consumes 2, case_names move tick]:
  assumes "peer_ok p" and "peer_step api p p'"
  obtains a l evs ctl where "moves p (canonicalize a) l evs ctl p'" "link_step a (view p (canonicalize a)) l evs"
  | "p' = update_tick api p"
proof -
  have wf: "wf_peer p" and my: "sock_local_addr (plat p) = Inr (local_addr p)"
    using assms(1) by (simp_all add: peer_ok_def)
  from assms(2) show thesis
  proof (cases rule: peer_step.cases)
    case (step_send conv peer data r)
    from moves_send [OF wf step_send(2)] show thesis
      using that(1) [of peer, OF _ stay] that(1) [of peer] opened [of peer conv]
      by (cases "view p (canonicalize peer) = NoLink") auto
  next
    case (step_recv m)
    then obtain ms b where "p' = p\<lparr>pending_data := ms, data_notify := b\<rparr>" using recv_frame by blast
    with moves_refl [OF wf] show thesis by (intro that(1) [OF _ stay]) simp
  next
    case (step_stats peer st)
    then obtain w where w: "p' = p\<lparr>plat := w\<rparr>" "same_oracles (plat p) w" "offered w = offered (plat p)"
      using stats_frame by blast
    from moves_quiet [OF moves_refl [OF wf] w(2), where ctl' = "[]"] control_sent_eq [OF w(3)] w(1) show thesis
      by (intro that(1) [OF _ stay]) simp
  next
    case (step_disconnect peer)
    with moves_disconnect [OF wf, of peer] moves_refl [OF wf, of "canonicalize peer"] show thesis
      using that(1) [of peer, OF _ stay] that(1) [of peer] gone [of "view p (canonicalize peer)" peer]
      by (cases "view p (canonicalize peer)") auto
  next
    case (step_incoming data "from" r)
    obtain l evs ctl where lp: "link_packet (local_addr p < from) from data (view p (canonicalize from)) = (l, evs, ctl)"
      by (metis prod_cases3)
    from moves_incoming [OF wf my lp step_incoming] packet [OF lp] show thesis by (rule that(1))
  next
    case step_tick
    then show thesis by (rule that(2))
  qed
qed

lemma bind_with_fields:
  "bind_with bound inc cfg = Inr p \<Longrightarrow>
     sock_local_addr (plat p) = Inr (local_addr p) \<and> event_log p = [] \<and> \<not> shutdown_token p"
  by (auto simp: bind_with_def split: sum.splits)

lemma peer_ok_bound: "bound_peer p \<Longrightarrow> peer_ok p"
  unfolding bound_peer_def peer_ok_def using bind_with_wf bind_with_fields by blast

lemma peer_ok_step:
  assumes "peer_ok p" and "peer_step api p p'"
  shows "peer_ok p'"
  using assms
proof (cases rule: peer_step_moves)
  case (move a l evs ctl)
  with assms(1) show ?thesis by (auto simp: moves_def intro: peer_okI)
next
  case tick
  have "wf_peer p" using assms(1) by (simp add: peer_ok_def)
  from this tick have "wf_peer p' \<and> same_env p p'" by (rule update_tick_spec) blast
  with assms(1) show ?thesis by (blast intro: peer_okI)
qed

interpretation ok: invariant_of bound_peer "peer_step api" peer_ok for api
  by unfold_locales (fact peer_ok_bound, fact peer_ok_step)

section \<open>The protocol of the events\<close>

datatype phase = Down | Connected_phase | Restarting

fun ev_step :: "phase \<Rightarrow> event \<Rightarrow> phase option" where
  "ev_step Down (Connected _) = Some Connected_phase"
| "ev_step Down (Disconnected _) = Some Down"
| "ev_step Connected_phase (Disconnected _) = Some Down"
| "ev_step Connected_phase (PeerRestarted _) = Some Restarting"
| "ev_step Restarting (Connected _) = Some Connected_phase"
| "ev_step _ _ = None"

fun run_events :: "phase \<Rightarrow> event list \<Rightarrow> phase option" where
  "run_events ph [] = Some ph"
| "run_events ph (e # es) = (case ev_step ph e of None \<Rightarrow> None | Some ph' \<Rightarrow> run_events ph' es)"

fun event_addr :: "event \<Rightarrow> sock_addr" where
  "event_addr (Connected a) = a"
| "event_addr (Disconnected a) = a"
| "event_addr (PeerRestarted a) = a"

definition events_for :: "canonical_addr \<Rightarrow> event list \<Rightarrow> event list" where
  "events_for can = filter (\<lambda>e. canonicalize (event_addr e) = can)"

fun phase_of :: "link \<Rightarrow> phase" where
  "phase_of (Up _) = Connected_phase"
| "phase_of _ = Down"

lemma run_events_append:
  "run_events ph (xs @ ys) = (case run_events ph xs of None \<Rightarrow> None | Some ph' \<Rightarrow> run_events ph' ys)"
  by (induction xs arbitrary: ph) (auto split: option.split)

lemma events_for_append [simp]: "events_for can (xs @ ys) = events_for can xs @ events_for can ys"
  by (simp add: events_for_def)

lemma link_packet_events:
  assumes "link_packet yield a data l = (l', evs, ctl)"
  shows "run_events (phase_of l) evs = Some (phase_of l') \<and> (\<forall>e \<in> set evs. event_addr e = a)"
proof (cases "decode_control data")
  case None
  with assms show ?thesis by (auto simp: link_packet_def)
next
  case (Some tc)
  obtain t c where "tc = (t, c)" by fastforce
  with Some assms have "link_on yield a t c l = (l', evs, ctl)" by (simp add: link_packet_def)
  then show ?thesis
    by (cases t; cases l) (auto simp: link_reset_def link_data_def Let_def split: if_splits)
qed

lemma link_step_events:
  assumes "link_step a l l' evs"
  shows "run_events (phase_of l) evs = Some (phase_of l') \<and> (\<forall>e \<in> set evs. event_addr e = a)"
  using assms
proof (cases rule: link_step.cases)
  case gone
  then show ?thesis by (cases l) auto
qed (use link_packet_events in auto)

definition event_inv :: "'k kcp_peer \<Rightarrow> bool" where
  "event_inv p \<longleftrightarrow> peer_ok p \<and>
     (\<forall>can. run_events Down (events_for can (event_log p)) = Some (phase_of (view p can)))"

lemma events_for_move:
  assumes "\<forall>e \<in> set evs. event_addr e = a"
  shows "events_for can evs = (if canonicalize a = can then evs else [])"
  using assms by (auto simp: events_for_def filter_id_conv filter_empty_conv)

lemma events_for_pruned:
  assumes "wf_peer p" and "distinct rms" and "\<forall>c \<in> set rms. \<exists>h. hm_get (sessions p) c = Some h"
  shows "events_for can (pruned_events p rms) =
    (if can \<in> set rms then [Disconnected (peer_addr (sess p (the (hm_get (sessions p) can))))] else [])"
proof -
  have "canonicalize (peer_addr (sess p (the (hm_get (sessions p) c)))) = c" if "c \<in> set rms" for c
    using that assms(3) wf_lookup(2) [OF assms(1)] by (fastforce simp: session_at_def)
  with assms(2) show ?thesis
    by (induction rms) (auto simp: pruned_events_def events_for_def filter_empty_conv)
qed

lemma event_inv_step:
  assumes inv: "event_inv p" and step: "peer_step api p p'"
  shows "event_inv p'"
proof -
  have ok: "peer_ok p" and run: "run_events Down (events_for can (event_log p)) = Some (phase_of (view p can))" for can
    using inv by (simp_all add: event_inv_def)
  have ok': "peer_ok p'" using ok step by (rule peer_ok_step)
  from ok step have "run_events Down (events_for can (event_log p')) = Some (phase_of (view p' can))" for can
  proof (cases rule: peer_step_moves)
    case (move a l evs ctl)
    note ev = link_step_events [OF move(2)]
    have "event_log p' = event_log p @ evs" using move(1) by (simp add: moves_def)
    then show ?thesis
      using ev run [of can] moves_view [OF move(1)] events_for_move [of evs a can]
      by (auto simp: run_events_append)
  next
    case tick
    have wf: "wf_peer p" using ok by (simp add: peer_ok_def)
    from this tick show ?thesis
    proof (rule update_tick_spec)
      fix rms
      assume "distinct rms" "\<forall>c \<in> set rms. \<exists>h. hm_get (sessions p) c = Some h"
        and "\<And>c. view p' c = (if c \<in> set rms then NoLink else view p c)"
        and "event_log p' = event_log p @ pruned_events p rms"
      with events_for_pruned [OF wf, of rms can] run [of can] show ?thesis
        by (cases "view p can") (auto simp: run_events_append)
    qed
  qed
  with ok' show ?thesis by (simp add: event_inv_def)
qed

lemma event_inv_bound: "bound_peer p \<Longrightarrow> event_inv p"
  unfolding event_inv_def
proof (intro conjI allI)
  assume b: "bound_peer p"
  then show "peer_ok p" by (rule peer_ok_bound)
  fix can
  from b have "event_log p = []" "view p can = NoLink"
    using bind_with_wf bind_with_fields unfolding bound_peer_def by fastforce+
  then show "run_events Down (events_for can (event_log p)) = Some (phase_of (view p can))"
    by (simp add: events_for_def)
qed

interpretation events: invariant_of bound_peer "peer_step api" event_inv for api
  by unfold_locales (fact event_inv_bound, fact event_inv_step)

section \<open>Listing and shutting down\<close>

lemma wf_peers:
  assumes "wf_peer p"
  shows "peers p = map (\<lambda>(c, h). peer_addr (sess p h)) (sessions p)"
    "map canonicalize (peers p) = map fst (sessions p)"
proof -
  have "filter (\<lambda>s. \<not> closed s) (map (sess p) (hm_values (sessions p))) = map (sess p) (hm_values (sessions p))"
    using assms wf_lookup(3) [OF assms] by (auto simp: filter_id_conv hm_values_def wf_table_entries)
  then show peers: "peers p = map (\<lambda>(c, h). peer_addr (sess p h)) (sessions p)"
    by (simp add: peers_def hm_values_def split_def)
  show "map canonicalize (peers p) = map fst (sessions p)"
    unfolding peers using assms wf_lookup(2) [OF assms] by (auto simp: session_at_def wf_table_entries)
qed

lemma reset_all_spec:
  assumes "distinct hs" and "\<forall>h \<in> set hs. h < length (arena p)" and "p' = reset_all hs p"
  shows "sessions p' = sessions p \<and> event_log p' = event_log p \<and> shutdown_token p' = shutdown_token p \<and>
    pending_data p' = pending_data p \<and>
    (\<forall>h. sess p' h = (if h \<in> set hs then mark_closed (sess p h) else sess p h)) \<and>
    offered (plat p') = offered (plat p) @
      concat (map (\<lambda>h. replicate 3 (peer_addr (sess p h), encode_control Reset (conv_id (inner (sess p h))))) hs)"
  using assms
proof (induction hs arbitrary: p)
  case (Cons h hs)
  let ?q = "send_resets (conv_id (inner (sess p h))) (peer_addr (sess p h)) (close_session h p)"
  have h: "h < length (arena p)" "h \<notin> set hs" using Cons.prems by auto
  have q: "sess ?q h' = (if h' = h then mark_closed (sess p h) else sess p h')" for h'
    using h(1) by (simp add: sess_close_session)
  have "p' = reset_all hs ?q" using Cons.prems(3) h(1) by (simp add: Let_def sess_close_session)
  from Cons.IH [OF _ _ this] Cons.prems h q show ?case
    by (auto simp: intro!: arg_cong [of _ _ concat] map_cong)
qed simp

section \<open>A run\<close>

lemma demo_up_reachable: "reachable (mini_api to_le_bytes) demo_up"
proof -
  have "bound_peer (demo_peer (V4 1 9000))" unfolding bound_peer_def using demo_peer_bind by blast
  moreover have "peer_step (mini_api to_le_bytes) (demo_peer (V4 1 9000)) demo_up"
    by (rule step_incoming [of _ "encode_control Syn 7" "V4 2 9000"
          _ "fst (on_syn (mini_api to_le_bytes) (to_le_bytes 7) (V4 2 9000) (demo_peer (V4 1 9000)))"])
      (simp add: handle_incoming_def demo_up_def)
  ultimately show ?thesis unfolding reachable_def by blast
qed

section \<open>Properties\<close>

text \<open>
  C4. Every reachable peer is well formed: from binding on, through any sequence of sends, receives,
  statistics calls, disconnects, packets with arbitrary bytes from arbitrary addresses and ticks, the
  session map has at most one session per canonical address, each entry is an allocated session for
  that very address whose output goes there, and the open sessions are exactly those in the map: no
  session is leaked open, none in the map is closed.
\<close>

theorem reachable_wf:
  assumes "reachable api p"
  shows "wf_peer p"
  using assms ok.reach_inv unfolding reachable_def peer_ok_def by blast

theorem reachable_wf_witness: "reachable (mini_api to_le_bytes) demo_up \<and> wf_peer demo_up"
  using reachable_wf demo_up_reachable by blast

text \<open>
  C5. The events follow a protocol, and the application can rely on them. In every reachable peer, the
  events about one canonical address form a run of a three-state machine: \<^verbatim>\<open>Connected\<close> only
  when down or after \<^verbatim>\<open>PeerRestarted\<close>, \<^verbatim>\<open>PeerRestarted\<close> only when
  connected and always followed by \<^verbatim>\<open>Connected\<close>, never two
  \<^verbatim>\<open>Connected\<close> in a row; and the state it ends in is connected iff the link to that
  address is established now.
\<close>

theorem event_protocol:
  assumes "reachable api p"
  shows "\<exists>ph. run_events Down (events_for can (event_log p)) = Some ph \<and> ph \<noteq> Restarting \<and>
    (ph = Connected_phase \<longleftrightarrow> (\<exists>c. view p can = Up c))"
proof -
  have "event_inv p" using assms events.reach_inv unfolding reachable_def by blast
  then show ?thesis by (cases "view p can") (auto simp: event_inv_def)
qed

theorem event_protocol_witness:
  "reachable (mini_api to_le_bytes) demo_up \<and>
   (\<exists>ph. run_events Down (events_for (CanonicalAddr (V4 2 9000)) (event_log demo_up)) = Some ph \<and>
      ph = Connected_phase)"
  using event_protocol [OF demo_up_reachable, of "CanonicalAddr (V4 2 9000)"] demo_up_reachable demo_up_moves
  by (auto simp: moves_def)

text \<open>
  \<^verbatim>\<open>peers\<close> lists every link exactly once: in a reachable peer no two listed addresses
  have the same canonical form, and an address is listed, up to its spelling, iff there is a session
  for it, established or with the handshake under way.
\<close>

theorem peers_complete:
  assumes "reachable api p"
  shows "distinct (map canonicalize (peers p)) \<and>
    (can \<in> canonicalize ` set (peers p) \<longleftrightarrow> view p can \<noteq> NoLink)"
proof -
  have wf: "wf_peer p" using assms ok.reach_inv unfolding reachable_def peer_ok_def by blast
  have "can \<in> fst ` set (sessions p) \<longleftrightarrow> view p can \<noteq> NoLink"
    using map_of_eq_None_iff [of "sessions p" can]
    by (cases "map_of (sessions p) can") (simp_all add: view_def link_of_cases hm_get_def)
  with wf_peers(2) [OF wf] wf_table_ok [OF wf] show ?thesis
    unfolding table_ok_def by (metis set_map)
qed

theorem peers_complete_witness:
  "reachable (mini_api to_le_bytes) demo_up \<and> CanonicalAddr (V4 2 9000) \<in> canonicalize ` set (peers demo_up)"
  using peers_complete [OF demo_up_reachable, of "CanonicalAddr (V4 2 9000)"] demo_up_reachable demo_up_moves
  by (auto simp: moves_def)

text \<open>
  C28. \<^verbatim>\<open>shutdown\<close>: every session in the map is closed, three RESETs with its conversation id
  go to its peer, nothing else is put on the wire and no event is fired; afterwards
  \<^verbatim>\<open>recv\<close> only returns \<^verbatim>\<open>ShuttingDown\<close>, no peer is listed, and the
  background tasks do nothing more.
\<close>

theorem shutdown_spec:
  assumes "wf_peer p" and "p' = shutdown p"
  shows "(\<forall>h < length (arena p). closed (sess p' h)) \<and> event_log p' = event_log p \<and>
    offered (plat p') = offered (plat p) @
      concat (map (\<lambda>(can, h). replicate 3 (peer_addr (sess p h), encode_control Reset (conv_id (inner (sess p h)))))
        (sessions p)) \<and>
    fst (recv p') = Ready (Inl ShuttingDown) \<and> peers p' = [] \<and>
    receive_task api rxs p' = Some p' \<and> update_task api n p' = p'"
proof -
  let ?p1 = "p\<lparr>shutdown_token := True\<rparr>" and ?hs = "hm_values (sessions p)"
  have d: "distinct ?hs" "\<forall>h \<in> set ?hs. h < length (arena ?p1)"
    using wf_handles_distinct [OF assms(1)] wf_lookup(1) [OF assms(1)] assms(1)
    by (auto simp: hm_values_def wf_table_entries)
  have p': "p' = reset_all ?hs ?p1" using assms(2) by (simp add: shutdown_def)
  note ra = reset_all_spec [OF d p']
  have all: "closed (sess p' h)" if "h < length (arena p)" for h
    using ra assms(1) that by (auto simp: wf_peer_def hm_values_def)
  have tok: "shutdown_token p'" using ra by simp
  moreover have "fst (recv p') = Ready (Inl ShuttingDown)" using tok by (simp add: recv_eq)
  moreover have "peers p' = []"
    using ra d(2) all by (auto simp: peers_def filter_empty_conv)
  moreover have "receive_task api rxs p' = Some p'" using tok by (cases rxs) simp_all
  moreover have "update_task api n p' = p'" using tok by (cases n) simp_all
  ultimately show ?thesis using ra all by (simp add: hm_values_def comp_def split_def)
qed

theorem shutdown_spec_witness:
  "\<exists>p'. wf_peer demo_up \<and> p' = shutdown demo_up \<and> peers p' = [] \<and> fst (recv p') = Ready (Inl ShuttingDown)"
  using shutdown_spec [OF demo_up_sel(1) refl] by auto

end
