(* ===== verification/Two_Peers.thy ===== *)
theory Two_Peers
  imports Peer_Steps
begin

text \<open>
  Two peers and the packets between them. Peer \<open>A\<close> is reached at address \<open>a\<close>, peer \<open>B\<close> at
  address \<open>b\<close>: a packet of \<open>A\<close> arrives at \<open>B\<close> with source \<open>a\<close>. The theory follows the
  packets of the recovery after a restart, and the situations in which the two sides end up with
  different conversation ids or do not get connected at all.
\<close>

section \<open>Handshake steps\<close>

lemma incoming_control:
  assumes "wf_peer p" and "sock_local_addr (plat p) = Inr my"
    and "handle_incoming api (encode_control t c) from p = Some (r, p')"
    and "link_on (my < from) from t c (view p (canonicalize from)) = (l, evs, ctl)"
  shows "moves p (canonicalize from) l evs (reply_to from ctl) p'"
  using assms by (intro moves_incoming [OF assms(1,2)]) (auto simp: link_packet_def decode_encode_control)

lemma moves_local:
  "moves p can l evs ctl p' \<Longrightarrow> sock_local_addr (plat p) = Inr my \<Longrightarrow> sock_local_addr (plat p') = Inr my"
  by (simp add: moves_def same_env_def same_oracles_def)

section \<open>Restart\<close>

lemma restart_sessions:
  assumes wf: "wf_peer p" and my: "sock_local_addr (plat p) = Inr my"
    and get: "hm_get (sessions p) (canonicalize from) = Some h"
    and est: "state (inner (sess p h)) = Established" "conv_id (inner (sess p h)) \<noteq> conv"
    and run: "handle_incoming api (encode_control Syn conv) from p = Some (r, p')"
  shows "closed (sess p' h)" "hm_get (sessions p') (canonicalize from) = Some (length (arena p))"
    "kcp (inner (sess p' (length (arena p)))) = apply_to api (config p) (api_new api conv)"
proof -
  have c: "read_conv (to_le_bytes conv) = Some conv" using read_conv_to_le_bytes [of conv "[]"] by simp
  have p': "p' = syn_create api conv from (emit (PeerRestarted from) (close_session h p))"
    using run get est my c
    by (simp add: handle_incoming_def syn_defs Let_def)
  let ?q = "close_session h p"
  obtain s w where ni: "new_inbound api conv from (own_incarnation p) (config p) (plat p) = (s, w)" by fastforce
  have s: "kcp (inner s) = apply_to api (config p) (api_new api conv)"
    using ni by (auto simp: new_inbound_def Let_def split: prod.splits)
  have "arena p' = arena ?q @ [s]" "sessions p' = hm_insert (canonicalize from) (length (arena p)) (sessions p)"
    using ni unfolding p' by (simp_all add: syn_create_def insert_inbound_def alloc_def)
  with wf_lookup(1) [OF wf get] s show "closed (sess p' h)"
    "hm_get (sessions p') (canonicalize from) = Some (length (arena p))"
    "kcp (inner (sess p' (length (arena p)))) = apply_to api (config p) (api_new api conv)"
    by (simp_all add: sess_def nth_append close_session_def set_sess_def)
qed

section \<open>Two peers to run\<close>

text \<open>A peer that has sent to an address and waits for the SYN_ACK.\<close>

definition demo_opening :: "sock_addr \<Rightarrow> u32 \<Rightarrow> sock_addr \<Rightarrow> mini_kcp kcp_peer" where
  "demo_opening me conv peer = snd (send (mini_api to_le_bytes) conv peer [1] (demo_peer me))"

lemma demo_opening_sel [simp]:
  "wf_peer (demo_opening me conv peer)" "view (demo_opening me conv peer) (canonicalize peer) = Opening conv"
  "sock_local_addr (plat (demo_opening me conv peer)) = Inr me"
proof -
  obtain r p where run: "send (mini_api to_le_bytes) conv peer [1] (demo_peer me) = (r, p)" by fastforce
  then have p: "demo_opening me conv peer = p" by (simp add: demo_opening_def)
  from moves_send [OF _ run] have mv: "moves (demo_peer me) (canonicalize peer) (Opening conv) []
      [(peer, encode_control Syn conv)] p" by simp
  from mv moves_local [OF mv] show "wf_peer (demo_opening me conv peer)"
    "view (demo_opening me conv peer) (canonicalize peer) = Opening conv"
    "sock_local_addr (plat (demo_opening me conv peer)) = Inr me"
    unfolding p by (simp_all add: moves_def)
qed

lemma mini_returns:
  obtains r p' where "handle_incoming (mini_api to_le_bytes) data from p = Some (r, p')"
  using handle_incoming_returns [OF mini_recv_laws] by blast

section \<open>Properties\<close>

text \<open>
  C19. Recovery after a restart: a SYN with a new conversation id for an established session closes the
  old session, whose handle only returns \<^verbatim>\<open>SessionClosed\<close> from then on, and puts a new one with
  a fresh KCP state in its place, established on the new id; the application sees
  \<^verbatim>\<open>PeerRestarted\<close> and then \<^verbatim>\<open>Connected\<close>, and the SYN is acknowledged.
\<close>

theorem crash_recovery:
  assumes "wf_peer p" and "sock_local_addr (plat p) = Inr my"
    and "hm_get (sessions p) (canonicalize from) = Some h" and "view p (canonicalize from) = Up old"
    and "conv \<noteq> old" and "handle_incoming api (encode_control Syn conv) from p = Some (r, p')"
  shows "view p' = (view p)(canonicalize from := Up conv) \<and>
    event_log p' = event_log p @ [PeerRestarted from, Connected from] \<and>
    control_sent (plat p') = control_sent (plat p) @ [(from, encode_control SynAck conv)] \<and>
    fst (on_session (send_data api data) h p') = Inl SessionClosed \<and>
    (\<exists>h'. h' \<noteq> h \<and> hm_get (sessions p') (canonicalize from) = Some h' \<and>
       kcp (inner (sess p' h')) = apply_to api (config p) (api_new api conv))"
proof -
  have mv: "moves p (canonicalize from) (Up conv) [PeerRestarted from, Connected from] (reply_to from [(SynAck, conv)]) p'"
    by (rule incoming_control [OF assms(1,2,6)]) (use assms(4,5) in auto)
  have est: "state (inner (sess p h)) = Established" "conv_id (inner (sess p h)) \<noteq> conv"
    using assms(4,5) view_Some [OF assms(3)] by (auto simp: link_of_cases)
  note rs = restart_sessions [OF assms(1-3) est assms(6)]
  have "length (arena p) \<noteq> h" using wf_lookup(1) [OF assms(1,3)] by simp
  moreover have "fst (on_session (send_data api data) h p') = Inl SessionClosed"
    using rs(1) by (simp add: on_session_def send_data_def)
  ultimately show ?thesis using mv moves_view [OF mv] rs by (auto simp: moves_def)
qed

theorem crash_recovery_witness:
  "\<exists>r p'. handle_incoming (mini_api to_le_bytes) (encode_control Syn 9) (V4 2 9000) demo_up = Some (r, p') \<and>
     event_log p' = event_log demo_up @ [PeerRestarted (V4 2 9000), Connected (V4 2 9000)] \<and>
     fst (on_session (send_data (mini_api to_le_bytes) [1]) 0 p') = Inl SessionClosed"
proof -
  obtain r p' where run: "handle_incoming (mini_api to_le_bytes) (encode_control Syn 9) (V4 2 9000) demo_up = Some (r, p')"
    by (rule mini_returns)
  have "view demo_up (CanonicalAddr (V4 2 9000)) = Up 7" "sock_local_addr (plat demo_up) = Inr (V4 1 9000)"
    using demo_up_moves moves_local [OF demo_up_moves, of "V4 1 9000"] by (simp_all add: moves_def)
  with crash_recovery [OF demo_up_sel(1) _ _ _ _ run, of "V4 1 9000" 0 7 "[1]"] run show ?thesis by auto
qed

text \<open>
  C37. The tie-break needs the address as the other side sees it. When both sides compare with a local
  address below the other's, as with two sockets bound to the wildcard address, each adopts the
  other's id: both report \<^verbatim>\<open>Connected\<close> with the two ids exchanged, so that neither side's
  KCP accepts the packets of the other.
\<close>

theorem wildcard_bind_swaps:
  assumes "wf_peer A" and "sock_local_addr (plat A) = Inr my_a"
    and "wf_peer B" and "sock_local_addr (plat B) = Inr my_b"
    and "my_a < b" and "my_b < a"
    and "view A (canonicalize b) = Opening ca" and "view B (canonicalize a) = Opening cb" and "ca \<noteq> cb"
    and "handle_incoming api (encode_control Syn cb) b A = Some (ra, A1)"
    and "handle_incoming api (encode_control Syn ca) a B = Some (rb, B1)"
    and "handle_incoming api (encode_control SynAck ca) b A1 = Some (ra', A2)"
    and "handle_incoming api (encode_control SynAck cb) a B1 = Some (rb', B2)"
  shows "control_sent (plat B1) = control_sent (plat B) @ [(a, encode_control SynAck ca)] \<and>
    control_sent (plat A1) = control_sent (plat A) @ [(b, encode_control SynAck cb)] \<and>
    view A2 (canonicalize b) = Up cb \<and> view B2 (canonicalize a) = Up ca \<and>
    event_log A2 = event_log A @ [Connected b] \<and> event_log B2 = event_log B @ [Connected a]"
proof -
  have a1: "moves A (canonicalize b) (Up cb) [Connected b] (reply_to b [(SynAck, cb)]) A1"
    by (rule incoming_control [OF assms(1,2,10)]) (use assms(5,7,9) in \<open>auto simp: Let_def\<close>)
  have b1: "moves B (canonicalize a) (Up ca) [Connected a] (reply_to a [(SynAck, ca)]) B1"
    by (rule incoming_control [OF assms(3,4,11)]) (use assms(6,8,9) in \<open>auto simp: Let_def\<close>)
  have v: "view A1 (canonicalize b) = Up cb" "view B1 (canonicalize a) = Up ca"
    using a1 b1 by (simp_all add: moves_def)
  have a2: "moves A1 (canonicalize b) (Up cb) [] (reply_to b []) A2"
    by (rule incoming_control [OF moves_wf [OF a1] moves_local [OF a1 assms(2)] assms(12)]) (simp add: v)
  have b2: "moves B1 (canonicalize a) (Up ca) [] (reply_to a []) B2"
    by (rule incoming_control [OF moves_wf [OF b1] moves_local [OF b1 assms(4)] assms(13)]) (simp add: v)
  from a1 b1 a2 b2 show ?thesis by (simp add: moves_def)
qed

theorem wildcard_bind_swaps_witness:
  "\<exists>ra A1 rb B1 ra' A2 rb' B2.
     handle_incoming (mini_api to_le_bytes) (encode_control Syn 8) (V4 2 9000) (demo_opening (V4 0 9000) 7 (V4 2 9000)) =
       Some (ra, A1) \<and>
     handle_incoming (mini_api to_le_bytes) (encode_control Syn 7) (V4 1 9000) (demo_opening (V4 0 9000) 8 (V4 1 9000)) =
       Some (rb, B1) \<and>
     handle_incoming (mini_api to_le_bytes) (encode_control SynAck 7) (V4 2 9000) A1 = Some (ra', A2) \<and>
     handle_incoming (mini_api to_le_bytes) (encode_control SynAck 8) (V4 1 9000) B1 = Some (rb', B2) \<and>
     view A2 (canonicalize (V4 2 9000)) = Up 8 \<and> view B2 (canonicalize (V4 1 9000)) = Up 7"
proof -
  let ?a = "V4 1 9000" and ?b = "V4 2 9000" and ?any = "V4 0 9000" and ?api = "mini_api to_le_bytes"
  have lt: "?any < ?a" "?any < ?b" by (simp_all add: sock_addr_less_iff less_prod_def)
  obtain ra A1 where ha: "handle_incoming ?api (encode_control Syn 8) ?b (demo_opening ?any 7 ?b) = Some (ra, A1)"
    by (rule mini_returns)
  obtain rb B1 where hb: "handle_incoming ?api (encode_control Syn 7) ?a (demo_opening ?any 8 ?a) = Some (rb, B1)"
    by (rule mini_returns)
  obtain ra' A2 where ha': "handle_incoming ?api (encode_control SynAck 7) ?b A1 = Some (ra', A2)" by (rule mini_returns)
  obtain rb' B2 where hb': "handle_incoming ?api (encode_control SynAck 8) ?a B1 = Some (rb', B2)" by (rule mini_returns)
  have "view A2 (canonicalize ?b) = Up 8 \<and> view B2 (canonicalize ?a) = Up 7"
    using wildcard_bind_swaps [of "demo_opening ?any 7 ?b" ?any "demo_opening ?any 8 ?a" ?any ?b ?a 7 8 ?api
        ra A1 rb B1 ra' A2 rb' B2] ha hb ha' hb' lt
    by (simp only: demo_opening_sel) simp
  with ha hb ha' hb' show ?thesis by blast
qed

text \<open>
  C35. A second SYN undoes the agreement. In a simultaneous open \<open>B\<close> gives way to \<open>A\<close>'s
  conversation, and \<open>A\<close> is established on it after \<open>B\<close>'s SYN or its SYN_ACK. Any further SYN
  of \<open>B\<close>, its first one arriving late or a retry, is then taken by \<open>A\<close> for a restart: \<open>A\<close>
  drops the established session for one on \<open>B\<close>'s abandoned id, while \<open>B\<close> ignores the SYN_ACK
  and stays on \<open>A\<close>'s.
\<close>

theorem late_syn_splits:
  assumes "wf_peer A" and "sock_local_addr (plat A) = Inr a"
    and "wf_peer B" and "sock_local_addr (plat B) = Inr b" and "b < a"
    and "view A (canonicalize b) = Opening ca" and "view B (canonicalize a) = Opening cb" and "ca \<noteq> cb"
    and "handle_incoming api (encode_control Syn ca) a B = Some (rb, B1)"
    and "m = encode_control SynAck ca \<or> m = encode_control Syn cb"
    and "handle_incoming api m b A = Some (ra, A1)"
    and "handle_incoming api (encode_control Syn cb) b A1 = Some (ra', A2)"
    and "handle_incoming api (encode_control SynAck cb) a B1 = Some (rb', B2)"
  shows "control_sent (plat B1) = control_sent (plat B) @ [(a, encode_control SynAck ca)] \<and>
    view A1 (canonicalize b) = Up ca \<and> view B1 (canonicalize a) = Up ca \<and>
    control_sent (plat A2) = control_sent (plat A1) @ [(b, encode_control SynAck cb)] \<and>
    view A2 (canonicalize b) = Up cb \<and> view B2 (canonicalize a) = Up ca \<and>
    event_log A2 = event_log A @ [Connected b, PeerRestarted b, Connected b]"
proof -
  have b1: "moves B (canonicalize a) (Up ca) [Connected a] (reply_to a [(SynAck, ca)]) B1"
    by (rule incoming_control [OF assms(3,4,9)]) (use assms(5,7,8) in \<open>auto simp: Let_def\<close>)
  obtain ctl where a1: "moves A (canonicalize b) (Up ca) [Connected b] (reply_to b ctl) A1"
    using assms(10)
  proof
    assume "m = encode_control SynAck ca"
    with assms(11) have "handle_incoming api (encode_control SynAck ca) b A = Some (ra, A1)" by simp
    from incoming_control [OF assms(1,2) this] assms(6) show thesis by (intro that [of "[]"]) simp
  next
    assume "m = encode_control Syn cb"
    with assms(11) have "handle_incoming api (encode_control Syn cb) b A = Some (ra, A1)" by simp
    moreover have "\<not> a < b" using assms(5) by (meson order.asym)
    ultimately show thesis
      using incoming_control [OF assms(1,2), of api Syn cb b] assms(6,8)
      by (intro that [of "[(SynAck, ca)]"]) (simp add: Let_def)
  qed
  have v: "view A1 (canonicalize b) = Up ca" "view B1 (canonicalize a) = Up ca"
    using a1 b1 by (simp_all add: moves_def)
  have a2: "moves A1 (canonicalize b) (Up cb) [PeerRestarted b, Connected b] (reply_to b [(SynAck, cb)]) A2"
    by (rule incoming_control [OF moves_wf [OF a1] moves_local [OF a1 assms(2)] assms(12)]) (simp add: v assms(8))
  have b2: "moves B1 (canonicalize a) (Up ca) [] (reply_to a []) B2"
    by (rule incoming_control [OF moves_wf [OF b1] moves_local [OF b1 assms(4)] assms(13)]) (simp add: v)
  from a1 b1 a2 b2 show ?thesis by (simp add: moves_def)
qed

theorem late_syn_splits_witness:
  "\<exists>rb B1 ra A1 ra' A2 rb' B2.
     handle_incoming (mini_api to_le_bytes) (encode_control Syn 7) (V4 2 9000) (demo_opening (V4 1 9000) 8 (V4 2 9000)) =
       Some (rb, B1) \<and>
     handle_incoming (mini_api to_le_bytes) (encode_control Syn 8) (V4 1 9000) (demo_opening (V4 2 9000) 7 (V4 1 9000)) =
       Some (ra, A1) \<and>
     handle_incoming (mini_api to_le_bytes) (encode_control Syn 8) (V4 1 9000) A1 = Some (ra', A2) \<and>
     handle_incoming (mini_api to_le_bytes) (encode_control SynAck 8) (V4 2 9000) B1 = Some (rb', B2) \<and>
     view A2 (canonicalize (V4 1 9000)) = Up 8 \<and> view B2 (canonicalize (V4 2 9000)) = Up 7"
proof -
  let ?a = "V4 2 9000" and ?b = "V4 1 9000" and ?api = "mini_api to_le_bytes"
  have lt: "?b < ?a" by (simp add: sock_addr_less_iff less_prod_def)
  obtain rb B1 where hb: "handle_incoming ?api (encode_control Syn 7) ?a (demo_opening ?b 8 ?a) = Some (rb, B1)"
    by (rule mini_returns)
  obtain ra A1 where ha: "handle_incoming ?api (encode_control Syn 8) ?b (demo_opening ?a 7 ?b) = Some (ra, A1)"
    by (rule mini_returns)
  obtain ra' A2 where ha': "handle_incoming ?api (encode_control Syn 8) ?b A1 = Some (ra', A2)" by (rule mini_returns)
  obtain rb' B2 where hb': "handle_incoming ?api (encode_control SynAck 8) ?a B1 = Some (rb', B2)" by (rule mini_returns)
  have "view A2 (canonicalize ?b) = Up 8 \<and> view B2 (canonicalize ?a) = Up 7"
    using late_syn_splits [of "demo_opening ?a 7 ?b" ?a "demo_opening ?b 8 ?a" ?b 7 8 ?api rb B1
        "encode_control Syn 8" ra A1 ra' A2 rb' B2] ha hb ha' hb' lt
    by (simp only: demo_opening_sel) simp
  with ha hb ha' hb' show ?thesis by blast
qed

text \<open>
  C36. Two sides that draw the same conversation id in a simultaneous open never connect: however many
  copies of the other's SYN arrive at a side whose own handshake is under way with that id, they are
  ignored as repetitions: the link stays as it is, nothing is answered, no event is fired.
\<close>

theorem same_id_open_stalls:
  assumes "wf_peer p" and "sock_local_addr (plat p) = Inr my" and "view p (canonicalize from) = Opening c"
    and "receive_task api (replicate n (Inr (encode_control Syn c, from))) p = Some p'"
  shows "view p' = view p \<and> control_sent (plat p') = control_sent (plat p) \<and> event_log p' = event_log p"
  using assms
proof (induction n arbitrary: p)
  case (Suc n)
  show ?case
  proof (cases "shutdown_token p")
    case False
    have "take 65535 (encode_control Syn c) = encode_control Syn c" by (simp add: encode_control_def)
    with Suc.prems(4) False obtain r p1 where hi: "handle_incoming api (encode_control Syn c) from p = Some (r, p1)"
      and rest: "receive_task api (replicate n (Inr (encode_control Syn c, from))) p1 = Some p'"
      by (auto split: option.splits)
    have mv: "moves p (canonicalize from) (Opening c) [] (reply_to from []) p1"
      by (rule incoming_control [OF Suc.prems(1,2) hi]) (simp add: Suc.prems(3))
    have "view p1 = view p" using moves_view [OF mv] Suc.prems(3) by auto
    with Suc.IH [OF moves_wf [OF mv] moves_local [OF mv Suc.prems(2)] _ rest] Suc.prems(3) mv show ?thesis
      by (simp add: moves_def)
  qed (use Suc.prems in simp)
qed simp

theorem same_id_open_stalls_witness:
  "\<exists>p'. receive_task (mini_api to_le_bytes) (replicate 2 (Inr (encode_control Syn 7, V4 2 9000)))
       (demo_opening (V4 1 9000) 7 (V4 2 9000)) = Some p' \<and>
     view p' (canonicalize (V4 2 9000)) = Opening 7"
proof -
  let ?p = "demo_opening (V4 1 9000) 7 (V4 2 9000)"
  obtain p' where run: "receive_task (mini_api to_le_bytes) (replicate 2 (Inr (encode_control Syn 7, V4 2 9000))) ?p = Some p'"
    using receive_task_terminates [OF mini_recv_laws] by blast
  from same_id_open_stalls [OF demo_opening_sel(1,3,2) run] run show ?thesis
    by (metis demo_opening_sel(2))
qed

end
