(* ===== verification/Duplex_Net.thy ===== *)
theory Duplex_Net
  imports Two_Peers
begin

text \<open>
  Two peers joined by a network. The datagrams that the socket takes in a step of a peer are read off the
  log and travel as raw bytes, KCP's frames among the control packets. Each direction is a first-in
  first-out channel, both applications may send to each other at any time, and the handshake is followed
  through all interleavings to its end, termination included. Retries are not part of these runs; what a
  second copy of a SYN can do is shown in the theory of the two peers.
\<close>

section \<open>What a step offers to the socket\<close>

definition is_data :: "bytes \<Rightarrow> bool" where
  "is_data m \<longleftrightarrow> (\<exists>payload. split_packet m = Some (KcpData, payload))"

definition offered_between :: "sock_addr \<Rightarrow> 'k kcp_peer \<Rightarrow> 'k kcp_peer \<Rightarrow> bytes list" where
  "offered_between b p p' =
     map snd (filter (\<lambda>(d, _). canonicalize d = canonicalize b)
       (drop (length (offered (plat p))) (offered (plat p'))))"

text \<open>The part of it that the socket took, which travels.\<close>

definition sent_between :: "sock_addr \<Rightarrow> 'k kcp_peer \<Rightarrow> 'k kcp_peer \<Rightarrow> bytes list" where
  "sent_between b p p' =
     map snd (filter (\<lambda>(d, _). canonicalize d = canonicalize b)
       (drop (length (sent (plat p))) (sent (plat p'))))"

lemma sent_between_accepting:
  "accepting (plat p) \<Longrightarrow> same_env p p' \<Longrightarrow> sent_between b p p' = offered_between b p p'"
  using accepting_same by (auto simp: sent_between_def offered_between_def sent_accepting same_env_def)

text \<open>The control packets of a channel, decoded.\<close>

fun kinds :: "bytes list \<Rightarrow> (packet_type \<times> u32) list" where
  "kinds [] = []"
| "kinds (m # ms) =
     (case decode_control m of
        Some (t, c) \<Rightarrow> if t = KcpData then kinds ms else (t, c) # kinds ms
      | None \<Rightarrow> kinds ms)"

lemma kinds_append [simp]: "kinds (xs @ ys) = kinds xs @ kinds ys"
  by (induction xs) (auto split: option.split)

lemma kinds_data: "is_data m \<Longrightarrow> kinds (m # ms) = kinds ms"
  by (auto simp: is_data_def decode_control_def split: option.split)

lemma kinds_filter: "kinds (filter (\<lambda>m. \<not> is_data m) ms) = kinds ms"
proof (induction ms)
  case (Cons m ms)
  show ?case
  proof (cases "is_data m")
    case True
    with Cons show ?thesis by (simp add: kinds_data del: kinds.simps(2))
  qed (use Cons in \<open>simp split: option.split\<close>)
qed simp

lemma is_data_encode [simp]: "is_data (encode_kcp_data f)" "is_data (encode_control t c) = (t = KcpData)"
  by (simp_all add: is_data_def)

lemma control_sent_not_data: "control_sent w = filter (\<lambda>(_, m). \<not> is_data m) (offered w)"
  unfolding control_sent_def is_data_def
  by (rule filter_cong) (auto split: option.splits packet_type.splits)

lemma kinds_reply_to:
  assumes "\<forall>(t, c) \<in> set ctl. t \<noteq> KcpData"
  shows "kinds (map snd (filter (\<lambda>(d, _). canonicalize d = canonicalize b) (reply_to b ctl))) = ctl"
  using assms by (induction ctl) (auto simp: decode_encode_control)

text \<open>The log of a peer only grows, and what was added decomposes into control packets and data.\<close>

definition logs :: "platform \<Rightarrow> platform \<Rightarrow> bool" where
  "logs w w' \<longleftrightarrow> (\<exists>xs. offered w' = offered w @ xs)"

definition logs_control :: "platform \<Rightarrow> platform \<Rightarrow> bool" where
  "logs_control w w' \<longleftrightarrow> (\<exists>xs. offered w' = offered w @ xs \<and> (\<forall>(d, m) \<in> set xs. \<not> is_data m))"

lemma logs_control_logs: "logs_control w w' \<Longrightarrow> logs w w'"
  by (auto simp: logs_control_def logs_def)

lemma logs_refl [simp, intro]: "logs w w"
  by (simp add: logs_def)

lemma logs_control_same: "offered w' = offered w \<Longrightarrow> logs_control w w'"
  by (simp add: logs_control_def)

lemma logs_trans [frame_trans]: "logs w w' \<Longrightarrow> logs w' w'' \<Longrightarrow> logs w w''"
  by (auto simp: logs_def)

lemma logs_control_trans [frame_trans]: "logs_control w w' \<Longrightarrow> logs_control w' w'' \<Longrightarrow> logs_control w w''"
  unfolding logs_control_def by (metis append.assoc set_append Un_iff)

lemma logs_data_only: "data_only peer w w' \<Longrightarrow> logs w w'"
  by (auto simp: data_only_def logs_def)

lemma logs_control_send: "t \<noteq> KcpData \<Longrightarrow> logs_control w (snd (send_to (encode_control t c) d w))"
  by (simp add: logs_control_def)

lemma logs_control_epoch: "epoch_ms w = (t, w') \<Longrightarrow> logs_control w w'"
  by (rule logs_control_same) (rule epoch_ms_facts(1))

lemma offered_between_kinds:
  assumes "logs (plat p) (plat p')" and "control_sent (plat p') = control_sent (plat p) @ ctl"
  shows "kinds (offered_between b p p') = kinds (map snd (filter (\<lambda>(d, _). canonicalize d = canonicalize b) ctl))"
proof -
  obtain xs where xs: "offered (plat p') = offered (plat p) @ xs" using assms(1) by (auto simp: logs_def)
  then have ctl: "ctl = filter (\<lambda>(_, m). \<not> is_data m) xs" using assms(2) by (simp add: control_sent_not_data)
  have "map snd (filter (\<lambda>(d, _). canonicalize d = canonicalize b) ctl) =
      filter (\<lambda>m. \<not> is_data m) (map snd (filter (\<lambda>(d, _). canonicalize d = canonicalize b) xs))"
    unfolding ctl by (induction xs) auto
  then show ?thesis by (simp add: offered_between_def xs kinds_filter)
qed

lemma offered_between_control:
  "logs_control (plat p) (plat p') \<Longrightarrow> \<forall>m \<in> set (offered_between b p p'). \<not> is_data m"
  by (auto simp: logs_control_def offered_between_def)

subsection \<open>Sending\<close>

lemma send_data_opening: "send_data api data s w = (r, s', w') \<Longrightarrow> state (inner s) = SynSent \<Longrightarrow> w' = w"
  by (auto simp: send_data_def Let_def split: if_splits prod.splits sum.splits)

lemma send_syn_logs: "send_syn s w = (s', w') \<Longrightarrow> logs_control w w'"
  using logs_control_send [of Syn w "conv_id (inner s)" "peer_addr s"]
  by (auto simp: send_syn_def Let_def dest: logs_control_epoch intro: frame_trans split: prod.splits sum.splits)

lemma initiate_logs:
  assumes "initiate_session api conv peer p = (h, p')"
  shows "logs_control (plat p) (plat p')"
proof (cases "hm_get (sessions p) (canonicalize peer)")
  case None
  obtain s w where no: "new_outbound api conv peer (own_incarnation p) (config p) (plat p) = (s, w)" by fastforce
  then have w: "logs_control (plat p) w"
    by (auto simp: new_outbound_def Let_def dest: logs_control_epoch split: prod.splits)
  obtain s' w' where ss: "send_syn s w = (s', w')" by fastforce
  have "plat p' = w'"
    using assms None no ss by (auto simp: initiate_defs on_session_def sess_def Let_def)
  with w send_syn_logs [OF ss] show ?thesis by (auto intro: frame_trans)
qed (use assms in \<open>auto simp: initiate_session_def Let_def intro: logs_control_same\<close>)

fun link_up :: "link \<Rightarrow> bool" where
  "link_up (Up _) = True"
| "link_up _ = False"

lemma send_logs:
  assumes wf: "wf_peer p" and run: "send api conv peer data p = (r, p')"
  shows "logs (plat p) (plat p') \<and> (\<not> link_up (view p (canonicalize peer)) \<longrightarrow> logs_control (plat p) (plat p'))"
proof -
  let ?can = "canonicalize peer"
  obtain h p1 where p1: "logs_control (plat p) (plat p1)" and os: "on_session (send_data api data) h p1 = (r, p')"
    and get: "hm_get (sessions p1) ?can = Some h" and v: "\<not> link_up (view p ?can) \<Longrightarrow> \<not> link_up (view p1 ?can)"
  proof (cases "hm_get (sessions p) ?can")
    case None
    obtain h p1 where is1: "initiate_session api conv peer p = (h, p1)" by fastforce
    with None run moves_initiate [OF wf None is1] initiate_logs [OF is1] show thesis
      by (intro that [of p1 h]) (auto simp: send_def moves_def)
  next
    case (Some h)
    with run show thesis by (intro that [of p h]) (auto simp: send_def intro: logs_control_same)
  qed
  obtain s w where sd: "send_data api data (sess p1 h) (plat p1) = (r, s, w)" and w: "plat p' = w"
    using os by (auto simp: on_session_def split: prod.splits)
  have "logs (plat p) (plat p')"
    using logs_trans [OF logs_control_logs [OF p1] logs_data_only] send_data_frame [OF sd] w by blast
  moreover have "logs_control (plat p) (plat p')" if "\<not> link_up (view p ?can)"
  proof -
    have "state (inner (sess p1 h)) = SynSent"
      using v [OF that] by (cases "state (inner (sess p1 h))") (auto simp: view_Some [OF get] link_of_def)
    with send_data_opening [OF sd] w p1 show ?thesis by simp
  qed
  ultimately show ?thesis by blast
qed

subsection \<open>Receiving\<close>

lemma establish_logs: "establish api s w = (s', w') \<Longrightarrow> logs w w'"
  by (auto simp: establish_def dest!: flush_queued_frame(2) logs_control_epoch
      intro: logs_trans logs_data_only logs_control_logs split: prod.splits)

lemma syn_create_logs: "logs_control (plat p) (plat (syn_create api conv from p))"
proof -
  obtain s w where ni: "new_inbound api conv from (own_incarnation p) (config p) (plat p) = (s, w)" by fastforce
  then have "logs_control (plat p) w"
    using logs_control_send [of SynAck "plat p" conv "from"]
    by (auto simp: new_inbound_def Let_def dest: logs_control_epoch intro: logs_control_trans split: prod.splits)
  with ni show ?thesis by (simp add: syn_create_def insert_inbound_def alloc_def)
qed

lemma syn_ack_reply_logs: "logs_control (plat p) (plat (syn_ack_reply r p))"
  by (auto simp: syn_ack_reply_def logs_control_send logs_control_same split: option.split)

lemma syn_decide_logs:
  assumes "syn_decide api conv from my p = (r, p')"
  shows "logs (plat p) (plat p')"
proof (cases "hm_get (sessions p) (canonicalize from)")
  case (Some h)
  let ?s = "sess p h"
  let ?s1 = "?s\<lparr>inner := (inner ?s)\<lparr>kcp := api_set_conv api conv (kcp (inner ?s)), conv_id := conv\<rparr>\<rparr>"
  obtain now w where ep: "epoch_ms (plat p) = (now, w)" by fastforce
  obtain s2 w2 where e2: "establish api ?s (plat p) = (s2, w2)" by fastforce
  obtain s3 w3 where e3: "establish api ?s1 (plat p) = (s3, w3)" by fastforce
  show ?thesis
    using assms Some ep e2 e3 logs_control_logs [OF logs_control_epoch [OF ep]] establish_logs [OF e2] establish_logs [OF e3]
    by (auto simp: syn_decide_def Let_def split: if_splits)
qed (use assms in \<open>auto simp: syn_decide_def\<close>)

lemma on_syn_logs:
  assumes "on_syn api payload from p = (r, p')"
  shows "logs (plat p) (plat p')"
proof -
  consider "p' = p"
    | conv my a p1 where "syn_decide api conv from my p = (a, p1)"
      "p' = syn_ack_reply a p1 \<or> p' = syn_create api conv from (syn_ack_reply a p1)"
    using assms by (fastforce simp: on_syn_def Let_def split: option.splits sum.splits prod.splits if_splits)
  then show ?thesis
  proof cases
    case (2 conv my a p1)
    have "logs (plat p) (plat (syn_ack_reply a p1))"
      by (rule logs_trans [OF syn_decide_logs [OF 2(1)] logs_control_logs [OF syn_ack_reply_logs]])
    with 2(2) logs_trans [OF this logs_control_logs [OF syn_create_logs]] show ?thesis by auto
  qed simp
qed

lemma on_syn_ack_logs:
  assumes "on_syn_ack api payload from p = (r, p')"
  shows "logs (plat p) (plat p')"
proof (cases "hm_get (sessions p) (canonicalize from)")
  case (Some h)
  obtain s2 w2 where es: "establish api (sess p h) (plat p) = (s2, w2)" by fastforce
  from assms Some es establish_logs [OF es] show ?thesis
    by (auto simp: on_syn_ack_def Let_def split: option.splits if_splits)
qed (use assms in \<open>auto simp: on_syn_ack_def split: option.splits\<close>)

lemma on_kcp_data_logs:
  assumes "on_kcp_data api payload from p = Some (r, p')"
  shows "logs_control (plat p) (plat p')"
proof (cases "hm_get (sessions p) (canonicalize from)")
  case None
  then show ?thesis
    using assms by (auto simp: on_kcp_data_def logs_control_def split: option.splits)
next
  case (Some h)
  obtain now w1 where ep: "epoch_ms (plat p) = (now, w1)" by fastforce
  from assms Some ep have "plat p' = w1"
    by (auto simp: on_kcp_data_def Let_def split: option.splits sum.splits prod.splits if_splits)
  with logs_control_epoch [OF ep] show ?thesis by simp
qed

lemma incoming_logs:
  assumes wf: "wf_peer p" and my: "sock_local_addr (plat p) = Inr my"
    and lp: "link_packet (my < from) from data (view p (canonicalize from)) = (l, evs, ctl)"
    and run: "handle_incoming api data from p = Some (r, p')"
  shows "logs (plat p) (plat p') \<and> (\<not> link_up l \<longrightarrow> logs_control (plat p) (plat p'))"
proof (cases "split_packet data")
  case None
  with run show ?thesis by (auto simp: handle_incoming_def intro: logs_control_same)
next
  case (Some tp)
  obtain t payload where tp: "tp = (t, payload)" by fastforce
  let ?v = "view p (canonicalize from)"
  show ?thesis
  proof (cases t)
    case KcpData
    with Some tp run have "on_kcp_data api payload from p = Some (r, p')" by (simp add: handle_incoming_def)
    from on_kcp_data_logs [OF this] show ?thesis by (simp add: logs_control_logs)
  next
    case Syn
    with Some tp run have os: "on_syn api payload from p = (r, p')" by (simp add: handle_incoming_def)
    have "p' = p" if "\<not> link_up l"
    proof (cases "read_conv payload")
      case (Some c)
      with \<open>split_packet data = Some tp\<close> tp Syn lp have "link_syn (my < from) from c ?v = (l, evs, ctl)"
        by (simp add: link_packet_def decode_control_def)
      then have "?v = Opening c"
        using that by (cases ?v; cases l) (auto simp: Let_def split: if_splits)
      with os Some my show ?thesis
        by (auto simp: view_def link_of_cases on_syn_def syn_decide_def syn_ack_reply_def Let_def split: option.splits)
    qed (use os in \<open>simp add: on_syn_def\<close>)
    with on_syn_logs [OF os] show ?thesis by (auto intro: logs_control_same)
  next
    case SynAck
    with Some tp run have os: "on_syn_ack api payload from p = (r, p')" by (simp add: handle_incoming_def)
    have "p' = p" if "\<not> link_up l"
    proof (cases "read_conv payload")
      case (Some c)
      with \<open>split_packet data = Some tp\<close> tp SynAck lp have "link_syn_ack from c ?v = (l, evs, ctl)"
        by (simp add: link_packet_def decode_control_def)
      then have "?v \<noteq> Opening c" using that by (cases ?v) (auto split: if_splits)
      with os Some show ?thesis
        by (auto simp: view_def link_of_cases on_syn_ack_def Let_def split: option.splits if_splits)
    qed (use os in \<open>simp add: on_syn_ack_def\<close>)
    with on_syn_ack_logs [OF os] show ?thesis by (auto intro: logs_control_same)
  next
    case Reset
    with Some tp run have "plat p' = plat p"
      by (auto simp: handle_incoming_def on_reset_def reset_remove_def split: option.splits if_splits)
    then show ?thesis by (auto intro: logs_control_same)
  qed
qed

section \<open>First-in first-out channels\<close>

text \<open>
  The state: the two peers and what is in flight to each of them. The applications send to each other,
  receive and look at statistics; \<open>C\<close> are the conversation ids a side may draw.
\<close>

record 'k duplex =
  side_a :: "'k kcp_peer"
  side_b :: "'k kcp_peer"
  to_a :: "bytes list"
  to_b :: "bytes list"

inductive side_step :: "'k kcp_api \<Rightarrow> u32 set \<Rightarrow> sock_addr \<Rightarrow> 'k kcp_peer \<Rightarrow> 'k kcp_peer \<Rightarrow> bool" for api C peer where
  side_send: "conv \<in> C \<Longrightarrow> send api conv peer data p = (r, p') \<Longrightarrow> side_step api C peer p p'"
| side_recv: "recv p = (m, p') \<Longrightarrow> side_step api C peer p p'"
| side_stats: "stats api addr p = (st, p') \<Longrightarrow> side_step api C peer p p'"

inductive deliver :: "'k kcp_api \<Rightarrow> sock_addr \<Rightarrow> sock_addr \<Rightarrow> 'k duplex \<Rightarrow> 'k duplex \<Rightarrow> bool" for api a b where
  a_gets: "to_a n = m # ms \<Longrightarrow> handle_incoming api m b (side_a n) = Some (r, p') \<Longrightarrow>
     deliver api a b n (n\<lparr>side_a := p', to_a := ms, to_b := to_b n @ sent_between b (side_a n) p'\<rparr>)"
| b_gets: "to_b n = m # ms \<Longrightarrow> handle_incoming api m a (side_b n) = Some (r, p') \<Longrightarrow>
     deliver api a b n (n\<lparr>side_b := p', to_b := ms, to_a := to_a n @ sent_between a (side_b n) p'\<rparr>)"

inductive duplex_step ::
  "'k kcp_api \<Rightarrow> u32 set \<Rightarrow> u32 set \<Rightarrow> sock_addr \<Rightarrow> sock_addr \<Rightarrow> 'k duplex \<Rightarrow> 'k duplex \<Rightarrow> bool"
  for api CA CB a b where
  a_acts: "side_step api CA b (side_a n) p' \<Longrightarrow>
     duplex_step api CA CB a b n (n\<lparr>side_a := p', to_b := to_b n @ sent_between b (side_a n) p'\<rparr>)"
| b_acts: "side_step api CB a (side_b n) p' \<Longrightarrow>
     duplex_step api CA CB a b n (n\<lparr>side_b := p', to_a := to_a n @ sent_between a (side_b n) p'\<rparr>)"
| delivery: "deliver api a b n n' \<Longrightarrow> duplex_step api CA CB a b n n'"

subsection \<open>The effect of a step on links and channels\<close>

text \<open>No step changes what the environment will answer, so a socket that takes everything stays one.\<close>

lemma side_step_env:
  assumes "peer_ok p" and "side_step api C peer p p'"
  shows "same_env p p'"
  using assms(2)
proof cases
  case (side_send conv data r)
  have "wf_peer p" using assms(1) by (simp add: peer_ok_def)
  from moves_send [OF this side_send(2)] show ?thesis by (auto simp: moves_def split: if_splits)
next
  case (side_recv m)
  then obtain ms b where "p' = p\<lparr>pending_data := ms, data_notify := b\<rparr>" using recv_frame by blast
  then show ?thesis by (simp add: same_env_def)
next
  case (side_stats addr st)
  then obtain w where "p' = p\<lparr>plat := w\<rparr>" "same_oracles (plat p) w" using stats_frame by blast
  then show ?thesis by (simp add: same_env_def)
qed

lemma incoming_env:
  assumes "peer_ok p" and "handle_incoming api m from p = Some (r, p')"
  shows "same_env p p'"
proof -
  have ok: "wf_peer p" "sock_local_addr (plat p) = Inr (local_addr p)" using assms(1) by (simp_all add: peer_ok_def)
  obtain l evs ctl where "link_packet (local_addr p < from) from m (view p (canonicalize from)) = (l, evs, ctl)"
    by (metis prod_cases3)
  from moves_incoming [OF ok this assms(2)] show ?thesis by (simp add: moves_def)
qed

lemma side_step_link:
  assumes ok: "peer_ok p" and st: "side_step api C peer p p'" and v: "l = view p (canonicalize peer)"
  shows "peer_ok p' \<and> local_addr p' = local_addr p \<and>
    (\<not> link_up l \<longrightarrow> (\<forall>m \<in> set (offered_between peer p p'). \<not> is_data m)) \<and>
    (view p' (canonicalize peer) = l \<and> kinds (offered_between peer p p') = [] \<or>
     (\<exists>c \<in> C. l = NoLink \<and> view p' (canonicalize peer) = Opening c \<and> kinds (offered_between peer p p') = [(Syn, c)]))"
  using st
proof cases
  case (side_send conv data r)
  have wf: "wf_peer p" using ok by (simp add: peer_ok_def)
  note lg = send_logs [OF wf side_send(2)]
  have "peer_ok p' \<and> local_addr p' = local_addr p"
    using moves_send [OF wf side_send(2)] peer_okI [OF _ _ ok] by (auto simp: moves_def same_env_def split: if_splits)
  moreover have "\<forall>m \<in> set (offered_between peer p p'). \<not> is_data m" if "\<not> link_up l"
    using lg that v offered_between_control by blast
  moreover have "kinds (offered_between peer p p') = [(Syn, conv)] \<and> view p' (canonicalize peer) = Opening conv"
    if "l = NoLink"
    using moves_send [OF wf side_send(2)] offered_between_kinds [of p p' "[(peer, encode_control Syn conv)]" peer] lg that v
    by (simp add: moves_def decode_encode_control)
  moreover have "kinds (offered_between peer p p') = [] \<and> view p' (canonicalize peer) = l" if "l \<noteq> NoLink"
    using moves_send [OF wf side_send(2)] offered_between_kinds [of p p' "[]" peer] lg that v
    by (simp add: moves_def)
  ultimately show ?thesis using side_send(1) by blast
next
  case (side_recv m)
  then obtain ms b where "p' = p\<lparr>pending_data := ms, data_notify := b\<rparr>" using recv_frame by blast
  with ok v show ?thesis by (simp add: peer_ok_def offered_between_def)
next
  case (side_stats addr st)
  then obtain w where "p' = p\<lparr>plat := w\<rparr>" "same_oracles (plat p) w" "offered w = offered (plat p)"
    using stats_frame by blast
  with ok v show ?thesis by (simp add: peer_ok_def offered_between_def same_oracles_def)
qed

lemma link_packet_control:
  "link_packet y a m l = (l', evs, ctl) \<Longrightarrow> \<forall>(t, c) \<in> set ctl. t \<noteq> KcpData"
  by (cases l; auto simp: link_packet_def link_reset_def link_data_def Let_def
      split: option.splits packet_type.splits if_splits elim!: link_on.elims)

lemma delivery_link:
  assumes ok: "peer_ok p" and run: "handle_incoming api m from p = Some (r, p')"
    and lp: "link_packet (local_addr p < from) from m (view p (canonicalize from)) = (l, evs, ctl)"
  shows "peer_ok p' \<and> local_addr p' = local_addr p \<and> view p' (canonicalize from) = l \<and>
    kinds (offered_between from p p') = ctl \<and>
    (\<not> link_up l \<longrightarrow> (\<forall>m \<in> set (offered_between from p p'). \<not> is_data m))"
proof -
  have wf: "wf_peer p" and my: "sock_local_addr (plat p) = Inr (local_addr p)" using ok by (simp_all add: peer_ok_def)
  note mv = moves_incoming [OF wf my lp run]
  note lg = incoming_logs [OF wf my lp run]
  have "kinds (offered_between from p p') = ctl"
    using offered_between_kinds [of p p' "reply_to from ctl" "from"] lg mv
      kinds_reply_to [OF link_packet_control [OF lp], of "from"] by (simp add: moves_def)
  moreover have "peer_ok p'" using mv by (intro peer_okI [OF _ _ ok]) (simp_all add: moves_def)
  moreover have "local_addr p' = local_addr p" "view p' (canonicalize from) = l"
    using mv by (simp_all add: moves_def same_env_def)
  ultimately show ?thesis using lg offered_between_control by blast
qed

subsection \<open>The shapes of a handshake\<close>

text \<open>
  The links of the two sides and the control packets in flight, from both links absent to both
  established; \<open>A\<close> has the smaller address and yields.
\<close>

inductive shape ::
  "u32 set \<Rightarrow> u32 set \<Rightarrow> link \<Rightarrow> link \<Rightarrow> (packet_type \<times> u32) list \<Rightarrow> (packet_type \<times> u32) list \<Rightarrow> bool"
  for CA CB where
  idle: "shape CA CB NoLink NoLink [] []"
| a_opens: "c \<in> CA \<Longrightarrow> shape CA CB (Opening c) NoLink [(Syn, c)] []"
| b_opens: "c \<in> CB \<Longrightarrow> shape CA CB NoLink (Opening c) [] [(Syn, c)]"
| a_acked: "c \<in> CA \<Longrightarrow> shape CA CB (Opening c) (Up c) [] [(SynAck, c)]"
| b_acked: "c \<in> CB \<Longrightarrow> shape CA CB (Up c) (Opening c) [(SynAck, c)] []"
| both: "c \<in> CA \<Longrightarrow> d \<in> CB \<Longrightarrow> shape CA CB (Opening c) (Opening d) [(Syn, c)] [(Syn, d)]"
| b_won: "c \<in> CA \<Longrightarrow> d \<in> CB \<Longrightarrow> shape CA CB (Opening c) (Up d) [] [(Syn, d), (SynAck, d)]"
| a_yielded: "c \<in> CA \<Longrightarrow> d \<in> CB \<Longrightarrow> shape CA CB (Up d) (Opening d) [(Syn, c), (SynAck, d)] []"
| agreed: "c \<in> CA \<union> CB \<Longrightarrow> set ab \<subseteq> {(SynAck, c)} \<Longrightarrow> set ba \<subseteq> {(SynAck, c)} \<Longrightarrow> shape CA CB (Up c) (Up c) ab ba"

inductive_simps shape_no_a [simp]: "shape CA CB NoLink lb ab ba"
inductive_simps shape_no_b [simp]: "shape CA CB la NoLink ab ba"
inductive_cases shape_to_a: "shape CA CB la lb ab ((t, c) # ba)"
inductive_cases shape_to_b: "shape CA CB la lb ((t, c) # ab) ba"
inductive_cases shape_up: "shape CA CB (Up c) (Up d) ab ba"
inductive_cases shape_drained: "shape CA CB la lb [] []"

text \<open>Every packet taken from a channel brings the handshake closer to its end.\<close>

fun unfinished :: "link \<Rightarrow> nat" where
  "unfinished (Up _) = 0"
| "unfinished _ = 1"

definition rank :: "link \<Rightarrow> link \<Rightarrow> (packet_type \<times> u32) list \<Rightarrow> (packet_type \<times> u32) list \<Rightarrow> nat" where
  "rank la lb ab ba = 2 * (unfinished la + unfinished lb) + length ab + length ba"

lemma shape_a_gets:
  assumes "CA \<inter> CB = {}" and "shape CA CB la lb ab ((t, c) # ba)" and "link_on True x t c la = (la', evs, ctl)"
  shows "shape CA CB la' lb (ab @ ctl) ba \<and> (link_up la \<longrightarrow> link_up la') \<and> (la \<noteq> NoLink \<longrightarrow> la' \<noteq> NoLink) \<and>
    rank la' lb (ab @ ctl) ba < rank la lb ab ((t, c) # ba)"
  using assms(2)
  by (rule shape_to_a) (use assms(1,3) in \<open>auto simp: Let_def rank_def intro: shape.intros split: if_splits\<close>)

lemma shape_b_gets:
  assumes "CA \<inter> CB = {}" and "shape CA CB la lb ((t, c) # ab) ba" and "link_on False x t c lb = (lb', evs, ctl)"
  shows "shape CA CB la lb' ab (ba @ ctl) \<and> (link_up lb \<longrightarrow> link_up lb') \<and> (lb \<noteq> NoLink \<longrightarrow> lb' \<noteq> NoLink) \<and>
    rank la lb' ab (ba @ ctl) < rank la lb ((t, c) # ab) ba"
  using assms(2)
  by (rule shape_to_b) (use assms(1,3) in \<open>auto simp: Let_def rank_def intro: shape.intros split: if_splits\<close>)

lemma shape_agree: "shape CA CB (Up c) (Up d) ab ba \<Longrightarrow> c = d"
  by (auto elim: shape_up)

lemma shape_end: "shape CA CB la lb [] [] \<Longrightarrow> la = NoLink \<and> lb = NoLink \<or> (\<exists>c \<in> CA \<union> CB. la = Up c \<and> lb = Up c)"
  by (auto elim: shape_drained)

subsection \<open>The invariant\<close>

definition duplex_ok :: "u32 set \<Rightarrow> u32 set \<Rightarrow> sock_addr \<Rightarrow> sock_addr \<Rightarrow> 'k duplex \<Rightarrow> bool" where
  "duplex_ok CA CB a b n \<longleftrightarrow>
     peer_ok (side_a n) \<and> peer_ok (side_b n) \<and> local_addr (side_a n) = a \<and> local_addr (side_b n) = b \<and>
     accepting (plat (side_a n)) \<and> accepting (plat (side_b n)) \<and>
     shape CA CB (view (side_a n) (canonicalize b)) (view (side_b n) (canonicalize a)) (kinds (to_b n)) (kinds (to_a n)) \<and>
     (\<not> link_up (view (side_a n) (canonicalize b)) \<longrightarrow> (\<forall>m \<in> set (to_b n). \<not> is_data m)) \<and>
     (\<not> link_up (view (side_b n) (canonicalize a)) \<longrightarrow> (\<forall>m \<in> set (to_a n). \<not> is_data m))"

definition duplex_rank :: "sock_addr \<Rightarrow> sock_addr \<Rightarrow> 'k duplex \<Rightarrow> nat" where
  "duplex_rank a b n =
     rank (view (side_a n) (canonicalize b)) (view (side_b n) (canonicalize a)) (kinds (to_b n)) (kinds (to_a n))"

text \<open>A datagram without control content: KCP's frame for a session, or no packet at all.\<close>

lemma incoming_silent:
  assumes run: "handle_incoming api m from p = Some (r, p')"
    and nc: "\<nexists>t c. decode_control m = Some (t, c) \<and> t \<noteq> KcpData"
    and nl: "view p (canonicalize from) = NoLink \<longrightarrow> \<not> is_data m"
  shows "offered (plat p') = offered (plat p)"
proof (cases "split_packet m")
  case None
  with run show ?thesis by (simp add: handle_incoming_def)
next
  case (Some tp)
  obtain t payload where tp: "tp = (t, payload)" by fastforce
  show ?thesis
  proof (cases "t = KcpData")
    case True
    then obtain h where h: "hm_get (sessions p) (canonicalize from) = Some h"
      using nl Some tp by (cases "hm_get (sessions p) (canonicalize from)") (auto simp: view_None is_data_def)
    obtain now w1 where ep: "epoch_ms (plat p) = (now, w1)" by fastforce
    from run h True Some tp ep have "plat p' = w1"
      by (auto simp: handle_incoming_def on_kcp_data_def Let_def split: option.splits sum.splits prod.splits if_splits)
    with epoch_ms_facts(1) [OF ep] show ?thesis by simp
  next
    case False
    then have "read_conv payload = None"
      using nc Some tp by (cases "read_conv payload") (auto simp: decode_control_def)
    with run Some tp False show ?thesis
      by (cases t) (auto simp: handle_incoming_def on_syn_def on_syn_ack_def on_reset_def)
  qed
qed

text \<open>One side takes the next datagram of its channel.\<close>

lemma receive_side [consumes 3, case_names control silent]:
  assumes ok: "peer_ok p" and run: "handle_incoming api m from p = Some (r, p')"
    and nl: "view p (canonicalize from) = NoLink \<longrightarrow> \<not> is_data m"
  obtains t c l evs ctl where "kinds (m # ms) = (t, c) # kinds ms" "peer_ok p'" "local_addr p' = local_addr p"
      "link_on (local_addr p < from) from t c (view p (canonicalize from)) = (l, evs, ctl)"
      "view p' (canonicalize from) = l" "kinds (offered_between from p p') = ctl"
      "\<not> link_up l \<longrightarrow> (\<forall>m \<in> set (offered_between from p p'). \<not> is_data m)"
  | "kinds (m # ms) = kinds ms" "peer_ok p'" "local_addr p' = local_addr p"
      "view p' (canonicalize from) = view p (canonicalize from)" "offered_between from p p' = []"
proof -
  let ?l = "view p (canonicalize from)"
  obtain l evs ctl where lp: "link_packet (local_addr p < from) from m ?l = (l, evs, ctl)" by (metis prod_cases3)
  note d = delivery_link [OF ok run lp]
  show thesis
  proof (cases "\<exists>t c. decode_control m = Some (t, c) \<and> t \<noteq> KcpData")
    case True
    then obtain t c where "decode_control m = Some (t, c)" "t \<noteq> KcpData" by blast
    with lp d show thesis by (intro that(1) [of t c l evs ctl]) (simp_all add: link_packet_def)
  next
    case False
    have "offered_between from p p' = []" using incoming_silent [OF run False nl] by (simp add: offered_between_def)
    moreover have "l = ?l" "kinds (m # ms) = kinds ms"
      using False lp nl by (auto simp: link_packet_def link_data_def split: option.splits)
    ultimately show thesis using d by (intro that(2)) simp_all
  qed
qed

lemma shape_no_link:
  assumes "shape CA CB la lb ab ba"
  shows "la = NoLink \<Longrightarrow> \<not> link_up lb" "lb = NoLink \<Longrightarrow> \<not> link_up la"
  using assms by auto

definition progress :: "sock_addr \<Rightarrow> sock_addr \<Rightarrow> 'k duplex \<Rightarrow> 'k duplex \<Rightarrow> bool" where
  "progress a b n n' \<longleftrightarrow> duplex_rank a b n' < duplex_rank a b n \<or>
     duplex_rank a b n' = duplex_rank a b n \<and> length (to_a n') + length (to_b n') < length (to_a n) + length (to_b n)"

definition opened :: "sock_addr \<Rightarrow> sock_addr \<Rightarrow> 'k duplex \<Rightarrow> bool" where
  "opened a b n \<longleftrightarrow> view (side_a n) (canonicalize b) \<noteq> NoLink \<or> view (side_b n) (canonicalize a) \<noteq> NoLink"

lemma deliver_a:
  assumes ok: "duplex_ok CA CB a b n" and lt: "a < b" and dis: "CA \<inter> CB = {}"
    and q: "to_a n = m # ms" and run: "handle_incoming api m b (side_a n) = Some (r, p')"
    and n': "n' = n\<lparr>side_a := p', to_a := ms, to_b := to_b n @ sent_between b (side_a n) p'\<rparr>"
  shows "duplex_ok CA CB a b n' \<and> progress a b n n' \<and> (opened a b n \<longrightarrow> opened a b n')"
proof -
  let ?la = "view (side_a n) (canonicalize b)" and ?lb = "view (side_b n) (canonicalize a)"
  have pa: "peer_ok (side_a n)" and la: "local_addr (side_a n) = a"
    and sh: "shape CA CB ?la ?lb (kinds (to_b n)) (kinds (m # ms))"
    and da: "\<not> link_up ?la \<Longrightarrow> \<forall>m \<in> set (to_b n). \<not> is_data m"
    and db: "\<not> link_up ?lb \<Longrightarrow> \<forall>m \<in> set (to_a n). \<not> is_data m"
    using ok q by (simp_all add: duplex_ok_def)
  have env: "same_env (side_a n) p'" by (rule incoming_env [OF pa run])
  then have acc: "accepting (plat p')" using ok accepting_same by (auto simp: duplex_ok_def same_env_def)
  have n': "n' = n\<lparr>side_a := p', to_a := ms, to_b := to_b n @ offered_between b (side_a n) p'\<rparr>"
    using n' ok sent_between_accepting [OF _ env] by (simp add: duplex_ok_def)
  have "?la = NoLink \<longrightarrow> \<not> is_data m" using shape_no_link(1) [OF sh] db q by simp
  with pa run show ?thesis
  proof (cases rule: receive_side [where ms = ms])
    case (control t c l evs ctl)
    with la lt have "link_on True b t c ?la = (l, evs, ctl)" by simp
    note sg = shape_a_gets [OF dis sh [unfolded control(1)] this]
    from sg control(7) da have "\<not> link_up l \<longrightarrow> (\<forall>m \<in> set (to_b n @ offered_between b (side_a n) p'). \<not> is_data m)"
      by auto
    moreover have "opened a b n \<longrightarrow> opened a b n'" using sg control(5) by (auto simp: opened_def n')
    ultimately show ?thesis
      using sg control ok q acc by (simp add: duplex_ok_def progress_def duplex_rank_def n')
  next
    case silent
    with sh ok q da acc show ?thesis
      by (auto simp: duplex_ok_def progress_def opened_def duplex_rank_def n')
  qed
qed

lemma deliver_b:
  assumes ok: "duplex_ok CA CB a b n" and lt: "a < b" and dis: "CA \<inter> CB = {}"
    and q: "to_b n = m # ms" and run: "handle_incoming api m a (side_b n) = Some (r, p')"
    and n': "n' = n\<lparr>side_b := p', to_b := ms, to_a := to_a n @ sent_between a (side_b n) p'\<rparr>"
  shows "duplex_ok CA CB a b n' \<and> progress a b n n' \<and> (opened a b n \<longrightarrow> opened a b n')"
proof -
  let ?la = "view (side_a n) (canonicalize b)" and ?lb = "view (side_b n) (canonicalize a)"
  have pb: "peer_ok (side_b n)" and lb: "local_addr (side_b n) = b"
    and sh: "shape CA CB ?la ?lb (kinds (m # ms)) (kinds (to_a n))"
    and da: "\<not> link_up ?la \<Longrightarrow> \<forall>m \<in> set (to_b n). \<not> is_data m"
    and db: "\<not> link_up ?lb \<Longrightarrow> \<forall>m \<in> set (to_a n). \<not> is_data m"
    using ok q by (simp_all add: duplex_ok_def)
  have env: "same_env (side_b n) p'" by (rule incoming_env [OF pb run])
  then have acc: "accepting (plat p')" using ok accepting_same by (auto simp: duplex_ok_def same_env_def)
  have n': "n' = n\<lparr>side_b := p', to_b := ms, to_a := to_a n @ offered_between a (side_b n) p'\<rparr>"
    using n' ok sent_between_accepting [OF _ env] by (simp add: duplex_ok_def)
  have "?lb = NoLink \<longrightarrow> \<not> is_data m" using shape_no_link(2) [OF sh] da q by simp
  with pb run show ?thesis
  proof (cases rule: receive_side [where ms = ms])
    case (control t c l evs ctl)
    with lb lt have "link_on False a t c ?lb = (l, evs, ctl)" by (metis order.asym)
    note sg = shape_b_gets [OF dis sh [unfolded control(1)] this]
    from sg control(7) db have "\<not> link_up l \<longrightarrow> (\<forall>m \<in> set (to_a n @ offered_between a (side_b n) p'). \<not> is_data m)"
      by auto
    moreover have "opened a b n \<longrightarrow> opened a b n'" using sg control(5) by (auto simp: opened_def n')
    ultimately show ?thesis
      using sg control ok q acc by (simp add: duplex_ok_def progress_def duplex_rank_def n')
  next
    case silent
    with sh ok q db acc show ?thesis
      by (auto simp: duplex_ok_def progress_def opened_def duplex_rank_def n')
  qed
qed

lemma deliver_ok:
  assumes "duplex_ok CA CB a b n" and "a < b" and "CA \<inter> CB = {}" and "deliver api a b n n'"
  shows "duplex_ok CA CB a b n' \<and> progress a b n n' \<and> (opened a b n \<longrightarrow> opened a b n')"
  using assms(4) by cases (use deliver_a [OF assms(1-3)] deliver_b [OF assms(1-3)] in blast)+

lemma duplex_ok_step:
  assumes ok: "duplex_ok CA CB a b n" and "a < b" and "CA \<inter> CB = {}" and st: "duplex_step api CA CB a b n n'"
  shows "duplex_ok CA CB a b n'"
  using st
proof cases
  case (a_acts p')
  have pk: "peer_ok (side_a n)" "accepting (plat (side_a n))" using ok by (simp_all add: duplex_ok_def)
  note env = side_step_env [OF pk(1) a_acts(2)]
  have "accepting (plat p')" using env pk(2) accepting_same by (auto simp: same_env_def)
  with side_step_link [OF pk(1) a_acts(2) refl] ok show ?thesis
    unfolding a_acts(1) sent_between_accepting [OF pk(2) env]
    by (auto simp: duplex_ok_def shape.a_opens shape.b_opens shape.both)
next
  case (b_acts p')
  have pk: "peer_ok (side_b n)" "accepting (plat (side_b n))" using ok by (simp_all add: duplex_ok_def)
  note env = side_step_env [OF pk(1) b_acts(2)]
  have "accepting (plat p')" using env pk(2) accepting_same by (auto simp: same_env_def)
  with side_step_link [OF pk(1) b_acts(2) refl] ok show ?thesis
    unfolding b_acts(1) sent_between_accepting [OF pk(2) env]
    by (auto simp: duplex_ok_def shape.a_opens shape.b_opens shape.both)
next
  case delivery
  with deliver_ok [OF assms(1-3)] show ?thesis by blast
qed

definition duplex_init :: "sock_addr \<Rightarrow> sock_addr \<Rightarrow> 'k duplex \<Rightarrow> bool" where
  "duplex_init a b n \<longleftrightarrow> bound_peer (side_a n) \<and> bound_peer (side_b n) \<and>
     local_addr (side_a n) = a \<and> local_addr (side_b n) = b \<and> to_a n = [] \<and> to_b n = [] \<and>
     accepting (plat (side_a n)) \<and> accepting (plat (side_b n))"

lemma bound_peer_view: "bound_peer p \<Longrightarrow> view p can = NoLink"
  unfolding bound_peer_def using bind_with_wf by fastforce

lemma duplex_ok_init: "duplex_init a b n \<Longrightarrow> duplex_ok CA CB a b n"
  by (auto simp: duplex_init_def duplex_ok_def peer_ok_bound bound_peer_view)

interpretation duplex: invariant_of "\<lambda>n. a < b \<and> CA \<inter> CB = {} \<and> duplex_init a b n" "duplex_step api CA CB a b"
    "\<lambda>n. a < b \<and> CA \<inter> CB = {} \<and> duplex_ok CA CB a b n" for api CA CB a b
proof
  show "a < b \<and> CA \<inter> CB = {} \<and> duplex_ok CA CB a b n"
    if "a < b \<and> CA \<inter> CB = {} \<and> duplex_init a b n" for n :: "'a duplex"
    using that by (simp add: duplex_ok_init)
  show "a < b \<and> CA \<inter> CB = {} \<and> duplex_ok CA CB a b n'"
    if "a < b \<and> CA \<inter> CB = {} \<and> duplex_ok CA CB a b n" "duplex_step api CA CB a b n n'" for n n' :: "'a duplex"
    using that duplex_ok_step [of CA CB a b n api n'] by simp
qed

subsection \<open>Draining the channels\<close>

lemma wf_progress: "wf {(n', n :: 'k duplex). progress a b n n'}"
proof -
  have "{(n', n :: 'k duplex). progress a b n n'} =
      inv_image (less_than <*lex*> less_than) (\<lambda>n. (duplex_rank a b n, length (to_a n) + length (to_b n)))"
    by (auto simp: progress_def)
  then show ?thesis by (simp add: wf_inv_image wf_lex_prod wf_less_than)
qed

lemma deliver_enabled:
  assumes "kcp_recv_laws api q" and "to_a n \<noteq> [] \<or> to_b n \<noteq> []"
  shows "\<exists>n'. deliver api a b n n'"
proof (cases "to_a n")
  case Nil
  with assms(2) obtain m ms where "to_b n = m # ms" by (cases "to_b n") auto
  with handle_incoming_returns [OF assms(1), of m a "side_b n"] b_gets show ?thesis by blast
next
  case (Cons m ms)
  with handle_incoming_returns [OF assms(1), of m b "side_a n"] a_gets show ?thesis by blast
qed

lemma drains:
  assumes laws: "kcp_recv_laws api q" and lt: "a < b" and dis: "CA \<inter> CB = {}" and ok: "duplex_ok CA CB a b n"
  shows "\<exists>n'. (deliver api a b)\<^sup>*\<^sup>* n n' \<and> to_a n' = [] \<and> to_b n' = [] \<and> duplex_ok CA CB a b n' \<and>
    (opened a b n \<longrightarrow> opened a b n')"
  using wf_progress [of a b] ok
proof (induction n rule: wf_induct_rule)
  case (less n)
  show ?case
  proof (cases "to_a n = [] \<and> to_b n = []")
    case False
    then obtain n1 where n1: "deliver api a b n n1" using deliver_enabled [OF laws] by blast
    note d = deliver_ok [OF less.prems lt dis n1]
    from less.IH [of n1] d obtain n' where "(deliver api a b)\<^sup>*\<^sup>* n1 n'" "to_a n' = []" "to_b n' = []"
      "duplex_ok CA CB a b n'" "opened a b n1 \<longrightarrow> opened a b n'" by auto
    with n1 d show ?thesis by (blast intro: converse_rtranclp_into_rtranclp)
  qed (use less.prems in blast)
qed

lemma no_endless_delivery:
  assumes lt: "a < b" and dis: "CA \<inter> CB = {}" and ok: "duplex_ok CA CB a b (f 0)"
  shows "\<exists>i. \<not> deliver api a b (f i) (f (Suc i))"
proof (rule ccontr)
  assume "\<nexists>i. \<not> deliver api a b (f i) (f (Suc i))"
  then have st: "deliver api a b (f i) (f (Suc i))" for i by blast
  have "duplex_ok CA CB a b (f i)" for i
    by (induction i) (use ok st deliver_ok [OF _ lt dis] in blast)+
  then have "progress a b (f i) (f (Suc i))" for i using st deliver_ok [OF _ lt dis] by blast
  with wf_progress [of a b] show False unfolding wf_iff_no_infinite_down_chain by blast
qed

lemma drained_agree:
  assumes "duplex_ok CA CB a b n" and "to_a n = []" and "to_b n = []" and "opened a b n"
  shows "\<exists>c \<in> CA \<union> CB. view (side_a n) (canonicalize b) = Up c \<and> view (side_b n) (canonicalize a) = Up c"
proof -
  have "shape CA CB (view (side_a n) (canonicalize b)) (view (side_b n) (canonicalize a)) [] []"
    using assms(1-3) by (simp add: duplex_ok_def)
  from shape_end [OF this] assms(4) show ?thesis by (auto simp: opened_def)
qed

section \<open>Properties\<close>

text \<open>
  C6. Opening is safe in every interleaving, for two freshly bound peers that know each other by the
  addresses they are bound to, draw their conversation ids from disjoint sets and have sockets that take
  every datagram: they send to each other as often and whenever they like, alone or both at once, over
  channels that deliver what the sockets took and keep the order, and the update task does not run, so
  that no SYN is retried. Then at every moment two established links have the same conversation id; the
  packets in flight are used up after finitely many deliveries in whatever order the channels are served;
  and once nothing is in flight, if any side has sent, both links are established on one id that one of
  the two sides drew. With equal ids on both sides the handshake stalls (\<open>same_id_open_stalls\<close>), and a
  late or retried SYN can split the link (\<open>late_syn_splits\<close>).
\<close>

theorem duplex_open_agrees:
  assumes "a < b" and "CA \<inter> CB = {}" and "kcp_recv_laws api q"
    and "duplex_init a b n0" and "(duplex_step api CA CB a b)\<^sup>*\<^sup>* n0 n"
  shows "(\<forall>c d. view (side_a n) (canonicalize b) = Up c \<and> view (side_b n) (canonicalize a) = Up d \<longrightarrow> c = d) \<and>
    (\<forall>f. f 0 = n \<longrightarrow> (\<exists>i. \<not> deliver api a b (f i) (f (Suc i)))) \<and>
    (to_a n = [] \<and> to_b n = [] \<and> opened a b n \<longrightarrow>
      (\<exists>c \<in> CA \<union> CB. view (side_a n) (canonicalize b) = Up c \<and> view (side_b n) (canonicalize a) = Up c)) \<and>
    (opened a b n \<longrightarrow>
      (\<exists>n'. (deliver api a b)\<^sup>*\<^sup>* n n' \<and> to_a n' = [] \<and> to_b n' = [] \<and>
        (\<exists>c \<in> CA \<union> CB. view (side_a n') (canonicalize b) = Up c \<and> view (side_b n') (canonicalize a) = Up c)))"
proof -
  have ok: "duplex_ok CA CB a b n" using duplex.reach_inv [OF _ assms(5)] assms(1,2,4) by blast
  have "c = d" if "view (side_a n) (canonicalize b) = Up c" "view (side_b n) (canonicalize a) = Up d" for c d
    using ok that shape_agree by (simp add: duplex_ok_def) metis
  moreover have "\<exists>i. \<not> deliver api a b (f i) (f (Suc i))" if "f 0 = n" for f
    using no_endless_delivery [OF assms(1,2)] ok that by blast
  ultimately show ?thesis
    using drained_agree [OF ok] drains [OF assms(3,1,2) ok] drained_agree by blast
qed

theorem duplex_open_agrees_witness:
  "\<exists>n n' c. (duplex_step (mini_api to_le_bytes) {7} {9} (V4 1 9000) (V4 2 9000))\<^sup>*\<^sup>*
       \<lparr>side_a = demo_peer (V4 1 9000), side_b = demo_peer (V4 2 9000), to_a = [], to_b = []\<rparr> n \<and>
     view (side_a n) (CanonicalAddr (V4 2 9000)) = Opening 7 \<and> view (side_b n) (CanonicalAddr (V4 1 9000)) = Opening 9 \<and>
     (deliver (mini_api to_le_bytes) (V4 1 9000) (V4 2 9000))\<^sup>*\<^sup>* n n' \<and> to_a n' = [] \<and> to_b n' = [] \<and>
     view (side_a n') (CanonicalAddr (V4 2 9000)) = Up c \<and> view (side_b n') (CanonicalAddr (V4 1 9000)) = Up c"
proof -
  let ?a = "V4 1 9000" and ?b = "V4 2 9000" and ?api = "mini_api to_le_bytes"
  let ?n = "\<lparr>side_a = demo_peer ?a, side_b = demo_peer ?b, to_a = [], to_b = []\<rparr> :: mini_kcp duplex"
  let ?st = "duplex_step ?api {7} {9} ?a ?b"
  let ?pa = "demo_opening ?a 7 ?b" and ?pb = "demo_opening ?b 9 ?a"
  let ?n1 = "?n\<lparr>side_a := ?pa, to_b := to_b ?n @ sent_between ?b (side_a ?n) ?pa\<rparr>"
  let ?n2 = "?n1\<lparr>side_b := ?pb, to_a := to_a ?n1 @ sent_between ?a (side_b ?n1) ?pb\<rparr>"
  have "side_step ?api {7} ?b (side_a ?n) ?pa"
    by (rule side_send [of 7 _ _ _ "[1]" _ "fst (send ?api 7 ?b [1] (demo_peer ?a))"]) (simp_all add: demo_opening_def)
  then have "?st ?n ?n1" by (rule a_acts)
  moreover have "side_step ?api {9} ?a (side_b ?n1) ?pb"
    by (rule side_send [of 9 _ _ _ "[1]" _ "fst (send ?api 9 ?a [1] (demo_peer ?b))"]) (simp_all add: demo_opening_def)
  then have "?st ?n1 ?n2" by (rule b_acts)
  ultimately have run: "?st\<^sup>*\<^sup>* ?n ?n2" by (meson r_into_rtranclp rtranclp_trans)
  have init: "duplex_init ?a ?b ?n"
    unfolding duplex_init_def bound_peer_def using demo_peer_bind by (auto simp: demo_peer_def)
  have lt: "?a < ?b" by (simp add: sock_addr_less_iff less_prod_def)
  have v: "view (side_a ?n2) (canonicalize ?b) = Opening 7" "view (side_b ?n2) (canonicalize ?a) = Opening 9"
    by (simp_all only: duplex.simps duplex.update_convs demo_opening_sel)
  have dis: "{7} \<inter> {9} = ({} :: u32 set)" by simp
  have "opened ?a ?b ?n2" unfolding opened_def v by simp
  with duplex_open_agrees [OF lt dis mini_recv_laws init run] obtain n' c where "(deliver ?api ?a ?b)\<^sup>*\<^sup>* ?n2 n'"
    "to_a n' = []" "to_b n' = []" "view (side_a n') (canonicalize ?b) = Up c" "view (side_b n') (canonicalize ?a) = Up c"
    by blast
  with run v show ?thesis unfolding canonicalize_V4 by blast
qed

end
