(* ===== verification/Lossy_Net.thy ===== *)
theory Lossy_Net
  imports Duplex_Net
begin

text \<open>
  Two peers joined by a network that may lose, repeat, delay and reorder: whatever a peer ever offered to
  its socket for the other can arrive at any later moment, any number of times or never. The log of the
  socket is therefore all there is to the network; that it may also deliver what a socket refused only
  adds runs. The applications send, receive, look at statistics and
  disconnect, and the update tasks tick, so that SYNs are retried and sessions pruned.
\<close>

section \<open>What a tick offers to the socket\<close>

text \<open>The log grows, and data is added only for the sessions of \<open>up\<close>.\<close>

definition logs_for :: "(sock_addr \<Rightarrow> bool) \<Rightarrow> platform \<Rightarrow> platform \<Rightarrow> bool" where
  "logs_for up w w' \<longleftrightarrow> (\<exists>xs. offered w' = offered w @ xs \<and> (\<forall>(d, m) \<in> set xs. is_data m \<longrightarrow> up d))"

lemma logs_for_logs: "logs_for up w w' \<Longrightarrow> logs w w'"
  by (auto simp: logs_for_def logs_def)

lemma logs_for_same: "offered w' = offered w \<Longrightarrow> logs_for up w w'"
  by (simp add: logs_for_def)

lemma logs_for_trans [frame_trans]: "logs_for up w w' \<Longrightarrow> logs_for up w' w'' \<Longrightarrow> logs_for up w w''"
  unfolding logs_for_def by (metis append.assoc set_append Un_iff)

lemma logs_for_mono: "logs_for up w w' \<Longrightarrow> (\<And>d. up d \<Longrightarrow> up' d) \<Longrightarrow> logs_for up' w w'"
  by (fastforce simp: logs_for_def)

lemma logs_for_data_only: "data_only peer w w' \<Longrightarrow> up peer \<Longrightarrow> logs_for up w w'"
  by (auto simp: data_only_def logs_for_def)

lemma offered_between_for:
  "logs_for up (plat p) (plat p') \<Longrightarrow> (\<And>d. canonicalize d = canonicalize b \<Longrightarrow> \<not> up d) \<Longrightarrow>
     \<forall>m \<in> set (offered_between b p p'). \<not> is_data m"
  by (fastforce simp: logs_for_def offered_between_def)

lemma session_update_logs:
  assumes "session_update api now s w = (r, s', w')"
  shows "logs_for (\<lambda>d. d = out_peer (out_adapter (inner s)) \<and> state (inner s) = Established) w w'"
proof (cases "state (inner s)")
  case SynSent
  with assms show ?thesis by (auto simp: session_update_def intro: logs_for_same)
next
  case Established
  with session_update_frame [OF assms] show ?thesis by (auto intro: logs_for_data_only)
qed

lemma tick_session_logs:
  assumes "tick_session api cfg now_ms now s w = (rm, s', w')"
  shows "logs_for (\<lambda>d. d = out_peer (out_adapter (inner s)) \<and> state (inner s) = Established) w w'"
proof -
  obtain r1 s1 w1 where up: "session_update api now_ms s w = (r1, s1, w1)" by (metis prod_cases3)
  obtain r2 s2 w2 where mr: "maybe_retry_syn cfg now s1 w1 = (r2, s2, w2)" by (metis prod_cases3)
  have "logs_for up w1 w2" for up
    using mr by (cases rule: maybe_retry_syn_cases) (auto simp: logs_for_def)
  with session_update_logs [OF up] have "logs_for (\<lambda>d. d = out_peer (out_adapter (inner s)) \<and> state (inner s) = Established) w w2"
    by (blast intro: logs_for_trans)
  with assms up mr session_update_logs [OF up] show ?thesis
    by (auto simp: tick_session_def Let_def intro: logs_for_same split: if_splits)
qed

definition up_at :: "'k kcp_peer \<Rightarrow> table \<Rightarrow> sock_addr \<Rightarrow> bool" where
  "up_at p es d \<longleftrightarrow> (\<exists>(c, h) \<in> set es. d = out_peer (out_adapter (inner (sess p h))) \<and> state (inner (sess p h)) = Established)"

lemma tick_scan_logs:
  assumes "tick_scan api now_ms now es p = (rms, p')" and "\<forall>(c, h) \<in> set es. h < length (arena p)"
  shows "logs_for (up_at p es) (plat p) (plat p')"
  using assms
proof (induction es arbitrary: p rms)
  case Nil
  then show ?case by (auto intro: logs_for_same)
next
  case (Cons e es)
  obtain c h where e: "e = (c, h)" by fastforce
  obtain rm s w where ts: "tick_session api (config p) now_ms now (sess p h) (plat p) = (rm, s, w)" by (metis prod_cases3)
  let ?p1 = "set_sess h s (p\<lparr>plat := w\<rparr>)"
  obtain rms2 where rec: "tick_scan api now_ms now es ?p1 = (rms2, p')"
    using Cons.prems(1) e ts by (auto simp: on_session_def split: prod.splits)
  have h: "h < length (arena p)" using Cons.prems(2) e by simp
  note tk = tick_session_frame(1) [OF ts]
  have "link_of s = link_of (sess p h)" "same_identity (sess p h) s" using tk by (simp_all add: ticked_def)
  then have same: "out_peer (out_adapter (inner (sess ?p1 h'))) = out_peer (out_adapter (inner (sess p h')))"
      "state (inner (sess ?p1 h')) = state (inner (sess p h'))" for h'
    using h by (auto simp: sess_set_sess same_identity_def link_of_def split: session_state.splits)
  have "logs_for (up_at ?p1 es) w (plat p')" using Cons.IH [OF rec] Cons.prems(2) by simp
  then have "logs_for (up_at p (e # es)) w (plat p')" by (rule logs_for_mono) (auto simp: up_at_def same)
  moreover have "logs_for (up_at p (e # es)) (plat p) w"
    using tick_session_logs [OF ts] by (rule logs_for_mono) (auto simp: up_at_def e)
  ultimately show ?case by (blast intro: logs_for_trans)
qed

lemma prune_logs: "logs_for up (plat p) (plat (fold prune_one rms p))"
proof (induction rms arbitrary: p)
  case Nil
  show ?case by (simp add: logs_for_same)
next
  case (Cons c rms)
  have "logs_for up (plat p) (plat (prune_one c p))"
    by (auto simp: prune_one_def logs_for_def Let_def split: option.split)
  with Cons.IH [of "prune_one c p"] show ?case by (auto intro: logs_for_trans)
qed

lemma update_tick_logs:
  assumes "wf_peer p"
  shows "logs_for (\<lambda>d. link_up (view p (canonicalize d))) (plat p) (plat (update_tick api p))"
proof (cases "sessions p = []")
  case True
  then show ?thesis by (simp add: update_tick_def logs_for_same)
next
  case False
  obtain now_ms w1 where cm: "current_ms (plat p) = (now_ms, w1)" by fastforce
  obtain now w2 where ep: "epoch_ms w1 = (now, w2)" by fastforce
  obtain rms p1 where sc: "tick_scan api now_ms now (sessions p) (p\<lparr>plat := w2\<rparr>) = (rms, p1)" by fastforce
  have off: "offered w2 = offered (plat p)"
    using offered_current_ms [of "plat p"] cm epoch_ms_facts(1) [OF ep] by simp
  have "\<forall>(c, h) \<in> set (sessions p). h < length (arena (p\<lparr>plat := w2\<rparr>))" using assms by (auto simp: wf_peer_def)
  note scan = tick_scan_logs [OF sc this]
  have up: "link_up (view p (canonicalize d))" if u: "up_at (p\<lparr>plat := w2\<rparr>) (sessions p) d" for d
  proof -
    obtain c h where ch: "(c, h) \<in> set (sessions p)" "d = out_peer (out_adapter (inner (sess p h)))"
      "state (inner (sess p h)) = Established" using u by (auto simp: up_at_def)
    then have "hm_get (sessions p) c = Some h" using wf_table_entries [OF assms] by blast
    moreover from wf_lookup(2) [OF assms this] ch(2) have "canonicalize d = c" by (simp add: session_at_def)
    ultimately show ?thesis using ch(3) by (simp add: view_Some link_of_def)
  qed
  have "logs_for (\<lambda>d. link_up (view p (canonicalize d))) w2 (plat p1)"
    using logs_for_mono [OF scan up] by simp
  moreover have "logs_for (\<lambda>d. link_up (view p (canonicalize d))) (plat p) w2" using off by (rule logs_for_same)
  moreover have "update_tick api p = fold prune_one rms p1" using False cm ep sc by (simp add: update_tick_def)
  ultimately show ?thesis using prune_logs by (metis logs_for_trans)
qed

section \<open>The network\<close>

text \<open>
  The network may deliver whatever a side has ever offered to its socket, in any order and any number of
  times, also a datagram that the socket refused: a real network does less, and what holds for all these
  runs holds for its runs. \<open>sent_on\<close> are the datagrams that the socket took.
\<close>

definition sent_on :: "sock_addr \<Rightarrow> 'k kcp_peer \<Rightarrow> bytes set" where
  "sent_on b p = {m. \<exists>d. (d, m) \<in> set (sent (plat p)) \<and> canonicalize d = canonicalize b}"

definition on_wire :: "sock_addr \<Rightarrow> 'k kcp_peer \<Rightarrow> bytes set" where
  "on_wire b p = {m. \<exists>d. (d, m) \<in> set (offered (plat p)) \<and> canonicalize d = canonicalize b}"

definition control_on :: "sock_addr \<Rightarrow> 'k kcp_peer \<Rightarrow> (packet_type \<times> u32) set" where
  "control_on b p = {(t, c). t \<noteq> KcpData \<and> (\<exists>m \<in> on_wire b p. decode_control m = Some (t, c))}"

text \<open>What a side does by itself; an id is drawn from \<open>C\<close> when there is no link yet.\<close>

inductive lossy_act :: "'k kcp_api \<Rightarrow> u32 set \<Rightarrow> sock_addr \<Rightarrow> 'k kcp_peer \<Rightarrow> 'k kcp_peer \<Rightarrow> bool" for api C peer where
  act_send: "(view p (canonicalize peer) = NoLink \<Longrightarrow> conv \<in> C) \<Longrightarrow> send api conv peer data p = (r, p') \<Longrightarrow>
     lossy_act api C peer p p'"
| act_recv: "recv p = (m, p') \<Longrightarrow> lossy_act api C peer p p'"
| act_stats: "stats api addr p = (st, p') \<Longrightarrow> lossy_act api C peer p p'"
| act_disconnect: "lossy_act api C peer p (disconnect peer p)"
| act_tick: "lossy_act api C peer p (update_tick api p)"

type_synonym 'k pair = "'k kcp_peer \<times> 'k kcp_peer"

inductive hears :: "'k kcp_api \<Rightarrow> sock_addr \<Rightarrow> sock_addr \<Rightarrow> 'k pair \<Rightarrow> 'k pair \<Rightarrow> bool" for api a b where
  a_hears: "m \<in> on_wire a B \<Longrightarrow> handle_incoming api m b A = Some (r, A') \<Longrightarrow> hears api a b (A, B) (A', B)"
| b_hears: "m \<in> on_wire b A \<Longrightarrow> handle_incoming api m a B = Some (r, B') \<Longrightarrow> hears api a b (A, B) (A, B')"

text \<open>The deliveries among them of datagrams that a socket took.\<close>

inductive hears_sent :: "'k kcp_api \<Rightarrow> sock_addr \<Rightarrow> sock_addr \<Rightarrow> 'k pair \<Rightarrow> 'k pair \<Rightarrow> bool" for api a b where
  a_hears_sent: "m \<in> sent_on a B \<Longrightarrow> handle_incoming api m b A = Some (r, A') \<Longrightarrow> hears_sent api a b (A, B) (A', B)"
| b_hears_sent: "m \<in> sent_on b A \<Longrightarrow> handle_incoming api m a B = Some (r, B') \<Longrightarrow> hears_sent api a b (A, B) (A, B')"

inductive lossy_step :: "'k kcp_api \<Rightarrow> u32 set \<Rightarrow> u32 set \<Rightarrow> sock_addr \<Rightarrow> sock_addr \<Rightarrow> 'k pair \<Rightarrow> 'k pair \<Rightarrow> bool"
  for api CA CB a b where
  a_does: "lossy_act api CA b A A' \<Longrightarrow> lossy_step api CA CB a b (A, B) (A', B)"
| b_does: "lossy_act api CB a B B' \<Longrightarrow> lossy_step api CA CB a b (A, B) (A, B')"
| heard: "hears api a b s s' \<Longrightarrow> lossy_step api CA CB a b s s'"

definition lossy_init :: "'k pair \<Rightarrow> bool" where
  "lossy_init = (\<lambda>(A, B). bound_peer A \<and> bound_peer B \<and> offered (plat A) = [] \<and> offered (plat B) = [])"

lemma wire_grows:
  assumes "logs (plat p) (plat p')"
  shows "on_wire b p' = on_wire b p \<union> set (offered_between b p p')"
  using assms by (force simp: logs_def on_wire_def offered_between_def)

lemma sent_on_wire: "accepting (plat p) \<Longrightarrow> sent_on b p = on_wire b p"
  by (simp add: sent_on_def on_wire_def sent_accepting)

lemma kinds_set: "set (kinds ms) = {(t, c). t \<noteq> KcpData \<and> (\<exists>m \<in> set ms. decode_control m = Some (t, c))}"
  by (induction ms) (auto split: option.splits if_splits)

lemma control_on_grows:
  assumes "logs (plat p) (plat p')"
  shows "control_on b p' = control_on b p \<union> set (kinds (offered_between b p p'))"
  unfolding control_on_def wire_grows [OF assms] kinds_set by auto

section \<open>What a side adds to the network\<close>

definition lost_one :: "event list \<Rightarrow> bool" where
  "lost_one evs \<longleftrightarrow> (\<exists>addr. Disconnected addr \<in> set evs)"

lemma lost_one_append [simp]: "lost_one (xs @ ys) \<longleftrightarrow> lost_one xs \<or> lost_one ys"
  by (auto simp: lost_one_def)

lemma lost_one_Nil [simp]: "\<not> lost_one []"
  by (simp add: lost_one_def)

text \<open>
  The effect of an action on the link to \<open>peer\<close>: it stays, is opened with an id of \<open>C\<close>, or is
  lost with an event. Only an opening link sends SYNs, with its own id, and only an established one data.
\<close>

definition acted :: "u32 set \<Rightarrow> sock_addr \<Rightarrow> 'k kcp_peer \<Rightarrow> 'k kcp_peer \<Rightarrow> bool" where
  "acted C peer p p' \<longleftrightarrow> peer_ok p' \<and> local_addr p' = local_addr p \<and> logs (plat p) (plat p') \<and>
     (let l = view p (canonicalize peer); l' = view p' (canonicalize peer); ks = set (kinds (offered_between peer p p')) in
      (\<exists>evs. event_log p' = event_log p @ evs \<and>
        (l' = l \<or> l = NoLink \<and> (\<exists>c \<in> C. l' = Opening c \<and> (Syn, c) \<in> ks) \<or> l' = NoLink \<and> lost_one evs) \<and>
        (\<forall>(t, c) \<in> ks. t = Syn \<and> (l = Opening c \<or> l = NoLink \<and> l' = Opening c) \<or> t = Reset \<and> lost_one evs)) \<and>
      (\<not> link_up l \<longrightarrow> (\<forall>m \<in> set (offered_between peer p p'). \<not> is_data m)))"

lemma actedI:
  assumes "peer_ok p" and "wf_peer p'" and "same_env p p'" and "logs (plat p) (plat p')"
    and "event_log p' = event_log p @ evs"
    and "view p' (canonicalize peer) = view p (canonicalize peer) \<or>
      view p (canonicalize peer) = NoLink \<and> (\<exists>c \<in> C. view p' (canonicalize peer) = Opening c \<and> (Syn, c) \<in> set (kinds (offered_between peer p p'))) \<or>
      view p' (canonicalize peer) = NoLink \<and> lost_one evs"
    and "\<And>t c. (t, c) \<in> set (kinds (offered_between peer p p')) \<Longrightarrow>
      t = Syn \<and> (view p (canonicalize peer) = Opening c \<or> view p (canonicalize peer) = NoLink \<and> view p' (canonicalize peer) = Opening c) \<or>
      t = Reset \<and> lost_one evs"
    and "\<not> link_up (view p (canonicalize peer)) \<longrightarrow> (\<forall>m \<in> set (offered_between peer p p'). \<not> is_data m)"
  shows "acted C peer p p'"
  using assms peer_okI [OF assms(2,3,1)] unfolding acted_def Let_def by (auto simp: same_env_def)

lemma acted_quiet:
  assumes "peer_ok p" and "wf_peer p'" and "same_env p p'" and "offered (plat p') = offered (plat p)"
    and "event_log p' = event_log p" and "view p' = view p"
  shows "acted C peer p p'"
  using assms by (intro actedI [where evs = "[]"]) (simp_all add: logs_def offered_between_def)

lemma acted_send:
  assumes ok: "peer_ok p" and conv: "view p (canonicalize peer) = NoLink \<Longrightarrow> conv \<in> C"
    and run: "send api conv peer data p = (r, p')"
  shows "acted C peer p p'"
proof -
  have wf: "wf_peer p" using ok by (simp add: peer_ok_def)
  note mv = moves_send [OF wf run] and lg = send_logs [OF wf run]
  show ?thesis
  proof (cases "view p (canonicalize peer) = NoLink")
    case True
    with mv have m: "moves p (canonicalize peer) (Opening conv) [] [(peer, encode_control Syn conv)] p'" by simp
    then have "kinds (offered_between peer p p') = [(Syn, conv)]"
      using offered_between_kinds [of p p' "[(peer, encode_control Syn conv)]" peer] lg
      by (simp add: moves_def decode_encode_control)
    with m True conv lg offered_between_control show ?thesis
      by (intro actedI [OF ok, where evs = "[]"]) (auto simp: moves_def)
  next
    case False
    with mv have m: "moves p (canonicalize peer) (view p (canonicalize peer)) [] [] p'" by simp
    then have "kinds (offered_between peer p p') = []"
      using offered_between_kinds [of p p' "[]" peer] lg by (simp add: moves_def)
    with m lg offered_between_control show ?thesis
      by (intro actedI [OF ok, where evs = "[]"]) (auto simp: moves_def)
  qed
qed

lemma acted_disconnect:
  assumes ok: "peer_ok p"
  shows "acted C peer p (disconnect peer p)"
proof (cases "link_conv (view p (canonicalize peer))")
  case None
  with moves_disconnect [of p peer] ok have "disconnect peer p = p" by (simp add: peer_ok_def)
  with ok show ?thesis by (intro acted_quiet) (simp_all add: peer_ok_def)
next
  case (Some c)
  let ?p = "disconnect peer p"
  from moves_disconnect [of p peer] ok Some
  have m: "moves p (canonicalize peer) NoLink [Disconnected peer] (replicate 3 (peer, encode_control Reset c)) ?p"
    by (simp add: peer_ok_def)
  have lg: "logs_control (plat p) (plat ?p)"
    by (auto simp: disconnect_def logs_control_def Let_def split: option.split)
  have "kinds (offered_between peer p ?p) = replicate 3 (Reset, c)"
    using offered_between_kinds [OF logs_control_logs [OF lg], of "replicate 3 (peer, encode_control Reset c)" peer] m
    by (simp add: moves_def decode_encode_control)
  with m logs_control_logs [OF lg] offered_between_control [OF lg] show ?thesis
    by (intro actedI [OF ok, where evs = "[Disconnected peer]"]) (auto simp: moves_def lost_one_def)
qed

lemma acted_tick:
  assumes ok: "peer_ok p"
  shows "acted C peer p (update_tick api p)"
proof -
  have wf: "wf_peer p" using ok by (simp add: peer_ok_def)
  note lg = update_tick_logs [OF wf, of api]
  from wf refl [of "update_tick api p"] show ?thesis
  proof (rule update_tick_spec)
    fix rms Q
    let ?p = "update_tick api p"
    assume a: "wf_peer ?p" "same_env p ?p" "\<forall>c \<in> set rms. \<exists>h. hm_get (sessions p) c = Some h"
      "\<And>c. view ?p c = (if c \<in> set rms then NoLink else view p c)"
      "event_log ?p = event_log p @ pruned_events p rms"
      "control_sent (plat ?p) = control_sent (plat p) @ retried p (filter Q (sessions p)) @ pruned_resets p rms"
      "\<And>c h. (c, h) \<in> set (sessions p) \<Longrightarrow> Q (c, h) \<Longrightarrow> state (inner (sess p h)) = SynSent"
    have lost: "lost_one (pruned_events p rms)" if "c \<in> set rms" for c
      using that by (auto simp: lost_one_def pruned_events_def)
    have ks: "t = Syn \<and> view p (canonicalize peer) = Opening c \<or> t = Reset \<and> lost_one (pruned_events p rms)"
      if tc: "(t, c) \<in> set (kinds (offered_between peer p ?p))" for t c
    proof -
      obtain d m where dm: "(d, m) \<in> set (retried p (filter Q (sessions p)) @ pruned_resets p rms)"
        "canonicalize d = canonicalize peer" "decode_control m = Some (t, c)"
        using tc offered_between_kinds [OF logs_for_logs [OF lg] a(6), of peer] by (auto simp: kinds_set)
      then consider can h where "(can, h) \<in> set (sessions p)" "Q (can, h)" "d = peer_addr (sess p h)"
          "m = encode_control Syn (conv_id (inner (sess p h)))"
        | can c' where "can \<in> set rms" "m = encode_control Reset c'"
        by (auto simp: retried_def pruned_resets_def Let_def)
      then show ?thesis
      proof cases
        case (1 can h)
        have get: "hm_get (sessions p) can = Some h" using 1(1) wf_table_entries [OF wf] by blast
        have "can = canonicalize peer" using wf_lookup(2) [OF wf get] dm(2) 1(3) by (simp add: session_at_def)
        moreover have "view p can = Opening (conv_id (inner (sess p h)))"
          using a(7) [OF 1(1,2)] by (simp add: view_Some [OF get] link_of_cases)
        ultimately show ?thesis using dm(3) 1(4) by (simp add: decode_encode_control)
      next
        case (2 can c')
        with dm(3) lost show ?thesis by (simp add: decode_encode_control)
      qed
    qed
    show ?thesis
    proof (rule actedI [OF ok a(1,2) logs_for_logs [OF lg] a(5)])
      show "view ?p (canonicalize peer) = view p (canonicalize peer) \<or>
        view p (canonicalize peer) = NoLink \<and> (\<exists>c \<in> C. view ?p (canonicalize peer) = Opening c \<and> (Syn, c) \<in> set (kinds (offered_between peer p ?p))) \<or>
        view ?p (canonicalize peer) = NoLink \<and> lost_one (pruned_events p rms)"
        using a(4) [of "canonicalize peer"] lost by simp
      show "\<not> link_up (view p (canonicalize peer)) \<longrightarrow> (\<forall>m \<in> set (offered_between peer p ?p). \<not> is_data m)"
        using offered_between_for [OF lg, of peer] by simp
    qed (use ks in blast)
  qed
qed

lemma lossy_act_acted:
  assumes ok: "peer_ok p" and "lossy_act api C peer p p'"
  shows "acted C peer p p'"
  using assms(2)
proof cases
  case (act_recv m)
  then obtain ms b where "p' = p\<lparr>pending_data := ms, data_notify := b\<rparr>" using recv_frame by blast
  with ok show ?thesis by (intro acted_quiet) (simp_all add: peer_ok_def same_env_def fun_eq_iff)
next
  case (act_stats addr st)
  then obtain w where "p' = p\<lparr>plat := w\<rparr>" "same_oracles (plat p) w" "offered w = offered (plat p)"
    using stats_frame by blast
  with ok show ?thesis by (intro acted_quiet) (simp_all add: peer_ok_def same_env_def fun_eq_iff)
qed (use acted_send [OF ok] acted_disconnect [OF ok] acted_tick [OF ok] in blast)+

lemma hear_effect:
  assumes ok: "peer_ok p" and run: "handle_incoming api m from p = Some (r, p')"
    and lp: "link_packet (local_addr p < from) from m (view p (canonicalize from)) = (l, evs, ctl)"
  shows "peer_ok p'" "local_addr p' = local_addr p" "view p' (canonicalize from) = l" "event_log p' = event_log p @ evs"
    "logs (plat p) (plat p')" "control_on from p' = control_on from p \<union> set ctl"
    "\<not> link_up l \<Longrightarrow> \<forall>m \<in> set (offered_between from p p'). \<not> is_data m"
proof -
  have wf: "wf_peer p" and my: "sock_local_addr (plat p) = Inr (local_addr p)" using ok by (simp_all add: peer_ok_def)
  note d = delivery_link [OF ok run lp]
  show lg: "logs (plat p) (plat p')" using incoming_logs [OF wf my lp run] by blast
  show "event_log p' = event_log p @ evs" using moves_incoming [OF wf my lp run] by (simp add: moves_def)
  show "control_on from p' = control_on from p \<union> set ctl" using control_on_grows [OF lg] d by simp
qed (use delivery_link [OF ok run lp] in simp_all)

section \<open>Where the ids come from\<close>

definition drawn :: "u32 set \<Rightarrow> u32 set \<Rightarrow> link \<Rightarrow> (packet_type \<times> u32) set \<Rightarrow> bool" where
  "drawn C D l K \<longleftrightarrow> (\<forall>c. l = Opening c \<longrightarrow> c \<in> C) \<and> (\<forall>c. l = Up c \<longrightarrow> c \<in> C \<union> D) \<and> (\<forall>c. (Syn, c) \<in> K \<longrightarrow> c \<in> C)"

definition answered :: "link \<Rightarrow> (packet_type \<times> u32) set \<Rightarrow> bool" where
  "answered l K \<longleftrightarrow> (link_up l \<longrightarrow> (\<exists>(t, c) \<in> K. t = Syn \<or> t = SynAck))"

definition ids_ok :: "u32 set \<Rightarrow> u32 set \<Rightarrow> sock_addr \<Rightarrow> sock_addr \<Rightarrow> 'k pair \<Rightarrow> bool" where
  "ids_ok CA CB a b = (\<lambda>(A, B). peer_ok A \<and> peer_ok B \<and>
     drawn CA CB (view A (canonicalize b)) (control_on b A) \<and> drawn CB CA (view B (canonicalize a)) (control_on a B) \<and>
     answered (view A (canonicalize b)) (control_on a B) \<and> answered (view B (canonicalize a)) (control_on b A))"

lemma ids_ok_swap: "ids_ok CA CB a b (A, B) = ids_ok CB CA b a (B, A)"
  by (auto simp: ids_ok_def)

lemma link_on_ids:
  assumes "link_on y f t d l = (l', evs, ctl)"
  shows "l' = Opening c \<Longrightarrow> l = Opening c"
    "l' = Up c \<Longrightarrow> l = Up c \<or> l = Opening c \<or> t = Syn \<and> d = c"
    "(Syn, c) \<notin> set ctl" "link_up l' \<Longrightarrow> link_up l \<or> t = Syn \<or> t = SynAck"
  using assms by (cases l; cases t; auto simp: link_reset_def link_data_def Let_def split: if_splits)+

lemma link_packet_ids:
  assumes "link_packet y f m l = (l', evs, ctl)"
  shows "l' = Opening c \<Longrightarrow> l = Opening c"
    "l' = Up c \<Longrightarrow> l = Up c \<or> l = Opening c \<or> decode_control m = Some (Syn, c)"
    "(Syn, c) \<notin> set ctl"
    "link_up l' \<Longrightarrow> link_up l \<or> (\<exists>t c. decode_control m = Some (t, c) \<and> (t = Syn \<or> t = SynAck))"
  using assms
  by (auto simp: link_packet_def split: option.splits dest: link_on_ids(1,2,4)) (metis link_on_ids(3))

lemma wire_control: "m \<in> on_wire b p \<Longrightarrow> decode_control m = Some (t, c) \<Longrightarrow> t \<noteq> KcpData \<Longrightarrow> (t, c) \<in> control_on b p"
  by (auto simp: control_on_def)

lemma ids_act:
  assumes ok: "ids_ok CA CB a b (A, B)" and act: "lossy_act api CA b A A'"
  shows "ids_ok CA CB a b (A', B)"
proof -
  have pa: "peer_ok A" using ok by (simp add: ids_ok_def)
  note ac = lossy_act_acted [OF pa act, unfolded acted_def Let_def]
  then have K: "control_on b A' = control_on b A \<union> set (kinds (offered_between b A A'))" using control_on_grows by blast
  let ?l = "view A (canonicalize b)" and ?l' = "view A' (canonicalize b)"
  have l: "?l' = ?l \<or> ?l' = NoLink \<or> (\<exists>c \<in> CA. ?l' = Opening c)" using ac by blast
  have "c \<in> CA" if "(Syn, c) \<in> set (kinds (offered_between b A A'))" for c
  proof -
    have "?l = Opening c \<or> ?l' = Opening c" using ac that by fastforce
    with l ok show ?thesis by (auto simp: ids_ok_def drawn_def)
  qed
  moreover have "drawn CA CB ?l (control_on b A)" using ok by (simp add: ids_ok_def)
  ultimately have "drawn CA CB ?l' (control_on b A')"
    using l unfolding K by (elim disjE bexE) (auto simp: drawn_def)
  moreover have "answered ?l' (control_on a B)" using l ok by (auto simp: ids_ok_def answered_def)
  moreover have "answered (view B (canonicalize a)) (control_on b A')" using ok unfolding K by (auto simp: ids_ok_def answered_def)
  moreover have "peer_ok A'" using ac by blast
  ultimately show ?thesis using ok by (simp add: ids_ok_def)
qed

lemma ids_hear:
  assumes ok: "ids_ok CA CB a b (A, B)" and m: "m \<in> on_wire a B" and run: "handle_incoming api m b A = Some (r, A')"
  shows "ids_ok CA CB a b (A', B)"
proof -
  have pa: "peer_ok A" using ok by (simp add: ids_ok_def)
  obtain l evs ctl where lp: "link_packet (local_addr A < b) b m (view A (canonicalize b)) = (l, evs, ctl)" by (metis prod_cases3)
  note h = hear_effect [OF pa run lp] and ids = link_packet_ids [OF lp]
  have "answered l (control_on a B)"
    using ids(4) ok wire_control [OF m] by (fastforce simp: answered_def ids_ok_def)
  moreover have "drawn CA CB l (control_on b A')"
    unfolding h(6) drawn_def using ids(1-3) ok wire_control [OF m] by (fastforce simp: drawn_def ids_ok_def)
  moreover have "answered (view B (canonicalize a)) (control_on b A')"
    unfolding h(6) using ok by (auto simp: answered_def ids_ok_def)
  ultimately show ?thesis using ok h(1,3) by (simp add: ids_ok_def)
qed

lemma ids_ok_step:
  assumes ok: "ids_ok CA CB a b s" and st: "lossy_step api CA CB a b s s'"
  shows "ids_ok CA CB a b s'"
  using st
proof cases
  case (a_does A A' B)
  with ok ids_act show ?thesis by blast
next
  case (b_does B B' A)
  with ok ids_act [of CB CA b a B A api B'] show ?thesis by (simp add: ids_ok_swap)
next
  case heard
  then show ?thesis
  proof cases
    case (a_hears m B A r A')
    with ok ids_hear show ?thesis by blast
  next
    case (b_hears m A B r B')
    with ok ids_hear [of CB CA b a B A m api r B'] show ?thesis by (simp add: ids_ok_swap)
  qed
qed

lemma control_on_empty: "offered (plat p) = [] \<Longrightarrow> control_on b p = {}"
  by (simp add: control_on_def on_wire_def)

interpretation ids: invariant_of lossy_init "lossy_step api CA CB a b" "ids_ok CA CB a b" for api CA CB a b
proof
  show "ids_ok CA CB a b s" if "lossy_init s" for s :: "'a pair"
    using that by (auto simp: lossy_init_def ids_ok_def drawn_def answered_def peer_ok_bound bound_peer_view control_on_empty)
qed (fact ids_ok_step)

section \<open>One side opens\<close>

text \<open>
  Only \<open>A\<close> draws ids; \<open>B\<close> sends when it has a link. As long as no link is lost, the two links,
  the control packets ever sent and the presence of data have one of four shapes.
\<close>

inductive open_shape ::
  "u32 set \<Rightarrow> link \<Rightarrow> link \<Rightarrow> (packet_type \<times> u32) set \<Rightarrow> (packet_type \<times> u32) set \<Rightarrow> bool \<Rightarrow> bool \<Rightarrow> bool" for CA where
  os_idle: "open_shape CA NoLink NoLink {} {} False False"
| os_syn: "c \<in> CA \<Longrightarrow> open_shape CA (Opening c) NoLink {(Syn, c)} {} False False"
| os_ack: "c \<in> CA \<Longrightarrow> open_shape CA (Opening c) (Up c) {(Syn, c)} {(SynAck, c)} False db"
| os_up: "c \<in> CA \<Longrightarrow> open_shape CA (Up c) (Up c) {(Syn, c)} {(SynAck, c)} da db"

definition has_data :: "sock_addr \<Rightarrow> 'k kcp_peer \<Rightarrow> bool" where
  "has_data b p \<longleftrightarrow> (\<exists>m \<in> on_wire b p. is_data m)"

definition open_ok :: "u32 set \<Rightarrow> sock_addr \<Rightarrow> sock_addr \<Rightarrow> 'k pair \<Rightarrow> bool" where
  "open_ok CA a b = (\<lambda>(A, B). peer_ok A \<and> peer_ok B \<and>
     (\<not> lost_one (event_log A) \<and> \<not> lost_one (event_log B) \<longrightarrow>
        open_shape CA (view A (canonicalize b)) (view B (canonicalize a)) (control_on b A) (control_on a B) (has_data b A) (has_data a B)))"

lemma has_data_grows:
  "logs (plat p) (plat p') \<Longrightarrow> has_data b p' \<longleftrightarrow> has_data b p \<or> (\<exists>m \<in> set (offered_between b p p'). is_data m)"
  by (auto simp: has_data_def wire_grows)

lemma is_data_packet: "is_data m \<Longrightarrow> link_packet y f m l = (case decode_control m of Some (t, c) \<Rightarrow> link_data c l | None \<Rightarrow> (l, [], []))"
  by (auto simp: is_data_def link_packet_def decode_control_def split: option.splits)

text \<open>A datagram of the other side is one of its control packets, data, or nothing that matters.\<close>

lemma wire_cases [consumes 1, case_names control silent]:
  assumes "m \<in> on_wire b p"
  obtains t c where "(t, c) \<in> control_on b p" "\<And>y f l. link_packet y f m l = link_on y f t c l"
  | "\<And>y f l. l \<noteq> NoLink \<or> \<not> has_data b p \<Longrightarrow> link_packet y f m l = (l, [], [])"
proof (cases "\<exists>t c. decode_control m = Some (t, c) \<and> t \<noteq> KcpData")
  case True
  then obtain t c where "decode_control m = Some (t, c)" "t \<noteq> KcpData" by blast
  with assms show thesis by (intro that(1) [of t c]) (auto simp: control_on_def link_packet_def)
next
  case False
  have "is_data m" if "decode_control m = Some (KcpData, c)" for c
    using that by (auto simp: is_data_def decode_control_def split: option.splits)
  with False assms show thesis
    by (intro that(2)) (auto simp: link_packet_def link_data_def has_data_def split: option.split)
qed

text \<open>An action that loses no link.\<close>

lemma acted_kept [consumes 2, case_names same opened]:
  assumes "acted C b p p'" and "\<not> lost_one (event_log p')"
  obtains K where "view p' (canonicalize b) = view p (canonicalize b)" "control_on b p' = control_on b p \<union> K"
      "\<And>t c. (t, c) \<in> K \<Longrightarrow> t = Syn \<and> view p (canonicalize b) = Opening c"
      "has_data b p' \<Longrightarrow> has_data b p \<or> link_up (view p (canonicalize b))" "\<not> lost_one (event_log p)"
  | c where "view p (canonicalize b) = NoLink" "c \<in> C" "view p' (canonicalize b) = Opening c"
      "control_on b p' = insert (Syn, c) (control_on b p)" "has_data b p' = has_data b p" "\<not> lost_one (event_log p)"
proof -
  let ?l = "view p (canonicalize b)" and ?l' = "view p' (canonicalize b)" and ?ks = "set (kinds (offered_between b p p'))"
  have lg: "logs (plat p) (plat p')" and nd: "\<not> link_up ?l \<longrightarrow> (\<forall>m \<in> set (offered_between b p p'). \<not> is_data m)"
    using assms(1) by (simp_all add: acted_def Let_def)
  obtain evs where ev: "event_log p' = event_log p @ evs"
    and l: "?l' = ?l \<or> ?l = NoLink \<and> (\<exists>c \<in> C. ?l' = Opening c \<and> (Syn, c) \<in> ?ks) \<or> ?l' = NoLink \<and> lost_one evs"
    and ks: "\<forall>(t, c) \<in> ?ks. t = Syn \<and> (?l = Opening c \<or> ?l = NoLink \<and> ?l' = Opening c) \<or> t = Reset \<and> lost_one evs"
    using assms(1) unfolding acted_def Let_def by blast
  have ne: "\<not> lost_one evs" "\<not> lost_one (event_log p)" using assms(2) ev by simp_all
  note grow = control_on_grows [OF lg, of b] has_data_grows [OF lg, of b]
  from l ne(1) consider "?l' = ?l" | c where "?l = NoLink" "c \<in> C" "?l' = Opening c" "(Syn, c) \<in> ?ks" by blast
  then show thesis
  proof cases
    case 1
    have "t = Syn \<and> ?l = Opening c" if "(t, c) \<in> ?ks" for t c
    proof -
      from bspec [OF ks that] ne(1) have "t = Syn \<and> (?l = Opening c \<or> ?l = NoLink \<and> ?l' = Opening c)" by simp
      with 1 show ?thesis by auto
    qed
    with 1 grow nd ne show thesis by (intro that(1) [of ?ks]) blast+
  next
    case (2 c)
    have "x = (Syn, c)" if "x \<in> ?ks" for x
    proof -
      obtain t d where x: "x = (t, d)" by fastforce
      from bspec [OF ks that] ne(1) x have "t = Syn \<and> (?l = Opening d \<or> ?l = NoLink \<and> ?l' = Opening d)" by simp
      with 2 x show ?thesis by simp
    qed
    with 2(4) have "?ks = {(Syn, c)}" by blast
    with 2 grow nd ne show thesis by (intro that(2) [of c]) auto
  qed
qed

inductive_cases open_shape_no_a: "open_shape CA NoLink lb KA KB da db"

lemma open_shape_a_acts:
  assumes "open_shape CA la lb KA KB da db" and "\<And>t c. (t, c) \<in> K \<Longrightarrow> t = Syn \<and> la = Opening c"
    and "da' \<Longrightarrow> da \<or> link_up la"
  shows "open_shape CA la lb (KA \<union> K) KB da' db"
  using assms(1)
proof cases
  case (os_syn c)
  with assms have e: "KA \<union> K = {(Syn, c)}" "\<not> da'" by auto
  show ?thesis unfolding e(1) using os_syn e(2) by (simp add: open_shape.os_syn)
next
  case (os_ack c)
  with assms have e: "KA \<union> K = {(Syn, c)}" "\<not> da'" by auto
  show ?thesis unfolding e(1) using os_ack e(2) by (simp add: open_shape.os_ack)
next
  case os_idle
  with assms have "K = {}" "\<not> da'" by auto
  with os_idle show ?thesis by (simp add: open_shape.os_idle)
next
  case (os_up c)
  with assms have "K = {}" by auto
  with os_up show ?thesis by (simp add: open_shape.os_up)
qed

lemma open_shape_b_acts:
  assumes "open_shape CA la lb KA KB da db" and "\<And>t c. (t, c) \<in> K \<Longrightarrow> t = Syn \<and> lb = Opening c"
    and "db' \<Longrightarrow> db \<or> link_up lb"
  shows "open_shape CA la lb KA (KB \<union> K) da db'"
  using assms(1)
proof cases
  case os_idle
  with assms have "K = {}" "\<not> db'" by auto
  with os_idle show ?thesis by (simp add: open_shape.os_idle)
next
  case (os_syn c)
  with assms have "K = {}" "\<not> db'" by auto
  with os_syn show ?thesis by (simp add: open_shape.os_syn)
next
  case (os_ack c)
  with assms have "K = {}" by auto
  with os_ack show ?thesis by (simp add: open_shape.os_ack)
next
  case (os_up c)
  with assms have "K = {}" by auto
  with os_up show ?thesis by (simp add: open_shape.os_up)
qed

lemma open_shape_a_gets:
  assumes "open_shape CA la lb KA KB da db" and "(t, c) \<in> KB" and "link_on y f t c la = (l, evs, ctl)"
    and "\<not> link_up l \<Longrightarrow> da' = da"
  shows "open_shape CA l lb (KA \<union> set ctl) KB da' db"
  using assms by cases (auto intro: open_shape.intros)

lemma open_shape_b_gets:
  assumes "open_shape CA la lb KA KB da db" and "(t, c) \<in> KA" and "link_on y f t c lb = (l, evs, ctl)"
    and "\<not> link_up l \<Longrightarrow> db' = db"
  shows "open_shape CA la l KA (KB \<union> set ctl) da db'"
  using assms by cases (auto intro: open_shape.intros)

lemma open_shape_data:
  assumes "open_shape CA la lb KA KB da db"
  shows "la \<noteq> NoLink \<or> \<not> db" "lb \<noteq> NoLink \<or> \<not> da"
  using assms by (cases, auto)+

lemma open_act_a:
  assumes ok: "open_ok CA a b (A, B)" and act: "lossy_act api CA b A A'"
  shows "open_ok CA a b (A', B)"
proof -
  have pa: "peer_ok A" and pb: "peer_ok B" using ok by (simp_all add: open_ok_def)
  note ac = lossy_act_acted [OF pa act]
  have "open_shape CA (view A' (canonicalize b)) (view B (canonicalize a)) (control_on b A') (control_on a B) (has_data b A') (has_data a B)"
    if nl: "\<not> lost_one (event_log A')" "\<not> lost_one (event_log B)"
    using ac nl(1)
  proof (cases rule: acted_kept)
    case (same K)
    then have "open_shape CA (view A (canonicalize b)) (view B (canonicalize a)) (control_on b A) (control_on a B) (has_data b A) (has_data a B)"
      using ok nl by (simp add: open_ok_def)
    from open_shape_a_acts [OF this same(3,4)] same(1,2) show ?thesis by simp
  next
    case (opened c)
    then have "open_shape CA NoLink (view B (canonicalize a)) (control_on b A) (control_on a B) (has_data b A) (has_data a B)"
      using ok nl by (simp add: open_ok_def)
    then show ?thesis by (rule open_shape_no_a) (use opened in \<open>simp add: open_shape.os_syn\<close>)
  qed
  with ac pb show ?thesis by (simp add: open_ok_def acted_def Let_def)
qed

lemma open_act_b:
  assumes ok: "open_ok CA a b (A, B)" and act: "lossy_act api {} a B B'"
  shows "open_ok CA a b (A, B')"
proof -
  have pa: "peer_ok A" and pb: "peer_ok B" using ok by (simp_all add: open_ok_def)
  note ac = lossy_act_acted [OF pb act]
  have "open_shape CA (view A (canonicalize b)) (view B' (canonicalize a)) (control_on b A) (control_on a B') (has_data b A) (has_data a B')"
    if nl: "\<not> lost_one (event_log A)" "\<not> lost_one (event_log B')"
    using ac nl(2)
  proof (cases rule: acted_kept)
    case (same K)
    then have sh: "open_shape CA (view A (canonicalize b)) (view B (canonicalize a)) (control_on b A) (control_on a B) (has_data b A) (has_data a B)"
      using ok nl by (simp add: open_ok_def)
    from open_shape_b_acts [OF sh same(3,4)] same(1,2) show ?thesis by simp
  qed simp
  with ac pa show ?thesis by (simp add: open_ok_def acted_def Let_def)
qed

lemma open_hear_a:
  assumes ok: "open_ok CA a b (A, B)" and m: "m \<in> on_wire a B" and run: "handle_incoming api m b A = Some (r, A')"
  shows "open_ok CA a b (A', B)"
proof -
  have pa: "peer_ok A" and pb: "peer_ok B" using ok by (simp_all add: open_ok_def)
  obtain l evs ctl where lp: "link_packet (local_addr A < b) b m (view A (canonicalize b)) = (l, evs, ctl)" by (metis prod_cases3)
  note h = hear_effect [OF pa run lp]
  have d: "has_data b A' = has_data b A" if "\<not> link_up l" using h(7) [OF that] has_data_grows [OF h(5), of b] by auto
  have "open_shape CA l (view B (canonicalize a)) (control_on b A') (control_on a B) (has_data b A') (has_data a B)"
    if nl: "\<not> lost_one (event_log A')" "\<not> lost_one (event_log B)"
  proof -
    have sh: "open_shape CA (view A (canonicalize b)) (view B (canonicalize a)) (control_on b A) (control_on a B) (has_data b A) (has_data a B)"
      using ok nl h(4) by (simp add: open_ok_def)
    from m show ?thesis
    proof (cases rule: wire_cases)
      case (control t c)
      with lp have lo: "link_on (local_addr A < b) b t c (view A (canonicalize b)) = (l, evs, ctl)" by simp
      from open_shape_a_gets [OF sh control(1) lo d] h(6) show ?thesis by simp
    next
      case silent
      from silent [OF open_shape_data(1) [OF sh]] lp have "l = view A (canonicalize b)" "ctl = []" by simp_all
      with open_shape_a_acts [OF sh, of "{}" "has_data b A'"] h(6) d show ?thesis by auto
    qed
  qed
  with h(1,3) pb show ?thesis by (simp add: open_ok_def)
qed

lemma open_hear_b:
  assumes ok: "open_ok CA a b (A, B)" and m: "m \<in> on_wire b A" and run: "handle_incoming api m a B = Some (r, B')"
  shows "open_ok CA a b (A, B')"
proof -
  have pa: "peer_ok A" and pb: "peer_ok B" using ok by (simp_all add: open_ok_def)
  obtain l evs ctl where lp: "link_packet (local_addr B < a) a m (view B (canonicalize a)) = (l, evs, ctl)" by (metis prod_cases3)
  note h = hear_effect [OF pb run lp]
  have d: "has_data a B' = has_data a B" if "\<not> link_up l" using h(7) [OF that] has_data_grows [OF h(5), of a] by auto
  have "open_shape CA (view A (canonicalize b)) l (control_on b A) (control_on a B') (has_data b A) (has_data a B')"
    if nl: "\<not> lost_one (event_log A)" "\<not> lost_one (event_log B')"
  proof -
    have sh: "open_shape CA (view A (canonicalize b)) (view B (canonicalize a)) (control_on b A) (control_on a B) (has_data b A) (has_data a B)"
      using ok nl h(4) by (simp add: open_ok_def)
    from m show ?thesis
    proof (cases rule: wire_cases)
      case (control t c)
      with lp have lo: "link_on (local_addr B < a) a t c (view B (canonicalize a)) = (l, evs, ctl)" by simp
      from open_shape_b_gets [OF sh control(1) lo d] h(6) show ?thesis by simp
    next
      case silent
      from silent [OF open_shape_data(2) [OF sh]] lp have "l = view B (canonicalize a)" "ctl = []" by simp_all
      with open_shape_b_acts [OF sh, of "{}" "has_data a B'"] h(6) d show ?thesis by auto
    qed
  qed
  with h(1,3) pa show ?thesis by (simp add: open_ok_def)
qed

lemma open_ok_step:
  assumes ok: "open_ok CA a b s" and st: "lossy_step api CA {} a b s s'"
  shows "open_ok CA a b s'"
  using st
proof cases
  case heard
  then show ?thesis by cases (use ok open_hear_a open_hear_b in blast)+
qed (use ok open_act_a open_act_b in blast)+

interpretation one_side: invariant_of lossy_init "lossy_step api CA {} a b" "open_ok CA a b" for api CA a b
proof
  show "open_ok CA a b s" if "lossy_init s" for s :: "'a pair"
    using that open_shape.os_idle
    by (auto simp: lossy_init_def open_ok_def has_data_def on_wire_def peer_ok_bound bound_peer_view control_on_empty)
qed (fact open_ok_step)

lemma control_on_wire: "(t, c) \<in> control_on b p \<Longrightarrow> \<exists>m \<in> on_wire b p. decode_control m = Some (t, c)"
  by (auto simp: control_on_def)

text \<open>What is on the wire suffices to finish.\<close>

lemma finish_a:
  assumes laws: "kcp_recv_laws api q" and ok: "peer_ok A" and v: "view A (canonicalize b) = Opening c"
    and K: "(SynAck, c) \<in> control_on a B"
  shows "\<exists>A'. hears api a b (A, B) (A', B) \<and> view A' (canonicalize b) = Up c \<and>
    (accepting (plat B) \<longrightarrow> hears_sent api a b (A, B) (A', B))"
proof -
  obtain m where m: "m \<in> on_wire a B" "decode_control m = Some (SynAck, c)" using control_on_wire [OF K] by blast
  obtain r A' where run: "handle_incoming api m b A = Some (r, A')" using handle_incoming_returns [OF laws] by blast
  have "link_packet (local_addr A < b) b m (view A (canonicalize b)) = (Up c, [Connected b], [])"
    using v m(2) by (simp add: link_packet_def)
  from hear_effect(3) [OF ok run this] a_hears [OF m(1) run] a_hears_sent [OF _ run] m(1) sent_on_wire show ?thesis by blast
qed

lemma finish_b:
  assumes laws: "kcp_recv_laws api q" and ok: "peer_ok B" and v: "view B (canonicalize a) = NoLink"
    and K: "(Syn, c) \<in> control_on b A"
  shows "\<exists>B'. hears api a b (A, B) (A, B') \<and> view B' (canonicalize a) = Up c \<and> (SynAck, c) \<in> control_on a B' \<and> same_env B B' \<and>
    (accepting (plat A) \<longrightarrow> hears_sent api a b (A, B) (A, B'))"
proof -
  obtain m where m: "m \<in> on_wire b A" "decode_control m = Some (Syn, c)" using control_on_wire [OF K] by blast
  obtain r B' where run: "handle_incoming api m a B = Some (r, B')" using handle_incoming_returns [OF laws] by blast
  have "link_packet (local_addr B < a) a m (view B (canonicalize a)) = (Up c, [Connected a], [(SynAck, c)])"
    using v m(2) by (simp add: link_packet_def)
  note eff = hear_effect(3,6) [OF ok run this]
  have "hears_sent api a b (A, B) (A, B')" if "accepting (plat A)"
    using b_hears_sent [OF _ run] m(1) sent_on_wire [OF that] by simp
  with eff b_hears [OF m(1) run] incoming_env [OF ok run] show ?thesis by auto
qed

text \<open>A run of the stand-in: the first peer sends.\<close>

lemma demo_lossy_send:
  obtains A where "lossy_init (demo_peer (V4 1 9000), demo_peer (V4 2 9000))"
    "(lossy_step (mini_api to_le_bytes) {7} {} (V4 1 9000) (V4 2 9000))\<^sup>*\<^sup>*
       (demo_peer (V4 1 9000), demo_peer (V4 2 9000)) (A, demo_peer (V4 2 9000))"
    "view A (canonicalize (V4 2 9000)) = Opening 7" "event_log A = []"
proof -
  let ?a = "V4 1 9000" and ?b = "V4 2 9000" and ?api = "mini_api to_le_bytes"
  obtain r A where se: "send ?api 7 ?b [1] (demo_peer ?a) = (r, A)" by fastforce
  have "lossy_init (demo_peer ?a, demo_peer ?b)"
    unfolding lossy_init_def bound_peer_def using demo_peer_bind [of ?a] demo_peer_bind [of ?b]
    by (auto simp: demo_peer_def fair_platform_def offered_def)
  moreover have "lossy_step ?api {7} {} ?a ?b (demo_peer ?a, demo_peer ?b) (A, demo_peer ?b)"
    by (rule a_does, rule act_send [OF _ se]) simp
  moreover have "moves (demo_peer ?a) (canonicalize ?b) (Opening 7) [] [(?b, encode_control Syn 7)] A"
    using moves_send [OF _ se] by simp
  ultimately show thesis by (intro that [of A]) (auto simp: moves_def demo_peer_def)
qed

section \<open>Properties\<close>

text \<open>
  No id comes from nowhere, whatever the network does: two fresh peers run over a network that loses,
  repeats, delays and reorders, with both applications sending and disconnecting and both update tasks
  retrying and pruning at any time. Then every link has an id that one of the two sides drew, a handshake
  under way has an id of its own side, and no link is established without a SYN or a SYN_ACK of the other
  side.
\<close>

theorem lossy_ids_drawn:
  assumes "lossy_init s" and "(lossy_step api CA CB a b)\<^sup>*\<^sup>* s (A, B)"
  shows "(\<forall>c. view A (canonicalize b) = Opening c \<longrightarrow> c \<in> CA) \<and> (\<forall>c. view A (canonicalize b) = Up c \<longrightarrow> c \<in> CA \<union> CB) \<and>
    (\<forall>c. view B (canonicalize a) = Opening c \<longrightarrow> c \<in> CB) \<and> (\<forall>c. view B (canonicalize a) = Up c \<longrightarrow> c \<in> CA \<union> CB) \<and>
    (link_up (view A (canonicalize b)) \<longrightarrow> (\<exists>c. (Syn, c) \<in> control_on a B \<or> (SynAck, c) \<in> control_on a B)) \<and>
    (link_up (view B (canonicalize a)) \<longrightarrow> (\<exists>c. (Syn, c) \<in> control_on b A \<or> (SynAck, c) \<in> control_on b A))"
  using ids.reach_inv [OF assms] by (auto simp: ids_ok_def drawn_def answered_def)

theorem lossy_ids_drawn_witness:
  "\<exists>A. (lossy_step (mini_api to_le_bytes) {7} {} (V4 1 9000) (V4 2 9000))\<^sup>*\<^sup>*
       (demo_peer (V4 1 9000), demo_peer (V4 2 9000)) (A, demo_peer (V4 2 9000)) \<and>
     view A (canonicalize (V4 2 9000)) = Opening 7 \<and> (7 :: u32) \<in> {7}"
proof -
  obtain A where A: "lossy_init (demo_peer (V4 1 9000), demo_peer (V4 2 9000))"
    "(lossy_step (mini_api to_le_bytes) {7} {} (V4 1 9000) (V4 2 9000))\<^sup>*\<^sup>*
       (demo_peer (V4 1 9000), demo_peer (V4 2 9000)) (A, demo_peer (V4 2 9000))"
    "view A (canonicalize (V4 2 9000)) = Opening 7" "event_log A = []" by (rule demo_lossy_send)
  with lossy_ids_drawn [OF A(1,2)] show ?thesis by blast
qed

text \<open>
  C7. Opening from one side is safe and can always finish, whatever the network does: of two fresh peers
  only \<open>A\<close> starts a session, \<open>B\<close> sends once it has one, SYNs are retried and the network loses,
  repeats, delays and reorders. As long as no \<^verbatim>\<open>Disconnected\<close> has been reported, \<open>B\<close> has no
  link unless \<open>A\<close> has one with the same id, an established link of \<open>A\<close> means that \<open>B\<close> is
  established with that id, and once \<open>A\<close> has started, the datagrams already offered and the
  answers to them are enough to establish both sides; with sockets that take every datagram, these are
  datagrams the sockets took.
\<close>

theorem lossy_open_agrees:
  assumes "kcp_recv_laws api q" and "lossy_init s" and "(lossy_step api CA {} a b)\<^sup>*\<^sup>* s (A, B)"
    and "\<not> lost_one (event_log A)" and "\<not> lost_one (event_log B)"
  shows "(\<forall>c. link_conv (view B (canonicalize a)) = Some c \<longrightarrow>
      view B (canonicalize a) = Up c \<and> link_conv (view A (canonicalize b)) = Some c) \<and>
    (\<forall>c. view A (canonicalize b) = Up c \<longrightarrow> view B (canonicalize a) = Up c) \<and>
    (\<forall>c. link_conv (view A (canonicalize b)) = Some c \<longrightarrow>
      (\<exists>A' B'. (hears api a b)\<^sup>*\<^sup>* (A, B) (A', B') \<and> view A' (canonicalize b) = Up c \<and> view B' (canonicalize a) = Up c \<and>
         (accepting (plat A) \<and> accepting (plat B) \<longrightarrow> (hears_sent api a b)\<^sup>*\<^sup>* (A, B) (A', B'))))"
proof -
  have ok: "open_ok CA a b (A, B)" using one_side.reach_inv [OF assms(2,3)] .
  then have pa: "peer_ok A" and pb: "peer_ok B"
    and sh: "open_shape CA (view A (canonicalize b)) (view B (canonicalize a)) (control_on b A) (control_on a B) (has_data b A) (has_data a B)"
    using assms(4,5) by (simp_all add: open_ok_def)
  from sh show ?thesis
  proof cases
    case (os_syn c)
    obtain B' where B': "hears api a b (A, B) (A, B')" "view B' (canonicalize a) = Up c" "(SynAck, c) \<in> control_on a B'" "same_env B B'"
      "accepting (plat A) \<longrightarrow> hears_sent api a b (A, B) (A, B')"
      using finish_b [OF assms(1) pb os_syn(2), of c b A] os_syn by auto
    obtain A' where A': "hears api a b (A, B') (A', B')" "view A' (canonicalize b) = Up c"
      "accepting (plat B') \<longrightarrow> hears_sent api a b (A, B') (A', B')"
      using finish_a [OF assms(1) pa os_syn(1) B'(3)] by blast
    have "(hears api a b)\<^sup>*\<^sup>* (A, B) (A', B')" using B'(1) A'(1) by simp
    moreover have "accepting (plat B) \<Longrightarrow> accepting (plat B')" using B'(4) accepting_same by (auto simp: same_env_def)
    then have "(hears_sent api a b)\<^sup>*\<^sup>* (A, B) (A', B')" if "accepting (plat A)" "accepting (plat B)" using B'(5) A'(3) that by simp
    ultimately show ?thesis using A'(2) B'(2) os_syn by auto
  next
    case (os_ack c)
    obtain A' where A': "hears api a b (A, B) (A', B)" "view A' (canonicalize b) = Up c"
      "accepting (plat B) \<longrightarrow> hears_sent api a b (A, B) (A', B)"
      using finish_a [OF assms(1) pa os_ack(1), of a B] os_ack by auto
    then have "(hears api a b)\<^sup>*\<^sup>* (A, B) (A', B)" "accepting (plat B) \<longrightarrow> (hears_sent api a b)\<^sup>*\<^sup>* (A, B) (A', B)" by blast+
    with A'(2) os_ack show ?thesis by auto
  qed auto
qed

theorem lossy_open_agrees_witness:
  "\<exists>A A' B'. (lossy_step (mini_api to_le_bytes) {7} {} (V4 1 9000) (V4 2 9000))\<^sup>*\<^sup>*
       (demo_peer (V4 1 9000), demo_peer (V4 2 9000)) (A, demo_peer (V4 2 9000)) \<and>
     (hears (mini_api to_le_bytes) (V4 1 9000) (V4 2 9000))\<^sup>*\<^sup>* (A, demo_peer (V4 2 9000)) (A', B') \<and>
     view A' (canonicalize (V4 2 9000)) = Up 7 \<and> view B' (canonicalize (V4 1 9000)) = Up 7"
proof -
  obtain A where A: "lossy_init (demo_peer (V4 1 9000), demo_peer (V4 2 9000))"
    "(lossy_step (mini_api to_le_bytes) {7} {} (V4 1 9000) (V4 2 9000))\<^sup>*\<^sup>*
       (demo_peer (V4 1 9000), demo_peer (V4 2 9000)) (A, demo_peer (V4 2 9000))"
    "view A (canonicalize (V4 2 9000)) = Opening 7" "event_log A = []" by (rule demo_lossy_send)
  have "\<not> lost_one (event_log A)" "\<not> lost_one (event_log (demo_peer (V4 2 9000)))"
    using A(4) by (simp_all add: demo_peer_def)
  note agrees = lossy_open_agrees [OF mini_recv_laws A(1,2) this]
  have "link_conv (view A (canonicalize (V4 2 9000))) = Some 7" unfolding A(3) by simp
  with conjunct2 [OF conjunct2 [OF agrees]] A(2) show ?thesis by blast
qed

end
