(* ===== verification/First_Message.thy ===== *)
theory First_Message
  imports Duplex_Net
begin

text \<open>
  From one application to the other: the message of a first \<^verbatim>\<open>send\<close> is queued in KCP while the
  handshake runs, flushed when the SYN_ACK arrives, and comes out of \<^verbatim>\<open>recv\<close> at the other peer.
  What KCP contributes is a hypothesis, \<open>kcp_ships\<close>: on a path without loss the frames that a fresh
  instance writes for a message make a fresh instance of the same conversation deliver that message.
\<close>

section \<open>The contribution of KCP\<close>

text \<open>The frames of an operation whose writes all succeed, and its result.\<close>

primrec frames :: "'r write_prog \<Rightarrow> bytes list \<times> 'r" where
  "frames (Done r) = ([], r)"
| "frames (WriteFrame b cont) = (case frames (cont (Inr (length b))) of (fs, r) \<Rightarrow> (b # fs, r))"

text \<open>Frames taken one after the other, the receive queue drained after each.\<close>

fun receive_frames :: "'k kcp_api \<Rightarrow> bytes list \<Rightarrow> 'k \<Rightarrow> (bytes list \<times> 'k) option" where
  "receive_frames api [] k = Some ([], k)"
| "receive_frames api (f # fs) k =
     (case api_input api f k of
        (Inl _, _) \<Rightarrow> None
      | (Inr _, k1) \<Rightarrow>
          (case drain api k1 [] of
             Some (Inr _, ms, k2) \<Rightarrow>
               (case receive_frames api fs k2 of None \<Rightarrow> None | Some (ms', k3) \<Rightarrow> Some (ms @ ms', k3))
           | _ \<Rightarrow> None))"

definition kcp_ships :: "'k kcp_api \<Rightarrow> bytes \<Rightarrow> 'k \<Rightarrow> 'k \<Rightarrow> bool" where
  "kcp_ships api data ks kr \<longleftrightarrow>
     (\<forall>now n k1 fs1 r1 k2 fs2 r2.
        api_send api data ks = (Inr n, k1) \<longrightarrow>
        frames (api_update api now k1) = (fs1, r1, k2) \<longrightarrow> frames (api_flush api k2) = (fs2, r2) \<longrightarrow>
        (\<forall>f \<in> set (fs1 @ fs2). length f < 65535) \<and> (\<exists>kr'. receive_frames api (fs1 @ fs2) kr = Some ([data], kr')))"

section \<open>The sender\<close>

lemma run_prog_frames:
  assumes "accepting w" and "run_prog prog d w = (r, d', w')" and "frames prog = (fs, r')"
  shows "r = r' \<and> offered w' = offered w @ map (\<lambda>f. (out_peer d, encode_kcp_data f)) fs"
  using assms
proof (induction prog arbitrary: d w fs)
  case (WriteFrame b cont)
  obtain x d1 w1 where dw: "direct_write b d w = (x, d1, w1)" by (metis prod_cases3)
  have x: "x = Inr (length b)"
    using dw WriteFrame.prems(1) by (auto simp: direct_write_eq try_send_to_def Let_def accepting_def encode_kcp_data_def)
  have "w1 = snd (try_send_to (encode_kcp_data b) (out_peer d) w)"
    using dw by (auto simp: direct_write_eq split: prod.splits sum.splits if_splits)
  then have w1: "offered w1 = offered w @ [(out_peer d, encode_kcp_data b)]" by simp
  obtain fs1 where fs1: "frames (cont x) = (fs1, r')" "fs = b # fs1"
    using WriteFrame.prems(3) x by (auto split: prod.splits)
  have "accepting w1" "out_peer d1 = out_peer d"
    using direct_write_frame [OF dw] WriteFrame.prems(1) accepting_same by (auto simp: data_only_def)
  with WriteFrame.IH [OF rangeI, of w1 x d1 fs1] WriteFrame.prems(2) dw fs1 w1 show ?case by simp
qed simp

lemma run_kcp_frames:
  assumes "accepting w" and "run_kcp prog s w = (r, s', w')" and "frames prog = (fs, r', k)"
  shows "r = r' \<and> kcp (inner s') = k \<and> offered w' = offered w @ map (\<lambda>f. (out_peer (out_adapter (inner s)), encode_kcp_data f)) fs"
proof -
  obtain k' d where rp: "run_prog prog (out_adapter (inner s)) w = ((r, k'), d, w')"
    and s': "s' = s\<lparr>inner := (inner s)\<lparr>kcp := k', out_adapter := d\<rparr>\<rparr>"
    using assms(2) by (auto simp: run_kcp_def split: prod.splits)
  from run_prog_frames [OF assms(1) rp assms(3)] s' show ?thesis by simp
qed

text \<open>What the transition to Established puts on the wire: all that KCP has queued.\<close>

lemma establish_frames:
  assumes acc: "accepting w" and es: "establish api s w = (s', w')"
  obtains now fs1 r1 k2 fs2 r2 where "frames (api_update api now (kcp (inner s))) = (fs1, r1, k2)"
    "frames (api_flush api k2) = (fs2, r2)"
    "offered w' = offered w @ map (\<lambda>f. (out_peer (out_adapter (inner s)), encode_kcp_data f)) (fs1 @ fs2)"
    "kcp (inner s') = snd r2"
proof -
  obtain t w1 where ep: "epoch_ms w = (t, w1)" by fastforce
  let ?s = "(set_inner_state Established s)\<lparr>last_rx := t\<rparr>"
  obtain now w2 where cm: "current_ms w1 = (now, w2)" by fastforce
  obtain ru s2 w3 where up: "run_kcp (api_update api now (kcp (inner ?s))) ?s w2 = (ru, s2, w3)" by (metis prod_cases3)
  obtain rf where fl: "run_kcp (api_flush api (kcp (inner s2))) s2 w3 = (rf, s', w')"
    using es ep cm up by (auto simp: establish_def flush_queued_def split: prod.splits)
  obtain fs1 r1 k2 where f1: "frames (api_update api now (kcp (inner ?s))) = (fs1, r1, k2)" by (metis prod_cases3)
  obtain fs2 r2 k3 where f2: "frames (api_flush api k2) = (fs2, r2, k3)" by (metis prod_cases3)
  have "same_oracles w w2" "offered w2 = offered w"
    using ep cm same_oracles_current_ms [of w1] offered_current_ms [of w1] epoch_ms_facts [OF ep]
    by (auto intro: frame_trans)
  then have acc2: "accepting w2" using acc accepting_same by blast
  note k2 = run_kcp_frames [OF acc2 up f1]
  have acc3: "accepting w3" using run_kcp_frame [OF up] acc2 accepting_same by (auto simp: data_only_def)
  have "frames (api_flush api (kcp (inner s2))) = (fs2, r2, k3)" using k2 f2 by simp
  note k3 = run_kcp_frames [OF acc3 fl this]
  have "out_peer (out_adapter (inner s2)) = out_peer (out_adapter (inner s))"
    using kcp_frame_fields(9) [OF conjunct1 [OF run_kcp_frame [OF up]]] by simp
  with f1 f2 k2 k3 \<open>offered w2 = offered w\<close> show thesis by (intro that [of now fs1 r1 k2 fs2 "(r2, k3)"]) simp_all
qed

lemma first_send_session:
  assumes wf: "wf_peer p" and none: "hm_get (sessions p) (canonicalize peer) = None"
    and run: "send api conv peer data p = (Inr (), p')"
  obtains h n where "hm_get (sessions p') (canonicalize peer) = Some h" "h < length (arena p')"
    "api_send api data (apply_to api (config p) (api_new api conv)) = (Inr n, kcp (inner (sess p' h)))"
    "state (inner (sess p' h)) = SynSent" "conv_id (inner (sess p' h)) = conv"
    "out_peer (out_adapter (inner (sess p' h))) = peer"
proof -
  obtain h p1 where is1: "initiate_session api conv peer p = (h, p1)" by fastforce
  obtain s w where no: "new_outbound api conv peer (own_incarnation p) (config p) (plat p) = (s, w)" by fastforce
  obtain s1 w1 where ss: "send_syn s w = (s1, w1)" by fastforce
  have s: "kcp (inner s) = apply_to api (config p) (api_new api conv)" "state (inner s) = SynSent"
      "conv_id (inner s) = conv" "out_peer (out_adapter (inner s)) = peer"
    using no by (auto simp: new_outbound_def Let_def split: prod.splits)
  have i1: "inner s1 = inner s" using send_syn_frame(1) [OF ss] by auto
  have h: "sess p1 h = s1" "h < length (arena p1)"
    using is1 none no ss by (auto simp: initiate_defs on_session_def sess_def set_sess_def Let_def)
  have os: "on_session (send_data api data) h p1 = (Inr (), p')" using run none is1 by (simp add: send_def)
  obtain s2 w2 where sd: "send_data api data s1 (plat p1) = (Inr (), s2, w2)" and p': "p' = set_sess h s2 (p1\<lparr>plat := w2\<rparr>)"
    using os h(1) by (auto simp: on_session_def split: prod.splits)
  have "sess p' h = s2" using h(2) by (simp add: p' sess_set_sess)
  moreover obtain n where "api_send api data (kcp (inner s1)) = (Inr n, kcp (inner s2))"
      "inner s2 = (inner s1)\<lparr>kcp := kcp (inner s2)\<rparr>"
    using sd s(2) i1 by (auto simp: send_data_def Let_def split: if_splits prod.splits sum.splits)
  moreover from this(2) have "state (inner s2) = SynSent \<and> conv_id (inner s2) = conv \<and> out_peer (out_adapter (inner s2)) = peer"
    using s i1 by (metis session_inner.select_convs(2-4) session_inner.surjective session_inner.update_convs(1))
  moreover have "hm_get (sessions p') (canonicalize peer) = Some h"
    using moves_initiate [OF wf none is1] by (simp add: p')
  ultimately show thesis using s(1) i1 h(2) by (intro that [of h n]) (simp_all add: p')
qed

lemma synack_frames:
  assumes acc: "accepting (plat p)" and get: "hm_get (sessions p) (canonicalize from) = Some h"
    and st: "state (inner (sess p h)) = SynSent" "conv_id (inner (sess p h)) = conv"
    and run: "handle_incoming api (encode_control SynAck conv) from p = Some (r, p')"
  obtains now fs1 r1 k2 fs2 r2 s where "frames (api_update api now (kcp (inner (sess p h)))) = (fs1, r1, k2)"
    "frames (api_flush api k2) = (fs2, r2)"
    "offered (plat p') = offered (plat p) @ map (\<lambda>f. (out_peer (out_adapter (inner (sess p h))), encode_kcp_data f)) (fs1 @ fs2)"
    "p' = emit (Connected from) (set_sess h s (p\<lparr>plat := plat p'\<rparr>))" "kcp (inner s) = snd r2"
    "\<exists>t. kcp_frame ((set_inner_state Established (sess p h))\<lparr>last_rx := t\<rparr>) s"
proof -
  obtain s2 w where es: "establish api (sess p h) (plat p) = (s2, w)" by fastforce
  have p': "p' = emit (Connected from) (set_sess h s2 (p\<lparr>plat := w\<rparr>))"
    using run get st es read_conv_to_le_bytes [of conv "[]"] by (auto simp: handle_incoming_def on_syn_ack_def)
  have "\<exists>t. kcp_frame ((set_inner_state Established (sess p h))\<lparr>last_rx := t\<rparr>) s2"
    using es by (auto simp: establish_def split: prod.splits dest!: flush_queued_frame(1))
  moreover obtain now fs1 r1 k2 fs2 r2 where "frames (api_update api now (kcp (inner (sess p h)))) = (fs1, r1, k2)"
    "frames (api_flush api k2) = (fs2, r2)"
    "offered w = offered (plat p) @ map (\<lambda>f. (out_peer (out_adapter (inner (sess p h))), encode_kcp_data f)) (fs1 @ fs2)"
    "kcp (inner s2) = snd r2" by (rule establish_frames [OF acc es])
  ultimately show thesis using p' by (intro that [of now fs1 r1 k2 fs2 r2 s2]) simp_all
qed

text \<open>The datagrams that the SYN_ACK releases.\<close>

lemma first_message_frames:
  assumes wf: "wf_peer A" and acc: "accepting (plat A)" and none: "hm_get (sessions A) (canonicalize b) = None"
    and ships: "kcp_ships api data (apply_to api (config A) (api_new api conv)) kr"
    and se: "send api conv b data A = (Inr (), A1)"
    and hi: "handle_incoming api (encode_control SynAck conv) b A1 = Some (r, A2)" and env: "same_env A1 A2"
  obtains fs k where "sent_between b A1 A2 = map encode_kcp_data fs" "\<forall>f \<in> set fs. length f < 65535"
    "receive_frames api fs kr = Some ([data], k)"
proof -
  obtain h n where h: "hm_get (sessions A1) (canonicalize b) = Some h"
    "api_send api data (apply_to api (config A) (api_new api conv)) = (Inr n, kcp (inner (sess A1 h)))"
    "state (inner (sess A1 h)) = SynSent" "conv_id (inner (sess A1 h)) = conv"
    "out_peer (out_adapter (inner (sess A1 h))) = b"
    by (rule first_send_session [OF wf none se])
  have "same_oracles (plat A) (plat A1)"
    using moves_send [OF wf se] by (auto simp: moves_def same_env_def split: if_splits)
  then have acc1: "accepting (plat A1)" using acc accepting_same by blast
  from synack_frames [OF acc1 h(1,3,4) hi] obtain now fs1 r1 k2 fs2 r2 where
    fr: "frames (api_update api now (kcp (inner (sess A1 h)))) = (fs1, r1, k2)" "frames (api_flush api k2) = (fs2, r2)"
    and off: "offered (plat A2) = offered (plat A1) @ map (\<lambda>f. (b, encode_kcp_data f)) (fs1 @ fs2)"
    unfolding h(5) by metis
  obtain k where "\<forall>f \<in> set (fs1 @ fs2). length f < 65535" "receive_frames api (fs1 @ fs2) kr = Some ([data], k)"
    using ships h(2) fr unfolding kcp_ships_def by blast
  moreover have "sent_between b A1 A2 = map encode_kcp_data (fs1 @ fs2)"
    unfolding sent_between_accepting [OF acc1 env] offered_between_def off by (simp add: comp_def filter_map)
  ultimately show thesis by (intro that)
qed

section \<open>The receiver\<close>

lemma first_syn_session:
  assumes none: "hm_get (sessions p) (canonicalize from) = None" and my: "sock_local_addr (plat p) = Inr my"
    and run: "handle_incoming api (encode_control Syn conv) from p = Some (r, p')"
  obtains h where "hm_get (sessions p') (canonicalize from) = Some h" "h < length (arena p')"
    "kcp (inner (sess p' h)) = apply_to api (config p) (api_new api conv)" "peer_addr (sess p' h) = from"
    "pending_data p' = pending_data p" "shutdown_token p' = shutdown_token p"
proof -
  obtain s w where ni: "new_inbound api conv from (own_incarnation p) (config p) (plat p) = (s, w)" by fastforce
  have "p' = insert_inbound from s (p\<lparr>plat := w\<rparr>)"
    using run none my ni read_conv_to_le_bytes [of conv "[]"]
    by (simp add: handle_incoming_def on_syn_def syn_decide_def syn_ack_reply_def syn_create_def Let_def)
  then have p': "sessions p' = hm_insert (canonicalize from) (length (arena p)) (sessions p)" "arena p' = arena p @ [s]"
      "pending_data p' = pending_data p" "shutdown_token p' = shutdown_token p"
    by (simp_all add: insert_inbound_def alloc_def)
  moreover have "kcp (inner s) = apply_to api (config p) (api_new api conv)" "peer_addr s = from"
    using ni by (auto simp: new_inbound_def Let_def split: prod.splits)
  ultimately show thesis by (intro that [of "length (arena p)"]) (simp_all add: sess_def)
qed

text \<open>The peer after a session has taken data: KCP's state, the time of the last packet, the clock.\<close>

definition took :: "'k kcp_peer \<Rightarrow> handle \<Rightarrow> 'k \<Rightarrow> 'k kcp_peer \<Rightarrow> bool" where
  "took p h k p' \<longleftrightarrow> sessions p' = sessions p \<and> event_log p' = event_log p \<and> length (arena p') = length (arena p) \<and>
     same_env p p' \<and> offered (plat p') = offered (plat p) \<and>
     (\<exists>t. sess p' h = (sess p h)\<lparr>last_rx := t, inner := (inner (sess p h))\<lparr>kcp := k\<rparr>\<rparr>)"

lemma took_refl: "took p h (kcp (inner (sess p h))) p"
  by (auto simp: took_def intro!: exI [of _ "last_rx (sess p h)"])

lemma took_trans: "took p h k p' \<Longrightarrow> took p' h k' p'' \<Longrightarrow> took p h k' p''"
  by (auto simp: took_def intro: same_env_trans)

lemma incoming_takes:
  assumes get: "hm_get (sessions p) (canonicalize from) = Some h" and h: "h < length (arena p)"
    and inp: "api_input api f (kcp (inner (sess p h))) = (Inr n, k1)" and dr: "drain api k1 [] = Some (Inr u, ms, k2)"
  shows "\<exists>p'. handle_incoming api (encode_kcp_data f) from p = Some (Inr (), p') \<and> took p h k2 p' \<and>
    pending_data p' = pending_data p @ map (\<lambda>m. \<lparr>dm_peer = peer_addr (sess p h), dm_data = m\<rparr>) ms"
proof -
  obtain now w where ep: "epoch_ms (plat p) = (now, w)" by fastforce
  let ?s = "(sess p h)\<lparr>last_rx := now, inner := (inner (sess p h))\<lparr>kcp := k2\<rparr>\<rparr>"
  let ?p = "set_sess h ?s (p\<lparr>plat := w\<rparr>)"
  let ?q = "if ms \<noteq> [] then ?p\<lparr>pending_data := pending_data p @ map (\<lambda>m. \<lparr>dm_peer = peer_addr (sess p h), dm_data = m\<rparr>) ms,
      data_notify := True\<rparr> else ?p"
  have "handle_incoming api (encode_kcp_data f) from p = Some (Inr (), ?q)"
    using get inp dr ep
    by (simp add: handle_incoming_def on_kcp_data_def session_input_def try_recv_all_def set_sess_twice Let_def)
  moreover have "took p h k2 ?q"
    using h epoch_ms_facts [OF ep] by (auto simp: took_def same_env_def sess_set_sess)
  ultimately show ?thesis by (intro exI [of _ ?q]) simp
qed

lemma receive_data_frames:
  assumes "hm_get (sessions p) (canonicalize from) = Some h" and "h < length (arena p)" and "\<not> shutdown_token p"
    and "\<forall>f \<in> set fs. length f < 65535" and "receive_frames api fs (kcp (inner (sess p h))) = Some (ms, k)"
  shows "\<exists>p'. receive_task api (map (\<lambda>f. Inr (encode_kcp_data f, from)) fs) p = Some p' \<and> took p h k p' \<and>
    pending_data p' = pending_data p @ map (\<lambda>m. \<lparr>dm_peer = peer_addr (sess p h), dm_data = m\<rparr>) ms"
  using assms
proof (induction fs arbitrary: p ms)
  case Nil
  then show ?case using took_refl by auto
next
  case (Cons f fs)
  obtain n k1 where inp: "api_input api f (kcp (inner (sess p h))) = (Inr n, k1)"
    using Cons.prems(5) by (auto split: prod.splits sum.splits)
  obtain u ms1 k2 where dr: "drain api k1 [] = Some (Inr u, ms1, k2)"
    using Cons.prems(5) inp by (auto split: option.splits sum.splits)
  obtain ms2 where rest: "receive_frames api fs k2 = Some (ms2, k)" "ms = ms1 @ ms2"
    using Cons.prems(5) inp dr by (auto split: option.splits)
  obtain q where q: "handle_incoming api (encode_kcp_data f) from p = Some (Inr (), q)" "took p h k2 q"
    "pending_data q = pending_data p @ map (\<lambda>m. \<lparr>dm_peer = peer_addr (sess p h), dm_data = m\<rparr>) ms1"
    using incoming_takes [OF Cons.prems(1,2) inp dr] by blast
  then have same: "sessions q = sessions p" "length (arena q) = length (arena p)" "\<not> shutdown_token q"
      "kcp (inner (sess q h)) = k2" "peer_addr (sess q h) = peer_addr (sess p h)"
    using Cons.prems(3) by (auto simp: took_def same_env_def)
  obtain p' where "receive_task api (map (\<lambda>f. Inr (encode_kcp_data f, from)) fs) q = Some p'" "took q h k p'"
      "pending_data p' = pending_data q @ map (\<lambda>m. \<lparr>dm_peer = peer_addr (sess q h), dm_data = m\<rparr>) ms2"
    using Cons.IH [of q ms2] Cons.prems rest(1) same by auto
  moreover have "take 65535 (encode_kcp_data f) = encode_kcp_data f"
    using Cons.prems(4) by (simp add: encode_kcp_data_def)
  ultimately show ?case using Cons.prems(3) rest(2) q same(5) took_trans by auto
qed

section \<open>Properties\<close>

text \<open>
  C1. A first message gets through, from one application to the other. \<open>A\<close> sends to \<open>b\<close> where
  neither side has a session; the call succeeds while the data waits in KCP. The SYN it puts on the wire
  arrives at \<open>B\<close>, whose SYN_ACK arrives at \<open>A\<close>: both sides are established on the id \<open>A\<close>
  drew, with one \<^verbatim>\<open>Connected\<close> event each. The SYN_ACK makes \<open>A\<close> put the frames of the
  message on the wire, and when \<open>B\<close>'s receive task takes exactly these datagrams, \<open>B\<close>'s
  application gets the message from \<^verbatim>\<open>recv\<close>, with the same bytes and \<open>A\<close>'s address, once,
  after what it had pending.
\<close>

theorem first_message_delivered:
  assumes "peer_ok A" and "peer_ok B" and "accepting (plat A)" and "\<not> shutdown_token B"
    and "view A (canonicalize b) = NoLink" and "view B (canonicalize a) = NoLink"
    and "kcp_ships api data (apply_to api (config A) (api_new api conv)) (apply_to api (config B) (api_new api conv))"
    and "send api conv b data A = (Inr (), A1)"
    and "handle_incoming api (encode_control Syn conv) a B = Some (rb, B1)"
    and "handle_incoming api (encode_control SynAck conv) b A1 = Some (ra, A2)"
  shows "control_sent (plat A1) = control_sent (plat A) @ [(b, encode_control Syn conv)] \<and>
    control_sent (plat B1) = control_sent (plat B) @ [(a, encode_control SynAck conv)] \<and>
    view A2 = (view A)(canonicalize b := Up conv) \<and> view B1 = (view B)(canonicalize a := Up conv) \<and>
    event_log A2 = event_log A @ [Connected b] \<and> event_log B1 = event_log B @ [Connected a] \<and>
    (\<exists>B2. receive_task api (map (\<lambda>m. Inr (m, a)) (sent_between b A1 A2)) B1 = Some B2 \<and>
       fst (recv_times (length (pending_data B) + 2) B2) =
         map (\<lambda>m. Ready (Inr m)) (pending_data B @ [\<lparr>dm_peer = a, dm_data = data\<rparr>]) @ [Pending])"
proof -
  have wf: "wf_peer A" "wf_peer B" and my: "sock_local_addr (plat A) = Inr (local_addr A)"
      "sock_local_addr (plat B) = Inr (local_addr B)" using assms(1,2) by (simp_all add: peer_ok_def)
  have none: "hm_get (sessions A) (canonicalize b) = None" "hm_get (sessions B) (canonicalize a) = None"
    using assms(5,6) by (simp_all add: view_def link_of_cases split: option.splits)
  have s: "moves A (canonicalize b) (Opening conv) [] [(b, encode_control Syn conv)] A1"
    using moves_send [OF wf(1) assms(8)] assms(5) by simp
  have b1: "moves B (canonicalize a) (Up conv) [Connected a] (reply_to a [(SynAck, conv)]) B1"
    by (rule incoming_control [OF wf(2) my(2) assms(9)]) (simp add: assms(6))
  have v: "view A1 (canonicalize b) = Opening conv" using s by (simp add: moves_def)
  have a2: "moves A1 (canonicalize b) (Up conv) [Connected b] (reply_to b []) A2"
    by (rule incoming_control [OF moves_wf [OF s] moves_local [OF s my(1)] assms(10)]) (simp add: v)
  have t: "moves A (canonicalize b) (Up conv) [Connected b] [(b, encode_control Syn conv)] A2"
    using moves_trans [OF s a2] by simp
  obtain fs k where fs: "sent_between b A1 A2 = map encode_kcp_data fs" "\<forall>f \<in> set fs. length f < 65535"
    "receive_frames api fs (apply_to api (config B) (api_new api conv)) = Some ([data], k)"
    by (rule first_message_frames [OF wf(1) assms(3) none(1) assms(7,8,10)]) (use a2 in \<open>simp add: moves_def\<close>)
  obtain g where g: "hm_get (sessions B1) (canonicalize a) = Some g" "g < length (arena B1)"
    "kcp (inner (sess B1 g)) = apply_to api (config B) (api_new api conv)" "peer_addr (sess B1 g) = a"
    "pending_data B1 = pending_data B" "shutdown_token B1 = shutdown_token B"
    by (rule first_syn_session [OF none(2) my(2) assms(9)])
  have "\<not> shutdown_token B1" "receive_frames api fs (kcp (inner (sess B1 g))) = Some ([data], k)"
    using g(3,6) assms(4) fs(3) by simp_all
  from receive_data_frames [OF g(1,2) this(1) fs(2) this(2)] g(4,5) obtain B2 where
    B2: "receive_task api (map (\<lambda>f. Inr (encode_kcp_data f, a)) fs) B1 = Some B2" "took B1 g k B2"
    "pending_data B2 = pending_data B @ [\<lparr>dm_peer = a, dm_data = data\<rparr>]" by auto
  have "\<not> shutdown_token B2" using B2(2) \<open>\<not> shutdown_token B1\<close> by (simp add: took_def same_env_def)
  have "fst (recv_times (length (pending_data B) + 2) B2) =
      map (\<lambda>m. Ready (Inr m)) (pending_data B @ [\<lparr>dm_peer = a, dm_data = data\<rparr>]) @ [Pending]"
    using recv_times_eq [of "length (pending_data B) + 2" B2] \<open>\<not> shutdown_token B2\<close> B2(3) by simp
  moreover have "receive_task api (map (\<lambda>m. Inr (m, a)) (sent_between b A1 A2)) B1 = Some B2"
    using B2(1) unfolding fs(1) by (simp add: comp_def)
  ultimately show ?thesis
    using s b1 t moves_view [OF b1] moves_view [OF t] by (auto simp: moves_def)
qed

text \<open>The stand-in for KCP ships every message of moderate size.\<close>

lemma mini_ships:
  assumes "length data < 65531" and "mk_conv ks = mk_conv kr" and "mk_snd ks = []" and "mk_rcv kr = []"
  shows "kcp_ships (mini_api to_le_bytes) data ks kr"
proof -
  have "drain (mini_api to_le_bytes) (kr\<lparr>mk_rcv := [data]\<rparr>) [] = Some (Inr (), [data], kr\<lparr>mk_rcv := []\<rparr>)"
    by (simp add: drain.simps mini_api_def)
  with assms show ?thesis by (auto simp: kcp_ships_def)
qed

lemma mini_apply [simp]:
  "mk_conv (apply_to (mini_api h) cfg k) = mk_conv k" "mk_snd (apply_to (mini_api h) cfg k) = mk_snd k"
  "mk_rcv (apply_to (mini_api h) cfg k) = mk_rcv k" "mk_dead (apply_to (mini_api h) cfg k) = mk_dead k"
  by (simp_all add: apply_to_def mini_api_def Let_def split: prod.split)

lemma demo_first_send: "fst (send (mini_api to_le_bytes) conv peer data (demo_peer me)) = Inr ()"
proof -
  obtain s w where no: "new_outbound (mini_api to_le_bytes) conv peer (own_incarnation (demo_peer me))
      (config (demo_peer me)) (plat (demo_peer me)) = (s, w)" by fastforce
  obtain s1 w1 where ss: "send_syn s w = (s1, w1)" by fastforce
  have "\<not> closed s" "state (inner s) = SynSent" "\<not> mk_dead (kcp (inner s))"
    using no by (auto simp: new_outbound_def Let_def split: prod.splits)
  with send_syn_frame(1) [OF ss] have "\<not> closed s1" "state (inner s1) = SynSent" "\<not> mk_dead (kcp (inner s1))" by auto
  then show ?thesis
    using no ss
    by (simp add: send_def initiate_defs on_session_def send_data_def hm_get_def sess_def set_sess_def Let_def split: prod.split)
qed

theorem first_message_delivered_witness:
  "\<exists>A1 rb B1 ra A2 B2.
     send (mini_api to_le_bytes) 7 (V4 2 9000) [1, 2] (demo_peer (V4 1 9000)) = (Inr (), A1) \<and>
     handle_incoming (mini_api to_le_bytes) (encode_control Syn 7) (V4 1 9000) (demo_peer (V4 2 9000)) = Some (rb, B1) \<and>
     handle_incoming (mini_api to_le_bytes) (encode_control SynAck 7) (V4 2 9000) A1 = Some (ra, A2) \<and>
     receive_task (mini_api to_le_bytes) (map (\<lambda>m. Inr (m, V4 1 9000)) (sent_between (V4 2 9000) A1 A2)) B1 = Some B2 \<and>
     fst (recv_times 2 B2) = [Ready (Inr \<lparr>dm_peer = V4 1 9000, dm_data = [1, 2]\<rparr>), Pending]"
proof -
  let ?a = "V4 1 9000" and ?b = "V4 2 9000" and ?api = "mini_api to_le_bytes"
  obtain A1 where s: "send ?api 7 ?b [1, 2] (demo_peer ?a) = (Inr (), A1)"
    using demo_first_send [of 7 ?b "[1, 2]" ?a] by (metis prod.collapse)
  obtain rb B1 where hb: "handle_incoming ?api (encode_control Syn 7) ?a (demo_peer ?b) = Some (rb, B1)"
    by (rule mini_returns)
  obtain ra A2 where ha: "handle_incoming ?api (encode_control SynAck 7) ?b A1 = Some (ra, A2)" by (rule mini_returns)
  have ok: "peer_ok (demo_peer me)" for me by (simp add: peer_ok_def) (simp add: demo_peer_def)
  have acc: "accepting (plat (demo_peer ?a))" by (simp add: demo_peer_def)
  have ships: "kcp_ships ?api [1, 2] (apply_to ?api (config (demo_peer ?a)) (api_new ?api 7))
      (apply_to ?api (config (demo_peer ?b)) (api_new ?api 7))" by (rule mini_ships) simp_all
  from first_message_delivered [OF ok ok acc _ _ _ ships s hb ha] obtain B2 where
    "receive_task ?api (map (\<lambda>m. Inr (m, ?a)) (sent_between ?b A1 A2)) B1 = Some B2"
    "fst (recv_times (length (pending_data (demo_peer ?b)) + 2) B2) =
       map (\<lambda>m. Ready (Inr m)) (pending_data (demo_peer ?b) @ [\<lparr>dm_peer = ?a, dm_data = [1, 2]\<rparr>]) @ [Pending]"
    by (auto simp del: recv_times.simps recv.simps)
  then have "receive_task ?api (map (\<lambda>m. Inr (m, ?a)) (sent_between ?b A1 A2)) B1 = Some B2 \<and>
      fst (recv_times 2 B2) = [Ready (Inr \<lparr>dm_peer = ?a, dm_data = [1, 2]\<rparr>), Pending]"
    by (simp add: numeral_2_eq_2 del: recv_times.simps recv.simps)
  with s hb ha show ?thesis by blast
qed

end
