(* ===== verification/Event_Stream.thy ===== *)
theory Event_Stream
  imports Peer_Steps
begin

text \<open>
  The event subscription of \<^verbatim>\<open>src/src/transport.rs\<close>: \<^verbatim>\<open>events()\<close> hands out a
  receiver of tokio's broadcast channel, to which every event of the log is sent. The channel is not
  part of the repository: it is a record of the two operations a subscriber uses, with what tokio
  documents of them as a law. A receiver has a place in the history of the channel; it gets every later
  value once and in order, and is told how many it has missed when it falls behind by more than the
  capacity. The theory shows what an application learns that mirrors the state of the links from events.
\<close>

section \<open>The channel\<close>

datatype recv_error = Closed | Lagged nat

record 'r broadcast_api =
  bc_subscribe :: "event list \<Rightarrow> 'r"
  bc_recv :: "event list \<Rightarrow> 'r \<Rightarrow> (recv_error + event) poll \<times> 'r"

text \<open>The first argument of both operations is the history of the channel, whose sender is alive.\<close>

definition broadcast_law :: "'r broadcast_api \<Rightarrow> nat \<Rightarrow> ('r \<Rightarrow> nat) \<Rightarrow> bool" where
  "broadcast_law bc cap pos \<longleftrightarrow>
     (\<forall>log. pos (bc_subscribe bc log) = length log) \<and>
     (\<forall>log r. pos r = length log \<longrightarrow> (\<exists>r'. bc_recv bc log r = (Pending, r') \<and> pos r' = pos r)) \<and>
     (\<forall>log r. pos r < length log \<longrightarrow>
        (\<exists>r'. bc_recv bc log r = (Ready (Inr (log ! pos r)), r') \<and> pos r' = Suc (pos r)) \<or>
        (\<exists>n r'. bc_recv bc log r = (Ready (Inl (Lagged n)), r') \<and> pos r' = pos r + n \<and>
           0 < n \<and> n + cap \<le> length log - pos r))"

definition events :: "'r broadcast_api \<Rightarrow> 'k kcp_peer \<Rightarrow> 'r" where
  "events bc p = bc_subscribe bc (event_log p)"

text \<open>A channel that keeps exactly its capacity: the receiver is its place in the history.\<close>

definition queue_api :: "nat \<Rightarrow> nat broadcast_api" where
  "queue_api cap =
     \<lparr>bc_subscribe = length,
      bc_recv = (\<lambda>log r.
        if length log \<le> r then (Pending, r)
        else if length log - r \<le> cap then (Ready (Inr (log ! r)), Suc r)
        else (Ready (Inl (Lagged (length log - cap - r))), length log - cap))\<rparr>"

lemma queue_law: "broadcast_law (queue_api cap) cap (\<lambda>r. r)"
  by (auto simp: broadcast_law_def queue_api_def)

section \<open>A subscriber\<close>

text \<open>
  The peer runs and the subscriber calls \<^verbatim>\<open>recv\<close> on its receiver at any moment, as long as it
  is not told of a lag; \<open>got\<close> are the events it has received.
\<close>

inductive sub_step ::
  "'k kcp_api \<Rightarrow> 'r broadcast_api \<Rightarrow> 'k kcp_peer \<times> 'r \<times> event list \<Rightarrow> 'k kcp_peer \<times> 'r \<times> event list \<Rightarrow> bool"
  for api bc where
  sub_peer: "peer_step api p p' \<Longrightarrow> sub_step api bc (p, r, got) (p', r, got)"
| sub_event: "bc_recv bc (event_log p) r = (Ready (Inr e), r') \<Longrightarrow> sub_step api bc (p, r, got) (p, r', got @ [e])"
| sub_wait: "bc_recv bc (event_log p) r = (Pending, r') \<Longrightarrow> sub_step api bc (p, r, got) (p, r', got)"

lemma peer_step_log:
  assumes "peer_ok p" and "peer_step api p p'"
  shows "\<exists>evs. event_log p' = event_log p @ evs"
  using assms
proof (cases rule: peer_step_moves)
  case tick
  have "wf_peer p" using assms(1) by (simp add: peer_ok_def)
  from this tick show ?thesis by (rule update_tick_spec) blast
qed (auto simp: moves_def)

text \<open>What has been received is the part of the log from the subscription to the receiver's place.\<close>

definition sub_inv ::
  "nat \<Rightarrow> 'r broadcast_api \<Rightarrow> ('r \<Rightarrow> nat) \<Rightarrow> 'k kcp_peer \<Rightarrow> 'k kcp_peer \<times> 'r \<times> event list \<Rightarrow> bool" where
  "sub_inv cap bc pos p0 = (\<lambda>(p, r, got). broadcast_law bc cap pos \<and> event_inv p0 \<and> event_inv p \<and>
     pos r = length (event_log p0) + length got \<and> (\<exists>rest. event_log p = event_log p0 @ got @ rest))"

lemma sub_inv_step:
  assumes inv: "sub_inv cap bc pos p0 s" and st: "sub_step api bc s s'"
  shows "sub_inv cap bc pos p0 s'"
  using st
proof cases
  case (sub_peer p p' r got)
  then have "event_inv p" using inv by (simp add: sub_inv_def)
  moreover from this obtain evs where "event_log p' = event_log p @ evs"
    using peer_step_log [OF _ sub_peer(3)] by (auto simp: event_inv_def)
  ultimately show ?thesis using inv sub_peer event_inv_step by (auto simp: sub_inv_def)
next
  case (sub_event p r e r' got)
  from inv sub_event(1) obtain rest where law: "broadcast_law bc cap pos"
    and pos: "pos r = length (event_log p0) + length got" and log: "event_log p = event_log p0 @ got @ rest"
    by (auto simp: sub_inv_def)
  have "pos r < length (event_log p)"
  proof (rule ccontr)
    assume "\<not> pos r < length (event_log p)"
    with pos log have "pos r = length (event_log p)" by simp
    with law sub_event(3) show False unfolding broadcast_law_def by fastforce
  qed
  with law sub_event(3) have "e = event_log p ! pos r" "pos r' = Suc (pos r)"
    unfolding broadcast_law_def by fastforce+
  moreover from \<open>pos r < length (event_log p)\<close> pos log obtain e' rest' where "rest = e' # rest'"
    by (cases rest) auto
  ultimately show ?thesis using inv sub_event(1,2) pos log by (auto simp: sub_inv_def nth_append)
next
  case (sub_wait p r r' got)
  from inv sub_wait(1) obtain rest where law: "broadcast_law bc cap pos"
    and pos: "pos r = length (event_log p0) + length got" and log: "event_log p = event_log p0 @ got @ rest"
    by (auto simp: sub_inv_def)
  have "pos r = length (event_log p)"
  proof (rule ccontr)
    assume "pos r \<noteq> length (event_log p)"
    with pos log have "pos r < length (event_log p)" by simp
    with law sub_wait(3) show False unfolding broadcast_law_def by fastforce
  qed
  with law sub_wait(3) have "pos r' = pos r" unfolding broadcast_law_def by fastforce
  with inv sub_wait(1,2) show ?thesis by (auto simp: sub_inv_def)
qed

interpretation subscriber:
  invariant_of "\<lambda>s. broadcast_law bc cap pos \<and> event_inv p0 \<and> s = (p0, events bc p0, [])" "sub_step api bc" "sub_inv cap bc pos p0"
  for api bc cap pos p0
proof
  show "sub_inv cap bc pos p0 s" if "broadcast_law bc cap pos \<and> event_inv p0 \<and> s = (p0, events bc p0, [])" for s
    using that by (auto simp: sub_inv_def events_def broadcast_law_def)
qed (fact sub_inv_step)

lemma run_events_since:
  assumes "event_inv p0" and "event_inv p" and "event_log p = event_log p0 @ xs"
  shows "run_events (phase_of (view p0 can)) (events_for can xs) = Some (phase_of (view p can))"
proof -
  have "run_events Down (events_for can (event_log p0)) = Some (phase_of (view p0 can))"
    "run_events Down (events_for can (event_log p)) = Some (phase_of (view p can))"
    using assms(1,2) by (simp_all add: event_inv_def)
  with assms(3) show ?thesis by (simp add: run_events_append)
qed

section \<open>Properties\<close>

text \<open>
  C17. An application can mirror the links from events. Whoever subscribes at some moment, notes which
  links are established and follows the events from then on, reading at arbitrary moments while the peer
  goes on, has received exactly the events since the subscription up to some point, in order and without
  gap; together with the links noted they are a run of the event protocol for every address; when the
  receiver has nothing more to give, the run ends in the present state of the link; and the next event
  is not lost as long as at most \<^verbatim>\<open>event_channel_capacity\<close> events are unread.
\<close>

theorem subscriber_mirrors_links:
  assumes "reachable api p0" and "broadcast_law bc (event_channel_capacity (config p0)) pos"
    and "(sub_step api bc)\<^sup>*\<^sup>* (p0, events bc p0, []) (p, r, got)"
  shows "\<exists>rest. event_log p = event_log p0 @ got @ rest \<and>
    (\<exists>ph. run_events (phase_of (view p0 can)) (events_for can got) = Some ph) \<and>
    (rest = [] \<longleftrightarrow> fst (bc_recv bc (event_log p) r) = Pending) \<and>
    (rest = [] \<longrightarrow> run_events (phase_of (view p0 can)) (events_for can got) = Some (phase_of (view p can))) \<and>
    (rest \<noteq> [] \<and> length rest \<le> event_channel_capacity (config p0) \<longrightarrow>
       fst (bc_recv bc (event_log p) r) = Ready (Inr (hd rest)))"
proof -
  have "event_inv p0" using assms(1) events.reach_inv unfolding reachable_def by blast
  with subscriber.reach_inv [OF _ assms(3)] assms(2)
  have "sub_inv (event_channel_capacity (config p0)) bc pos p0 (p, r, got)" by blast
  then obtain rest where inv: "event_inv p0" "event_inv p" and pos: "pos r = length (event_log p0) + length got"
    and log: "event_log p = event_log p0 @ got @ rest" by (auto simp: sub_inv_def)
  have run: "run_events (phase_of (view p0 can)) (events_for can got @ events_for can rest) = Some (phase_of (view p can))"
    using run_events_since [OF inv log] by simp
  then have "\<exists>ph. run_events (phase_of (view p0 can)) (events_for can got) = Some ph"
    by (auto simp: run_events_append split: option.splits)
  moreover have "rest = [] \<longleftrightarrow> fst (bc_recv bc (event_log p) r) = Pending"
  proof (cases rest)
    case Nil
    with pos log have "pos r = length (event_log p)" by simp
    with assms(2) Nil show ?thesis unfolding broadcast_law_def by fastforce
  next
    case (Cons e es)
    with pos log have "pos r < length (event_log p)" by simp
    with assms(2) Cons show ?thesis unfolding broadcast_law_def by fastforce
  qed
  moreover have "fst (bc_recv bc (event_log p) r) = Ready (Inr (hd rest))"
    if "rest \<noteq> []" "length rest \<le> event_channel_capacity (config p0)"
  proof -
    have "pos r < length (event_log p)" "length (event_log p) - pos r \<le> event_channel_capacity (config p0)"
      "event_log p ! pos r = hd rest"
      using that pos log by (auto simp: nth_append hd_conv_nth)
    with assms(2) show ?thesis unfolding broadcast_law_def by fastforce
  qed
  ultimately show ?thesis using log run by (intro exI [of _ rest]) (auto simp: events_for_def)
qed

theorem subscriber_mirrors_links_witness:
  "\<exists>p r. (sub_step (mini_api to_le_bytes) (queue_api (event_channel_capacity (config demo_up))))\<^sup>*\<^sup>*
       (demo_up, events (queue_api (event_channel_capacity (config demo_up))) demo_up, [])
       (p, r, [Disconnected (V4 2 9000)]) \<and>
     p = disconnect (V4 2 9000) demo_up \<and>
     (\<exists>ph. run_events Connected_phase (events_for (CanonicalAddr (V4 2 9000)) [Disconnected (V4 2 9000)]) = Some ph)"
proof -
  let ?a = "V4 2 9000" and ?bc = "queue_api (event_channel_capacity (config demo_up))"
  let ?p = "disconnect ?a demo_up" and ?r = "events ?bc demo_up" and ?step = "sub_step (mini_api to_le_bytes) ?bc"
  have v: "view demo_up (CanonicalAddr ?a) = Up 7" and cfg: "config demo_up = config_default"
    using demo_up_moves by (simp_all add: moves_def same_env_def demo_peer_def)
  from moves_disconnect [OF demo_up_sel(1), of ?a] v have log: "event_log ?p = event_log demo_up @ [Disconnected ?a]"
    by (simp add: moves_def)
  have "?step (demo_up, ?r, []) (?p, ?r, [])" by (rule sub_peer, rule step_disconnect) simp
  moreover have "bc_recv ?bc (event_log ?p) ?r = (Ready (Inr (Disconnected ?a)), Suc ?r)"
    using log by (simp add: events_def queue_api_def cfg config_default_def)
  then have "?step (?p, ?r, []) (?p, Suc ?r, [] @ [Disconnected ?a])" by (rule sub_event)
  ultimately have run: "?step\<^sup>*\<^sup>* (demo_up, ?r, []) (?p, Suc ?r, [Disconnected ?a])" by simp
  from subscriber_mirrors_links [OF demo_up_reachable queue_law run, of "CanonicalAddr ?a"] v run show ?thesis by auto
qed

end
