(* ===== verification/Send_Tasks.thy ===== *)
theory Send_Tasks
  imports Peer_Steps
begin

text \<open>
  Concurrent calls of \<^verbatim>\<open>send\<close>. The lock of the map is released between the lookups and the
  insertion of \<^verbatim>\<open>initiate_session\<close>, and the SYN is awaited, so calls from several tasks
  interleave. A call is a small state machine with one step per critical section; the system runs any
  number of calls with packets, ticks and the other operations in between, in any order.
\<close>

section \<open>A call as a state machine\<close>

record send_call =
  call_peer :: sock_addr
  call_data :: bytes
  call_conv :: u32

datatype 'k send_pc =
    Lookup
  | Check
  | Insert "'k session"
  | SynDue handle
  | SynConv handle u32
  | SynStore handle
  | SendDue handle
  | Finished "unit result"

text \<open>
  The last part of \<^verbatim>\<open>initiate_session\<close> is \<^verbatim>\<open>send_syn\<close>, in three steps: the id is read
  under the lock of the session, the SYN is awaited, and the time is stored if it went out.
\<close>

fun send_atomic :: "'k kcp_api \<Rightarrow> send_call \<Rightarrow> 'k send_pc \<Rightarrow> 'k kcp_peer \<Rightarrow> 'k send_pc \<times> 'k kcp_peer" where
  "send_atomic api call Lookup p =
     (case hm_get (sessions p) (canonicalize (call_peer call)) of
        Some h \<Rightarrow> (SendDue h, p)
      | None \<Rightarrow> (Check, p))"
| "send_atomic api call Check p =
     (case hm_get (sessions p) (canonicalize (call_peer call)) of
        Some h \<Rightarrow> (SendDue h, p)
      | None \<Rightarrow>
          (case new_outbound api (call_conv call) (call_peer call) (own_incarnation p) (config p) (plat p) of
             (s, w) \<Rightarrow> (Insert s, p\<lparr>plat := w\<rparr>)))"
| "send_atomic api call (Insert s) p =
     (case initiate_insert (canonicalize (call_peer call)) s p of
        (Inl h, p1) \<Rightarrow> (SendDue h, p1)
      | (Inr h, p1) \<Rightarrow> (SynDue h, p1))"
| "send_atomic api call (SynDue h) p = (SynConv h (conv_id (inner (sess p h))), p)"
| "send_atomic api call (SynConv h conv) p =
     (case send_to (encode_control Syn conv) (peer_addr (sess p h)) (plat p) of
        (Inl e, w) \<Rightarrow> (SendDue h, p\<lparr>plat := w\<rparr>)
      | (Inr n, w) \<Rightarrow> (SynStore h, p\<lparr>plat := w\<rparr>))"
| "send_atomic api call (SynStore h) p =
     (case epoch_ms (plat p) of
        (now, w) \<Rightarrow> (SendDue h, set_sess h ((sess p h)\<lparr>syn_sent_at := now\<rparr>) (p\<lparr>plat := w\<rparr>)))"
| "send_atomic api call (SendDue h) p =
     (case on_session (send_data api (call_data call)) h p of (r, p1) \<Rightarrow> (Finished r, p1))"
| "send_atomic api call (Finished r) p = (Finished r, p)"

text \<open>The session a call has got, and whether it still owes the SYN.\<close>

fun pc_handle :: "'k send_pc \<Rightarrow> handle option" where
  "pc_handle (SynDue h) = Some h"
| "pc_handle (SynConv h _) = Some h"
| "pc_handle (SynStore h) = Some h"
| "pc_handle (SendDue h) = Some h"
| "pc_handle _ = None"

fun owes_syn :: "'k send_pc \<Rightarrow> bool" where
  "owes_syn (SynDue _) = True"
| "owes_syn (SynConv _ _) = True"
| "owes_syn _ = False"

text \<open>The calls of a system by number, and the interleaving of their steps with those of the peer.\<close>

type_synonym 'k system = "(nat \<Rightarrow> 'k send_pc) \<times> 'k kcp_peer"

inductive sys_step :: "'k kcp_api \<Rightarrow> (nat \<Rightarrow> send_call) \<Rightarrow> 'k system \<Rightarrow> 'k system \<Rightarrow> bool" for api calls where
  call_step: "send_atomic api (calls i) (pc i) p = (c, p') \<Longrightarrow> sys_step api calls (pc, p) (pc(i := c), p')"
| other_step: "peer_step api p p' \<Longrightarrow> sys_step api calls (pc, p) (pc, p')"

inductive send_step :: "'k kcp_api \<Rightarrow> (nat \<Rightarrow> send_call) \<Rightarrow> 'k system \<Rightarrow> 'k system \<Rightarrow> bool" for api calls where
  "send_atomic api (calls i) (pc i) p = (c, p') \<Longrightarrow> send_step api calls (pc, p) (pc(i := c), p')"

section \<open>One call alone\<close>

fun send_alone :: "'k kcp_api \<Rightarrow> send_call \<Rightarrow> nat \<Rightarrow> 'k send_pc \<times> 'k kcp_peer \<Rightarrow> 'k send_pc \<times> 'k kcp_peer" where
  "send_alone api call 0 s = s"
| "send_alone api call (Suc n) (c, p) = send_alone api call n (send_atomic api call c p)"

lemma send_alone_finished [simp]: "send_alone api call n (Finished r, p) = (Finished r, p)"
  by (induction n) simp_all

text \<open>Undisturbed, the critical sections compose to the atomic definition.\<close>

lemma send_alone_eq:
  "send_alone api call 7 (Lookup, p) =
     (case send api (call_conv call) (call_peer call) (call_data call) p of (r, p') \<Rightarrow> (Finished r, p'))"
proof (cases "hm_get (sessions p) (canonicalize (call_peer call))")
  case None
  then show ?thesis
    by (simp add: numeral_eq_Suc send_def initiate_defs send_syn_def on_session_def sess_def set_sess_def Let_def
        split: prod.splits sum.splits)
next
  case (Some h)
  then show ?thesis by (simp add: numeral_eq_Suc send_def split: prod.splits)
qed

section \<open>Well-formedness under interleaving\<close>

definition pc_ok :: "send_call \<Rightarrow> 'k kcp_peer \<Rightarrow> 'k send_pc \<Rightarrow> bool" where
  "pc_ok call p c \<longleftrightarrow> (\<forall>h. pc_handle c = Some h \<longrightarrow> h < length (arena p)) \<and>
     (\<forall>s. c = Insert s \<longrightarrow> session_at (canonicalize (call_peer call)) s \<and> \<not> closed s)"

definition sys_ok :: "(nat \<Rightarrow> send_call) \<Rightarrow> 'k system \<Rightarrow> bool" where
  "sys_ok calls = (\<lambda>(pc, p). peer_ok p \<and> (\<forall>i. pc_ok (calls i) p (pc i)))"

lemma wf_set_any:
  assumes "wf_peer p" and "h < length (arena p)" and "same_identity (sess p h) s"
  shows "wf_peer (set_sess h s p)"
  using assms
  by (auto simp: wf_peer_def sess_set_sess same_identity_def session_at_def dest: bspec)

lemma pc_ok_grow: "length (arena p) \<le> length (arena p') \<Longrightarrow> pc_ok call p c \<Longrightarrow> pc_ok call p' c"
  by (auto simp: pc_ok_def dest: less_le_trans)

lemma on_session_sel:
  assumes "on_session f h p = (r, p')"
  shows "sessions p' = sessions p" "length (arena p') = length (arena p)" "event_log p' = event_log p"
  using assms by (auto simp: on_session_def split: prod.splits)

lemma on_session_ok:
  assumes ok: "peer_ok p" and h: "h < length (arena p)" and run: "on_session f h p = (r, p')"
    and f: "\<And>r s w. f (sess p h) (plat p) = (r, s, w) \<Longrightarrow> same_identity (sess p h) s \<and> same_oracles (plat p) w"
  shows "peer_ok p'"
proof -
  obtain s w where fs: "f (sess p h) (plat p) = (r, s, w)" and p': "p' = set_sess h s (p\<lparr>plat := w\<rparr>)"
    using run by (auto simp: on_session_def split: prod.splits)
  have "wf_peer p'"
    unfolding p' using ok h f [OF fs] by (intro wf_set_any) (simp_all add: peer_ok_def)
  moreover have "same_env p p'" unfolding p' using f [OF fs] by (simp add: same_env_def)
  ultimately show ?thesis using ok by (rule peer_okI)
qed

text \<open>The steps that change the peer, one by one.\<close>

lemma check_ok:
  assumes "peer_ok p" and "new_outbound api conv peer (own_incarnation p) (config p) (plat p) = (s, w)"
  shows "peer_ok (p\<lparr>plat := w\<rparr>)"
  by (rule peer_okI [OF _ _ assms(1)])
    (use assms session_at_new_outbound(4) [OF assms(2)] in \<open>simp_all add: peer_ok_def same_env_def\<close>)

lemma insert_ok:
  assumes ok: "peer_ok p" and s: "session_at can s" "\<not> closed s"
    and run: "initiate_insert can s p = (r, p')"
  shows "peer_ok p' \<and> length (arena p) \<le> length (arena p') \<and> (\<forall>h. r = Inl h \<or> r = Inr h \<longrightarrow> h < length (arena p'))"
proof -
  have wf: "wf_peer p" using ok by (simp add: peer_ok_def)
  show ?thesis
  proof (cases "hm_get (sessions p) can")
    case None
    from moves_insert [OF wf s, of p] None
    have "moves p can (link_of s) [] [] (p\<lparr>arena := arena p @ [s], sessions := hm_insert can (length (arena p)) (sessions p)\<rparr>)"
      by simp
    then have "peer_ok (p\<lparr>arena := arena p @ [s], sessions := hm_insert can (length (arena p)) (sessions p)\<rparr>)"
      by (intro peer_okI [OF _ _ ok]) (simp_all add: moves_def)
    with None run show ?thesis by (auto simp: initiate_defs)
  next
    case (Some h)
    with run ok wf_lookup(1) [OF wf Some] show ?thesis by (auto simp: initiate_defs)
  qed
qed

text \<open>The two steps of \<^verbatim>\<open>send_syn\<close> that have an effect: on the log of the socket, and on the session.\<close>

lemma syn_conv_ok:
  assumes "peer_ok p" and "send_to (encode_control Syn conv) a (plat p) = (r, w)"
  shows "peer_ok (p\<lparr>plat := w\<rparr>)" "control_sent w = control_sent (plat p) @ [(a, encode_control Syn conv)]"
proof -
  have w: "same_oracles (plat p) w" "offered w = offered (plat p) @ [(a, encode_control Syn conv)]"
    using assms(2) same_oracles_try_send_to [of "plat p" "encode_control Syn conv" a]
      offered_try_send_to [of "encode_control Syn conv" a "plat p"] by simp_all
  show "peer_ok (p\<lparr>plat := w\<rparr>)"
    by (rule peer_okI [OF _ _ assms(1)]) (use assms(1) w in \<open>simp_all add: peer_ok_def same_env_def\<close>)
  show "control_sent w = control_sent (plat p) @ [(a, encode_control Syn conv)]"
    using control_sent_control [of w "plat p" a Syn conv "[()]"] w(2) by simp
qed

lemma syn_store_ok:
  assumes "peer_ok p" and "h < length (arena p)" and "epoch_ms (plat p) = (now, w)"
  shows "peer_ok (set_sess h ((sess p h)\<lparr>syn_sent_at := now\<rparr>) (p\<lparr>plat := w\<rparr>))"
proof (rule on_session_ok [OF assms(1,2)])
  show "on_session (\<lambda>s w. case epoch_ms w of (now, w') \<Rightarrow> ((), s\<lparr>syn_sent_at := now\<rparr>, w')) h p =
      ((), set_sess h ((sess p h)\<lparr>syn_sent_at := now\<rparr>) (p\<lparr>plat := w\<rparr>))"
    using assms(3) by (simp add: on_session_def)
qed (use epoch_ms_facts(2) [OF assms(3)] assms(3) in \<open>auto simp: same_identity_def\<close>)

lemma send_ok:
  assumes "peer_ok p" and "h < length (arena p)" and "on_session (send_data api data) h p = (r, p')"
  shows "peer_ok p'"
proof (rule on_session_ok [OF assms])
  fix r s w assume "send_data api data (sess p h) (plat p) = (r, s, w)"
  from send_data_frame [OF this] show "same_identity (sess p h) s \<and> same_oracles (plat p) w"
    by (simp add: same_identity_frame data_only_def)
qed

lemma send_atomic_ok:
  assumes ok: "peer_ok p" and pc: "pc_ok call p c" and run: "send_atomic api call c p = (c', p')"
  shows "peer_ok p' \<and> pc_ok call p' c' \<and> length (arena p) \<le> length (arena p')"
proof (cases c)
  case Lookup
  with run ok wf_lookup(1) show ?thesis
    by (auto simp: pc_ok_def peer_ok_def split: option.splits)
next
  case Check
  obtain s w where no: "new_outbound api (call_conv call) (call_peer call) (own_incarnation p) (config p) (plat p) = (s, w)"
    by fastforce
  show ?thesis
  proof (cases "hm_get (sessions p) (canonicalize (call_peer call))")
    case None
    with Check run no have "c' = Insert s" "p' = p\<lparr>plat := w\<rparr>" by simp_all
    with check_ok [OF ok no] session_at_new_outbound(1,2) [OF no] show ?thesis by (simp add: pc_ok_def)
  next
    case (Some h)
    with Check run have "c' = SendDue h" "p' = p" by simp_all
    with ok wf_lookup(1) [OF _ Some] show ?thesis by (simp add: pc_ok_def peer_ok_def)
  qed
next
  case (Insert s)
  then have "session_at (canonicalize (call_peer call)) s" "\<not> closed s" using pc by (simp_all add: pc_ok_def)
  from insert_ok [OF ok this] Insert run show ?thesis
    by (auto simp: pc_ok_def split: prod.splits sum.splits)
next
  case (SynDue h)
  with run ok pc show ?thesis by (auto simp: pc_ok_def)
next
  case (SynConv h conv)
  obtain r w where "send_to (encode_control Syn conv) (peer_addr (sess p h)) (plat p) = (r, w)" by fastforce
  with SynConv run pc syn_conv_ok(1) [OF ok this] show ?thesis by (auto simp: pc_ok_def split: sum.splits)
next
  case (SynStore h)
  obtain now w where ep: "epoch_ms (plat p) = (now, w)" by fastforce
  have "h < length (arena p)" using SynStore pc by (simp add: pc_ok_def)
  from syn_store_ok [OF ok this ep] SynStore run ep this show ?thesis by (auto simp: pc_ok_def)
next
  case (SendDue h)
  obtain r p1 where os: "on_session (send_data api (call_data call)) h p = (r, p1)" by fastforce
  from SendDue pc have "h < length (arena p)" by (simp add: pc_ok_def)
  from send_ok [OF ok this os] SendDue run os on_session_sel [OF os] show ?thesis by (auto simp: pc_ok_def)
next
  case (Finished r)
  with run ok show ?thesis by (auto simp: pc_ok_def)
qed

lemma peer_step_grows:
  assumes "peer_ok p" and "peer_step api p p'"
  shows "length (arena p) \<le> length (arena p')"
  using assms
proof (cases rule: peer_step_moves)
  case tick
  have "wf_peer p" using assms(1) by (simp add: peer_ok_def)
  from this tick have "same_env p p'" by (rule update_tick_spec) blast
  then show ?thesis by (simp add: same_env_def)
qed (simp add: moves_def same_env_def)

lemma sys_ok_step:
  assumes "sys_ok calls s" and "sys_step api calls s s'"
  shows "sys_ok calls s'"
  using assms(2)
proof cases
  case (call_step i pc p c p')
  from send_atomic_ok [OF _ _ call_step(3)] assms(1) call_step(1) have
    "peer_ok p' \<and> pc_ok (calls i) p' c \<and> length (arena p) \<le> length (arena p')" by (simp add: sys_ok_def)
  with assms(1) call_step(1,2) show ?thesis by (auto simp: sys_ok_def intro: pc_ok_grow)
next
  case (other_step p p' pc)
  with assms(1) peer_ok_step [of p api p'] peer_step_grows [of p api p'] show ?thesis
    by (auto simp: sys_ok_def intro: pc_ok_grow)
qed

definition sys_init :: "'k system \<Rightarrow> bool" where
  "sys_init = (\<lambda>(pc, p). bound_peer p \<and> (\<forall>i. pc i = Lookup))"

interpretation sys: invariant_of sys_init "sys_step api calls" "sys_ok calls" for api calls
proof
  show "sys_init s \<Longrightarrow> sys_ok calls s" for s
    by (auto simp: sys_init_def sys_ok_def pc_ok_def peer_ok_bound)
qed (fact sys_ok_step)

section \<open>At most one SYN\<close>

text \<open>
  For the calls alone, without steps of the rest of the peer: the control packets to one canonical
  address, the calls that have inserted a session for it and not yet sent the SYN, and the three
  situations an address can be in, relative to the state the calls started from.
\<close>

definition control_to :: "canonical_addr \<Rightarrow> 'k kcp_peer \<Rightarrow> (sock_addr \<times> bytes) list" where
  "control_to can p = filter (\<lambda>(d, b). canonicalize d = can) (control_sent (plat p))"

definition syn_due :: "(nat \<Rightarrow> send_call) \<Rightarrow> (nat \<Rightarrow> 'k send_pc) \<Rightarrow> canonical_addr \<Rightarrow> nat set" where
  "syn_due calls pc can = {i. canonicalize (call_peer (calls i)) = can \<and> owes_syn (pc i)}"

definition syn_once :: "'k kcp_peer \<Rightarrow> 'k kcp_peer \<Rightarrow> nat set \<Rightarrow> canonical_addr \<Rightarrow> bool" where
  "syn_once p0 p D can \<longleftrightarrow>
     hm_get (sessions p) can = hm_get (sessions p0) can \<and> D = {} \<and> control_to can p = control_to can p0 \<or>
     hm_get (sessions p0) can = None \<and> hm_get (sessions p) can \<noteq> None \<and>
       ((\<exists>i. D = {i}) \<and> control_to can p = control_to can p0 \<or>
        D = {} \<and> (\<exists>a c. canonicalize a = can \<and> control_to can p = control_to can p0 @ [(a, encode_control Syn c)]))"

definition holds :: "send_call \<Rightarrow> 'k kcp_peer \<Rightarrow> 'k send_pc \<Rightarrow> bool" where
  "holds call p c \<longleftrightarrow>
     (\<forall>h. pc_handle c = Some h \<longrightarrow> hm_get (sessions p) (canonicalize (call_peer call)) = Some h)"

definition once_inv :: "(nat \<Rightarrow> send_call) \<Rightarrow> 'k kcp_peer \<Rightarrow> 'k system \<Rightarrow> bool" where
  "once_inv calls p0 = (\<lambda>(pc, p). peer_ok p \<and> (\<forall>i. pc_ok (calls i) p (pc i) \<and> holds (calls i) p (pc i)) \<and>
     (\<forall>can. syn_once p0 p (syn_due calls pc can) can))"

text \<open>The three kinds of steps of a call.\<close>

lemma send_atomic_cases [consumes 4, case_names quiet inserted syn]:
  assumes ok: "peer_ok p" and pc: "pc_ok call p c" and hl: "holds call p c"
    and run: "send_atomic api call c p = (c', p')"
  obtains "sessions p' = sessions p" "control_sent (plat p') = control_sent (plat p)" "holds call p' c'"
      "owes_syn c' = owes_syn c"
  | h where "hm_get (sessions p) (canonicalize (call_peer call)) = None"
      "sessions p' = hm_insert (canonicalize (call_peer call)) h (sessions p)"
      "control_sent (plat p') = control_sent (plat p)" "pc_handle c' = Some h" "owes_syn c'"
  | a conv where "owes_syn c" "\<not> owes_syn c'" "holds call p' c'" "sessions p' = sessions p"
      "canonicalize a = canonicalize (call_peer call)"
      "control_sent (plat p') = control_sent (plat p) @ [(a, encode_control Syn conv)]"
proof (cases c)
  case Lookup
  with run show thesis by (intro that(1)) (auto simp: holds_def split: option.splits)
next
  case Check
  obtain s w where no: "new_outbound api (call_conv call) (call_peer call) (own_incarnation p) (config p) (plat p) = (s, w)"
    by fastforce
  with Check run session_at_new_outbound(5) [OF no] show thesis
    by (intro that(1)) (auto simp: holds_def split: option.splits)
next
  case (Insert s)
  show thesis
  proof (cases "hm_get (sessions p) (canonicalize (call_peer call))")
    case None
    with Insert run show thesis by (intro that(2) [of "length (arena p)"]) (auto simp: initiate_defs)
  next
    case (Some h)
    with Insert run show thesis by (intro that(1)) (auto simp: initiate_insert_def holds_def)
  qed
next
  case (SynDue h)
  with run hl show thesis by (intro that(1)) (auto simp: holds_def)
next
  case (SynConv h conv)
  obtain r w where st: "send_to (encode_control Syn conv) (peer_addr (sess p h)) (plat p) = (r, w)" by fastforce
  have "hm_get (sessions p) (canonicalize (call_peer call)) = Some h" using hl SynConv by (simp add: holds_def)
  with ok have "canonicalize (peer_addr (sess p h)) = canonicalize (call_peer call)"
    using wf_lookup(2) by (auto simp: peer_ok_def session_at_def)
  with SynConv run hl st syn_conv_ok(2) [OF ok st] show thesis
    by (intro that(3) [of "peer_addr (sess p h)" conv]) (auto simp: holds_def split: sum.splits)
next
  case (SynStore h)
  obtain now w where ep: "epoch_ms (plat p) = (now, w)" by fastforce
  with SynStore run hl control_sent_eq [OF epoch_ms_facts(1) [OF ep]] show thesis
    by (intro that(1)) (auto simp: holds_def)
next
  case (SendDue h)
  obtain r p1 where os: "on_session (send_data api (call_data call)) h p = (r, p1)" by fastforce
  have "hm_get (sessions p) (canonicalize (call_peer call)) = Some h" using hl SendDue by (simp add: holds_def)
  from moves_send_data [OF _ this os] ok have "control_sent (plat p1) = control_sent (plat p)"
    by (simp add: peer_ok_def moves_def)
  with SendDue run os on_session_sel(1) [OF os] show thesis by (intro that(1)) (auto simp: holds_def)
next
  case (Finished r)
  with run show thesis by (intro that(1)) (auto simp: holds_def)
qed

text \<open>How a step of call \<open>i\<close> changes the calls that still owe a SYN.\<close>

lemma syn_due_upd:
  "syn_due calls (pc(i := c)) can =
     (if canonicalize (call_peer (calls i)) = can
      then if owes_syn c then insert i (syn_due calls pc can) else syn_due calls pc can - {i}
      else syn_due calls pc can)"
  by (auto simp: syn_due_def)

lemma syn_once_inserted:
  assumes once: "\<And>can. syn_once p0 p (syn_due calls pc can) can"
    and can: "can = canonicalize (call_peer (calls i))" and none: "hm_get (sessions p) can = None"
    and p': "sessions p' = hm_insert can h (sessions p)" "control_sent (plat p') = control_sent (plat p)"
    and c': "owes_syn c'"
  shows "syn_once p0 p' (syn_due calls (pc(i := c')) c) c"
proof (cases "c = can")
  case True
  have "syn_due calls pc can = {}" "hm_get (sessions p0) can = None" "control_to can p = control_to can p0"
    using once [of can] none by (auto simp: syn_once_def)
  with True can p' c' show ?thesis by (simp add: syn_once_def syn_due_upd control_to_def)
next
  case False
  with once [of c] can p' show ?thesis by (simp add: syn_once_def syn_due_upd control_to_def hm.get_ins)
qed

lemma syn_once_sent:
  assumes once: "\<And>can. syn_once p0 p (syn_due calls pc can) can"
    and can: "can = canonicalize (call_peer (calls i))" and due: "owes_syn (pc i)" "\<not> owes_syn c'"
    and p': "sessions p' = sessions p" "canonicalize a = can"
      "control_sent (plat p') = control_sent (plat p) @ [(a, encode_control Syn conv)]"
  shows "syn_once p0 p' (syn_due calls (pc(i := c')) c) c"
proof (cases "c = can")
  case True
  have "i \<in> syn_due calls pc can" using can due(1) by (simp add: syn_due_def)
  then have "syn_due calls pc can = {i}" "hm_get (sessions p0) can = None" "hm_get (sessions p) can \<noteq> None"
      "control_to can p = control_to can p0"
    using once [of can] by (auto simp: syn_once_def)
  with True can p' due(2) show ?thesis by (auto simp: syn_once_def syn_due_upd control_to_def)
next
  case False
  with once [of c] can p' show ?thesis by (simp add: syn_once_def syn_due_upd control_to_def)
qed

lemma once_inv_step:
  assumes inv: "once_inv calls p0 s" and step: "send_step api calls s s'"
  shows "once_inv calls p0 s'"
  using step
proof cases
  case (1 i pc p c p')
  have ok: "peer_ok p" and pcs: "pc_ok (calls j) p (pc j)" "holds (calls j) p (pc j)"
    and once: "syn_once p0 p (syn_due calls pc can) can" for j can
    using inv 1(1) by (auto simp: once_inv_def)
  from ok pcs 1(3) have "(\<forall>j. holds (calls j) p' ((pc(i := c)) j)) \<and>
      (\<forall>can. syn_once p0 p' (syn_due calls (pc(i := c)) can) can)"
  proof (cases rule: send_atomic_cases)
    case quiet
    then have "syn_due calls (pc(i := c)) can = syn_due calls pc can" "control_to can p' = control_to can p" for can
      by (auto simp: syn_due_def control_to_def)
    then show ?thesis using once pcs(2) quiet by (auto simp: syn_once_def holds_def)
  next
    case (inserted h)
    have "holds (calls j) p' ((pc(i := c)) j)" for j
      using pcs(2) [of j] inserted by (auto simp: holds_def hm.get_ins)
    with syn_once_inserted [OF once refl inserted(1-3,5)] show ?thesis by simp
  next
    case (syn a conv)
    have "holds (calls j) p' ((pc(i := c)) j)" for j
      using pcs(2) [of j] syn by (auto simp: holds_def)
    with syn_once_sent [OF once refl syn(1,2,4-6)] show ?thesis by simp
  qed
  with send_atomic_ok [OF ok pcs(1) 1(3)] pcs(1) 1(2) show ?thesis by (auto simp: once_inv_def intro: pc_ok_grow)
qed

interpretation once: invariant_of "\<lambda>s. peer_ok p0 \<and> s = (\<lambda>_. Lookup, p0)" "send_step api calls" "once_inv calls p0"
  for api calls p0
proof
  show "peer_ok p0 \<and> s = (\<lambda>_. Lookup, p0) \<Longrightarrow> once_inv calls p0 s" for s
    by (auto simp: once_inv_def pc_ok_def holds_def syn_once_def syn_due_def)
qed (fact once_inv_step)

section \<open>The session of a first send\<close>

lemma send_new_handle:
  assumes "wf_peer p" and "hm_get (sessions p) (canonicalize peer) = None"
    and "send api conv peer data p = (r, p')" and "hm_get (sessions p') (canonicalize peer) = Some h"
  shows "h = length (arena p)"
proof -
  obtain h1 p1 where is1: "initiate_session api conv peer p = (h1, p1)" by fastforce
  have h1: "h1 = length (arena p)"
    using is1 assms(2) by (auto simp: initiate_defs Let_def split: prod.splits)
  have "on_session (send_data api data) h1 p1 = (r, p')" using assms(2,3) is1 by (simp add: send_def)
  from on_session_sel(1) [OF this] moves_initiate [OF assms(1,2) is1] assms(4) h1 show ?thesis by simp
qed

section \<open>Properties\<close>

text \<open>
  Any number of concurrent \<^verbatim>\<open>send\<close> calls, to any addresses, with packets, ticks,
  disconnects and the other operations between their critical sections in any order, keep the peer
  well formed: no session is inserted over another, none is leaked, and every call still holds an
  allocated session.
\<close>

theorem concurrent_sends_wf:
  assumes "sys_init s" and "(sys_step api calls)\<^sup>*\<^sup>* s (pc, p)"
  shows "wf_peer p \<and> (\<forall>i h. pc_handle (pc i) = Some h \<longrightarrow> h < length (arena p))"
  using sys.reach_inv [OF assms] by (auto simp: sys_ok_def peer_ok_def pc_ok_def)

theorem concurrent_sends_wf_witness:
  "\<exists>p. (sys_step (mini_api to_le_bytes) (\<lambda>_. \<lparr>call_peer = V4 2 9000, call_data = [1], call_conv = 7\<rparr>))\<^sup>*\<^sup>*
       (\<lambda>_. Lookup, demo_peer (V4 1 9000)) ((\<lambda>_. Lookup)(0 := Check), p) \<and> wf_peer p"
proof -
  let ?s = "(\<lambda>_. Lookup, demo_peer (V4 1 9000))" and ?call = "\<lambda>_. \<lparr>call_peer = V4 2 9000, call_data = [1], call_conv = 7\<rparr>"
  have "sys_step (mini_api to_le_bytes) ?call ?s ((\<lambda>_. Lookup)(0 := Check), demo_peer (V4 1 9000))"
    by (rule call_step) (simp add: hm_get_def)
  then have run: "(sys_step (mini_api to_le_bytes) ?call)\<^sup>*\<^sup>* ?s ((\<lambda>_. Lookup)(0 := Check), demo_peer (V4 1 9000))" by blast
  have "sys_init ?s" using demo_peer_bind by (auto simp: sys_init_def bound_peer_def)
  from concurrent_sends_wf [OF this run] run show ?thesis by blast
qed

text \<open>
  C12. At most one SYN per peer: however many \<^verbatim>\<open>send\<close> calls run at once, together they put at
  most one control packet for an address on the wire, a SYN, and only if there was no session for it;
  an existing session stays in the map; and all calls that have got a session for the address have got
  the same one, the one in the map.
\<close>

theorem concurrent_sends_one_syn:
  assumes "peer_ok p0" and "(send_step api calls)\<^sup>*\<^sup>* (\<lambda>_. Lookup, p0) (pc, p)"
  shows "(control_to can p = control_to can p0 \<or>
      hm_get (sessions p0) can = None \<and>
      (\<exists>a c. canonicalize a = can \<and> control_to can p = control_to can p0 @ [(a, encode_control Syn c)])) \<and>
    (\<forall>h. hm_get (sessions p0) can = Some h \<longrightarrow> hm_get (sessions p) can = Some h) \<and>
    (\<forall>i h. canonicalize (call_peer (calls i)) = can \<and> pc_handle (pc i) = Some h \<longrightarrow>
       hm_get (sessions p) can = Some h)"
proof -
  have "once_inv calls p0 (pc, p)" using once.reach_inv [OF _ assms(2)] assms(1) by blast
  then have "syn_once p0 p (syn_due calls pc can) can" "\<And>i. holds (calls i) p (pc i)"
    by (auto simp: once_inv_def)
  then show ?thesis unfolding holds_def syn_once_def by (intro conjI) (blast, force, blast)
qed

theorem concurrent_sends_one_syn_witness:
  "\<exists>pc p. (send_step (mini_api to_le_bytes) (\<lambda>_. \<lparr>call_peer = V4 2 9000, call_data = [1], call_conv = 7\<rparr>))\<^sup>*\<^sup>*
       (\<lambda>_. Lookup, demo_up) (pc, p) \<and> pc 0 = SendDue 0 \<and>
     hm_get (sessions p) (CanonicalAddr (V4 2 9000)) = Some 0"
proof -
  let ?call = "\<lambda>_. \<lparr>call_peer = V4 2 9000, call_data = [1], call_conv = 7\<rparr>" and ?pc = "(\<lambda>_. Lookup)(0 := SendDue 0)"
  have "send_step (mini_api to_le_bytes) ?call (\<lambda>_. Lookup, demo_up) (?pc, demo_up)"
    by (rule send_step.intros) simp
  then have run: "(send_step (mini_api to_le_bytes) ?call)\<^sup>*\<^sup>* (\<lambda>_. Lookup, demo_up) (?pc, demo_up)" by blast
  have "peer_ok demo_up" using demo_up_reachable ok.reach_inv unfolding reachable_def by blast
  from concurrent_sends_one_syn [OF this run, of "CanonicalAddr (V4 2 9000)"]
  have "hm_get (sessions demo_up) (CanonicalAddr (V4 2 9000)) = Some 0" by simp
  with run show ?thesis by (intro exI [of _ ?pc] exI [of _ demo_up]) simp
qed

text \<open>
  C39. A SYN in flight can displace a session of our own. The receive path decides on a new inbound
  session while there is none, and inserts it after awaiting the SYN_ACK; when a \<^verbatim>\<open>send\<close> to
  the same address runs in between, its session is overwritten in the map without being closed: it
  stays open but is no longer reachable, updated or listed, and the data queued in it is never sent.
\<close>

theorem syn_insert_displaces:
  assumes "wf_peer p" and "hm_get (sessions p) (canonicalize from) = None"
    and "syn_decide api conv from my p = (r, p1)"
    and "send api conv' from data p1 = (rs, p2)"
    and "hm_get (sessions p2) (canonicalize from) = Some h"
    and "p3 = syn_create api conv from (syn_ack_reply r p2)"
  shows "syn_action r = CreateNew \<and> \<not> closed (sess p3 h) \<and> (\<forall>can. hm_get (sessions p3) can \<noteq> Some h) \<and>
    \<not> wf_peer p3"
proof -
  have r: "syn_action r = CreateNew" "send_ack_to r = None" "p1 = p"
    using assms(2,3) by (auto simp: syn_decide_def)
  have wf2: "wf_peer p2"
    using moves_send [OF assms(1) assms(4) [unfolded r(3)]] by (auto simp: moves_def split: if_splits)
  obtain s w where ni: "new_inbound api conv from (own_incarnation p2) (config p2) (plat p2) = (s, w)" by fastforce
  have h: "h < length (arena p2)" "\<not> closed (sess p2 h)" using wf_lookup [OF wf2 assms(5)] by simp_all
  have p3: "arena p3 = arena p2 @ [s]" "sessions p3 = hm_insert (canonicalize from) (length (arena p2)) (sessions p2)"
    using assms(6) r(2) ni by (simp_all add: syn_ack_reply_def syn_create_def insert_inbound_def alloc_def)
  have "\<not> closed (sess p3 h)" using h p3(1) by (simp add: sess_def nth_append)
  moreover have "hm_get (sessions p3) can \<noteq> Some h" for can
    using h(1) p3(2) wf_handle_inj [OF wf2 assms(5), of can] by (auto simp: hm.get_ins)
  moreover have "h < length (arena p3)" using h(1) p3(1) by simp
  ultimately show ?thesis using r(1) wf_unmapped [of p3 h] by blast
qed

theorem syn_insert_displaces_witness:
  "\<exists>r p1 rs p2 p3 h. syn_decide (mini_api to_le_bytes) 9 (V4 2 9000) (V4 1 9000) (demo_peer (V4 1 9000)) = (r, p1) \<and>
     send (mini_api to_le_bytes) 7 (V4 2 9000) [1] p1 = (rs, p2) \<and>
     p3 = syn_create (mini_api to_le_bytes) 9 (V4 2 9000) (syn_ack_reply r p2) \<and>
     \<not> closed (sess p3 h) \<and> (\<forall>can. hm_get (sessions p3) can \<noteq> Some h)"
proof -
  let ?p = "demo_peer (V4 1 9000)" and ?from = "V4 2 9000" and ?api = "mini_api to_le_bytes"
  have none: "hm_get (sessions ?p) (canonicalize ?from) = None" by (simp add: hm_get_def)
  obtain r p1 where sd: "syn_decide ?api 9 ?from (V4 1 9000) ?p = (r, p1)" by fastforce
  then have p1: "p1 = ?p" by (simp add: syn_decide_def hm_get_def)
  obtain rs p2 where se: "send ?api 7 ?from [1] ?p = (rs, p2)" by fastforce
  from moves_send [OF _ se] have v: "wf_peer p2" "view p2 (CanonicalAddr ?from) = Opening 7" by (simp_all add: moves_def)
  then obtain h where h: "hm_get (sessions p2) (canonicalize ?from) = Some h"
    by (auto simp: view_def split: option.splits)
  from se p1 have "send ?api 7 ?from [1] p1 = (rs, p2)" by simp
  with syn_insert_displaces [OF _ none sd this h refl] sd show ?thesis by auto
qed

text \<open>
  C40. A RESET can remove a session it was not for. Its conversation id is checked against the session
  found under the read lock, but the removal takes whatever the map holds later: when the application
  disconnects and sends again in between, the new session is dropped from the map without being closed,
  although it has another conversation id.
\<close>

theorem reset_removes_successor:
  assumes "wf_peer p" and "hm_get (sessions p) (canonicalize from) = Some h"
    and "send api conv' from data (disconnect from p) = (rs, p2)"
    and "hm_get (sessions p2) (canonicalize from) = Some h2" and "p3 = reset_remove h from p2"
  shows "h2 \<noteq> h \<and> conv_id (inner (sess p2 h2)) = conv' \<and> \<not> closed (sess p3 h2) \<and>
    hm_get (sessions p3) (canonicalize from) = None \<and> \<not> wf_peer p3"
proof -
  let ?can = "canonicalize from" and ?p1 = "disconnect from p"
  have conv: "link_conv (view p ?can) = Some (conv_id (inner (sess p h)))" by (simp add: view_Some [OF assms(2)])
  from moves_disconnect [OF assms(1), of "from"] conv
  have d: "moves p ?can NoLink [Disconnected from] (replicate 3 (from, encode_control Reset (conv_id (inner (sess p h))))) ?p1"
    by simp
  have len: "h < length (arena p)" using wf_lookup(1) [OF assms(1,2)] .
  have closed1: "closed (sess ?p1 h)"
    using assms(2) len by (simp add: disconnect_def Let_def sess_close_session)
  have v1: "view ?p1 ?can = NoLink" using d by (simp add: moves_def)
  then have none1: "hm_get (sessions ?p1) ?can = None" by (simp add: view_def link_of_cases split: option.splits)
  from moves_send [OF moves_wf [OF d] assms(3)] v1
  have s: "moves ?p1 ?can (Opening conv') [] [(from, encode_control Syn conv')] p2" by simp
  note wf2 = moves_wf [OF s]
  have h2: "\<not> closed (sess p2 h2)" "h2 < length (arena p2)" using wf_lookup [OF wf2 assms(4)] by simp_all
  have conv2: "conv_id (inner (sess p2 h2)) = conv'"
    using s view_Some [OF assms(4)] by (simp add: moves_def link_of_cases)
  have ne: "h2 \<noteq> h"
  proof
    assume "h2 = h"
    have "h < length (arena ?p1)" using d len by (simp add: moves_def same_env_def)
    with send_new_handle [OF moves_wf [OF d] none1 assms(3,4)] \<open>h2 = h\<close> show False by simp
  qed
  have p3: "\<not> closed (sess p3 h2)" "hm_get (sessions p3) ?can = None" "h2 < length (arena p3)"
    using assms(5) h2 ne d len s by (simp_all add: reset_remove_def sess_close_session moves_def same_env_def)
  moreover have "hm_get (sessions p3) c \<noteq> Some h2" for c
    using assms(5) wf_handle_inj [OF wf2 assms(4), of c] by (auto simp: reset_remove_def hm.get_rem)
  ultimately show ?thesis using ne conv2 wf_unmapped [of p3 h2] by blast
qed

theorem reset_removes_successor_witness:
  "\<exists>rs p2 h2 p3. send (mini_api to_le_bytes) 9 (V4 2 9000) [1] (disconnect (V4 2 9000) demo_up) = (rs, p2) \<and>
     hm_get (sessions p2) (CanonicalAddr (V4 2 9000)) = Some h2 \<and> p3 = reset_remove 0 (V4 2 9000) p2 \<and>
     \<not> closed (sess p3 h2) \<and> hm_get (sessions p3) (CanonicalAddr (V4 2 9000)) = None"
proof -
  let ?a = "V4 2 9000" and ?p = "disconnect (V4 2 9000) demo_up"
  obtain rs p2 where se: "send (mini_api to_le_bytes) 9 ?a [1] ?p = (rs, p2)" by fastforce
  have "view demo_up (CanonicalAddr ?a) = Up 7" using demo_up_moves by (simp add: moves_def)
  with moves_disconnect [OF demo_up_sel(1), of ?a]
  have "moves demo_up (CanonicalAddr ?a) NoLink [Disconnected ?a] (replicate 3 (?a, encode_control Reset 7)) ?p" by simp
  then have "wf_peer ?p" "view ?p (canonicalize ?a) = NoLink" by (simp_all add: moves_def)
  from moves_send [OF this(1) se] this(2) have "view p2 (canonicalize ?a) = Opening 9" by (simp add: moves_def)
  then obtain h2 where h2: "hm_get (sessions p2) (canonicalize ?a) = Some h2"
    by (auto simp: view_def split: option.splits)
  have "hm_get (sessions demo_up) (canonicalize ?a) = Some 0" by simp
  from reset_removes_successor [OF demo_up_sel(1) this se h2 refl] se h2 show ?thesis by auto
qed

end
