(* ===== verification/Examples.thy ===== *)
theory Examples
  imports Event_Stream Send_Tasks
begin

text \<open>
  The programs of \<^verbatim>\<open>src/examples\<close> as clients of the peer: the echo server with its clients,
  the two peers that open to each other at once, and the gossip nodes. The tasks of these programs only
  use the public operations. A task that waits in \<^verbatim>\<open>recv\<close> is \<open>Pending\<close>; a failed
  \<^verbatim>\<open>expect\<close>, \<^verbatim>\<open>unwrap\<close> or assertion is a panic. What they print is not modelled.
\<close>

section \<open>Shared by the programs\<close>

datatype 'a outcome = Returned 'a | Panicked string

definition example_config :: kcp_config where
  "example_config =
     build (with_fast_resend 1 (with_rx_minrto 10 (with_kcp_nodelay 2 10 2 True
       (with_tick_interval (from_millis 10) config_builder))))"

definition localhost :: "u16 \<Rightarrow> sock_addr" where
  "localhost port = V4 0x7F000001 port"

text \<open>The bytes of a string literal.\<close>

definition str_bytes :: "string \<Rightarrow> bytes" where
  "str_bytes = map of_char"

section \<open>echo.rs\<close>

definition client_addr :: sock_addr where
  "client_addr = localhost 9900"

definition server_addr :: sock_addr where
  "server_addr = localhost 9876"

definition echo_server :: "io_error + platform \<Rightarrow> u64 \<Rightarrow> 'k kcp_peer outcome" where
  "echo_server bound inc =
     (case bind_with bound inc example_config of
        Inl _ \<Rightarrow> Panicked ''bind server''
      | Inr p \<Rightarrow> Returned p)"

lemma send_pending:
  assumes "send api conv peer data p = (r, p')"
  shows "pending_data p' = pending_data p" "data_notify p' = data_notify p" "shutdown_token p' = shutdown_token p"
proof -
  have "pending_data p' = pending_data p \<and> data_notify p' = data_notify p \<and> shutdown_token p' = shutdown_token p"
    using assms by (auto simp: send_def initiate_defs on_session_def Let_def split: option.splits prod.splits sum.splits)
  then show "pending_data p' = pending_data p" "data_notify p' = data_notify p" "shutdown_token p' = shutdown_token p"
    by simp_all
qed

text \<open>
  The first loop of the server task. A received message is sent back to its sender, whatever the
  result; the loop ends on an error of \<^verbatim>\<open>recv\<close>. \<open>draw\<close> are the conversation ids that the
  calls of \<^verbatim>\<open>send\<close> would draw.
\<close>

function echo_loop :: "'k kcp_api \<Rightarrow> (nat \<Rightarrow> u32) \<Rightarrow> 'k kcp_peer \<Rightarrow> unit poll \<times> 'k kcp_peer" where
  "echo_loop api draw server =
     (case recv server of
        (Ready (Inr msg), p1) \<Rightarrow>
          (case send api (draw 0) (dm_peer msg) (dm_data msg) p1 of
             (_, p2) \<Rightarrow> echo_loop api (\<lambda>n. draw (Suc n)) p2)
      | (Ready (Inl _), p1) \<Rightarrow> (Ready (), p1)
      | (Pending, p1) \<Rightarrow> (Pending, p1))"
  by pat_completeness auto
termination
proof (relation "measure (\<lambda>(api, draw, p). length (pending_data p))")
  show "wf (measure (\<lambda>(api, draw, p). length (pending_data p)))" by simp
qed (auto simp: recv_eq send_pending(1) [OF sym] split: if_splits list.splits)

declare echo_loop.simps [simp del]

text \<open>
  The second loop, which reads the subscription until a \<^verbatim>\<open>Disconnected\<close> or an error; the
  history of the channel is that of the moment.
\<close>

partial_function (option) drain_events :: "'r broadcast_api \<Rightarrow> event list \<Rightarrow> 'r \<Rightarrow> (unit poll \<times> 'r) option" where
  "drain_events bc log r =
     (case bc_recv bc log r of
        (Ready (Inr (Disconnected _)), r1) \<Rightarrow> Some (Ready (), r1)
      | (Ready (Inl _), r1) \<Rightarrow> Some (Ready (), r1)
      | (Ready (Inr _), r1) \<Rightarrow> drain_events bc log r1
      | (Pending, r1) \<Rightarrow> Some (Pending, r1))"

text \<open>
  A client: bind, send, and the check of what \<^verbatim>\<open>recv\<close> gave within five seconds, nothing when
  the time is up; then the client is dropped.
\<close>

definition client_start ::
  "'k kcp_api \<Rightarrow> io_error + platform \<Rightarrow> u64 \<Rightarrow> u32 \<Rightarrow> bytes \<Rightarrow> kcp_config \<Rightarrow> 'k kcp_peer outcome" where
  "client_start api bound inc conv payload cfg =
     (case bind_with bound inc cfg of
        Inl _ \<Rightarrow> Panicked ''bind client''
      | Inr client \<Rightarrow>
          (case send api conv server_addr payload client of
             (Inl _, _) \<Rightarrow> Panicked ''send''
           | (Inr _, p) \<Rightarrow> Returned p))"

definition client_finish ::
  "string \<Rightarrow> bytes \<Rightarrow> data_message result option \<Rightarrow> 'k kcp_peer \<Rightarrow> 'k kcp_peer outcome" where
  "client_finish label payload received client =
     (case received of
        Some (Inr msg) \<Rightarrow>
          if dm_data msg = payload then Returned (drop_peer client) else Panicked ''assertion failed''
      | _ \<Rightarrow> Panicked (label @ '': no echo received''))"

section \<open>duplex.rs\<close>

definition alice_addr :: sock_addr where
  "alice_addr = localhost 9877"

definition bob_addr :: sock_addr where
  "bob_addr = localhost 9878"

definition duplex_peer :: "io_error + platform \<Rightarrow> u64 \<Rightarrow> string \<Rightarrow> 'k kcp_peer outcome" where
  "duplex_peer bound inc name =
     (case bind_with bound inc example_config of
        Inl _ \<Rightarrow> Panicked (''bind '' @ name)
      | Inr p \<Rightarrow> Returned p)"

text \<open>The part of a task before its wait: the send, unwrapped.\<close>

definition duplex_send :: "'k kcp_api \<Rightarrow> u32 \<Rightarrow> sock_addr \<Rightarrow> string \<Rightarrow> 'k kcp_peer \<Rightarrow> 'k kcp_peer outcome" where
  "duplex_send api conv other name p =
     (case send api conv other (str_bytes (''ping from '' @ name)) p of
        (Inl _, _) \<Rightarrow> Panicked ''called Result::unwrap() on an Err value''
      | (Inr _, p1) \<Rightarrow> Returned p1)"

section \<open>p2p_gossip.rs\<close>

definition gossip_ports :: "u16 list" where
  "gossip_ports = [9879, 9880, 9881]"

definition new_node :: "io_error + platform \<Rightarrow> u64 \<Rightarrow> kcp_config \<Rightarrow> 'k kcp_peer outcome" where
  "new_node bound inc cfg =
     (case bind_with bound inc cfg of
        Inl _ \<Rightarrow> Panicked ''bind node''
      | Inr p \<Rightarrow> Returned p)"

fun show_nat :: "nat \<Rightarrow> string" where
  "show_nat n = (if n < 10 then [char_of (48 + n)] else show_nat (n div 10) @ [char_of (48 + n mod 10)])"

declare show_nat.simps [simp del]

fun gossip_send :: "'k kcp_api \<Rightarrow> (nat \<Rightarrow> u32) \<Rightarrow> u16 list \<Rightarrow> 'k kcp_peer \<Rightarrow> 'k kcp_peer outcome" where
  "gossip_send api draw [] node0 = Returned node0"
| "gossip_send api draw (port # ports) node0 =
     (let addr = localhost port;
          msg = ''hello from node 0 to node '' @ show_nat (unat port)
      in case send api (draw 0) addr (str_bytes msg) node0 of
           (Inl _, _) \<Rightarrow> Panicked ''called Result::unwrap() on an Err value''
         | (Inr _, p1) \<Rightarrow> gossip_send api (\<lambda>n. draw (Suc n)) ports p1)"

definition gossip_node0 :: "'k kcp_api \<Rightarrow> (nat \<Rightarrow> u32) \<Rightarrow> 'k kcp_peer \<Rightarrow> 'k kcp_peer outcome" where
  "gossip_node0 api draw node0 = gossip_send api draw (tl gossip_ports) node0"

text \<open>The loop of a node, with the messages it has received so far.\<close>

function accept_loop :: "data_message list \<Rightarrow> 'k kcp_peer \<Rightarrow> unit poll \<times> data_message list \<times> 'k kcp_peer" where
  "accept_loop got node =
     (case recv node of
        (Ready (Inr msg), p1) \<Rightarrow> accept_loop (got @ [msg]) p1
      | (Ready (Inl _), p1) \<Rightarrow> (Ready (), got, p1)
      | (Pending, p1) \<Rightarrow> (Pending, got, p1))"
  by pat_completeness auto
termination
proof (relation "measure (\<lambda>(got, p). length (pending_data p))")
  show "wf (measure (\<lambda>(got, p). length (pending_data p)))" by simp
qed (auto simp: recv_eq split: if_splits list.splits)

declare accept_loop.simps [simp del]

section \<open>What the loops do\<close>

fun echo_sends :: "'k kcp_api \<Rightarrow> (nat \<Rightarrow> u32) \<Rightarrow> data_message list \<Rightarrow> 'k kcp_peer \<Rightarrow> 'k kcp_peer" where
  "echo_sends api draw [] p = p"
| "echo_sends api draw (m # ms) p =
     echo_sends api (\<lambda>n. draw (Suc n)) ms (snd (send api (draw 0) (dm_peer m) (dm_data m) p))"

lemma send_pending_upd:
  "send api conv peer data (p\<lparr>pending_data := ms\<rparr>) =
     (case send api conv peer data p of (r, p') \<Rightarrow> (r, p'\<lparr>pending_data := ms\<rparr>))"
  by (simp add: send_def initiate_defs on_session_def set_sess_def sess_def Let_def
      split: option.splits prod.splits sum.splits)

lemma echo_sends_upd:
  "echo_sends api draw ms (p\<lparr>pending_data := xs\<rparr>) = (echo_sends api draw ms p)\<lparr>pending_data := xs\<rparr>"
  by (induction ms arbitrary: draw p) (simp_all add: send_pending_upd split: prod.split)

lemma echo_loop_eq:
  "echo_loop api draw p =
     (if shutdown_token p then (Ready (), p)
      else (Pending, (echo_sends api draw (pending_data p) p)\<lparr>pending_data := [], data_notify := False\<rparr>))"
proof (induction "length (pending_data p)" arbitrary: draw p)
  case 0
  then show ?case by (subst echo_loop.simps) (simp add: recv_eq)
next
  case (Suc n)
  then obtain m ms where pd: "pending_data p = m # ms" by (cases "pending_data p") auto
  let ?p1 = "p\<lparr>pending_data := ms\<rparr>"
  obtain r p2 where se: "send api (draw 0) (dm_peer m) (dm_data m) ?p1 = (r, p2)" by fastforce
  note sp = send_pending [OF se]
  have p2: "p2 = (snd (send api (draw 0) (dm_peer m) (dm_data m) p))\<lparr>pending_data := ms\<rparr>"
    using se by (simp add: send_pending_upd split: prod.splits)
  show ?case
  proof (cases "shutdown_token p")
    case True
    then show ?thesis by (subst echo_loop.simps) (simp add: recv_eq)
  next
    case False
    have "echo_loop api draw p = echo_loop api (\<lambda>n. draw (Suc n)) p2"
      using False pd se by (subst echo_loop.simps) (simp add: recv_eq)
    also have "\<dots> = (Pending, (echo_sends api (\<lambda>n. draw (Suc n)) ms p2)\<lparr>pending_data := [], data_notify := False\<rparr>)"
      using Suc.hyps(1) [of p2] Suc.hyps(2) sp pd False by simp
    finally show ?thesis using False pd p2 by (simp add: echo_sends_upd)
  qed
qed

lemma accept_loop_eq:
  "accept_loop got p =
     (if shutdown_token p then (Ready (), got, p)
      else (Pending, got @ pending_data p, p\<lparr>pending_data := [], data_notify := False\<rparr>))"
proof (induction "length (pending_data p)" arbitrary: got p)
  case 0
  then show ?case by (subst accept_loop.simps) (simp add: recv_eq)
next
  case (Suc n)
  then obtain m ms where pd: "pending_data p = m # ms" by (cases "pending_data p") auto
  with Suc.hyps(1) [of "p\<lparr>pending_data := ms\<rparr>"] Suc.hyps(2) show ?case
    by (subst accept_loop.simps) (simp add: recv_eq)
qed

text \<open>The second loop of the server ends or waits: every turn advances the receiver.\<close>

lemma drain_events_returns:
  assumes law: "broadcast_law bc cap pos" and "pos r \<le> length log"
  shows "\<exists>st r'. drain_events bc log r = Some (st, r')"
  using assms(2)
proof (induction "length log - pos r" arbitrary: r rule: less_induct)
  case less
  show ?case
  proof (cases "pos r = length log")
    case True
    with law obtain r' where "bc_recv bc log r = (Pending, r')" unfolding broadcast_law_def by metis
    then show ?thesis by (subst drain_events.simps) simp
  next
    case False
    with less.prems have lt: "pos r < length log" by simp
    with law consider r' where "bc_recv bc log r = (Ready (Inr (log ! pos r)), r')" "pos r' = Suc (pos r)"
      | n r' where "bc_recv bc log r = (Ready (Inl (Lagged n)), r')"
      unfolding broadcast_law_def by metis
    then show ?thesis
    proof cases
      case (1 r')
      with lt less.hyps [of r'] show ?thesis by (subst drain_events.simps) (cases "log ! pos r"; simp)
    next
      case (2 n r')
      then show ?thesis by (subst drain_events.simps) simp
    qed
  qed
qed

text \<open>The answers, link by link: a sender with a session keeps it, one without is called back once.\<close>

lemma control_to_append:
  "control_sent (plat p') = control_sent (plat p) @ ctl \<Longrightarrow>
     control_to can p' = control_to can p @ filter (\<lambda>(d, b). canonicalize d = can) ctl"
  by (simp add: control_to_def)

definition called_back :: "canonical_addr \<Rightarrow> 'k kcp_peer \<Rightarrow> 'k kcp_peer \<Rightarrow> bool" where
  "called_back can p p' \<longleftrightarrow> view p can = NoLink \<and>
     (\<exists>c a. canonicalize a = can \<and> view p' can = Opening c \<and> control_to can p' = control_to can p @ [(a, encode_control Syn c)])"

definition left_alone :: "canonical_addr \<Rightarrow> 'k kcp_peer \<Rightarrow> 'k kcp_peer \<Rightarrow> bool" where
  "left_alone can p p' \<longleftrightarrow> view p' can = view p can \<and> control_to can p' = control_to can p"

lemma send_answer:
  assumes wf: "wf_peer p" and se: "send api conv peer data p = (r, p')"
  shows "wf_peer p' \<and> event_log p' = event_log p \<and>
    (if view p can = NoLink \<and> can = canonicalize peer then called_back can p p' else left_alone can p p')"
proof (cases "view p (canonicalize peer) = NoLink")
  case True
  with moves_send [OF wf se] have mv: "moves p (canonicalize peer) (Opening conv) [] [(peer, encode_control Syn conv)] p'"
    by simp
  have "control_to can p' = control_to can p @ (if can = canonicalize peer then [(peer, encode_control Syn conv)] else [])"
    using control_to_append [of p' p "[(peer, encode_control Syn conv)]" can] mv by (auto simp: moves_def)
  with True mv moves_view [OF mv] show ?thesis by (auto simp: moves_def called_back_def left_alone_def)
next
  case False
  with moves_send [OF wf se] have mv: "moves p (canonicalize peer) (view p (canonicalize peer)) [] [] p'" by simp
  from False mv moves_view [OF mv] control_to_append [of p' p "[]" can] show ?thesis
    by (auto simp: moves_def left_alone_def)
qed

lemma echo_sends_answers:
  assumes "wf_peer p"
  shows "wf_peer (echo_sends api draw ms p) \<and> event_log (echo_sends api draw ms p) = event_log p \<and>
    (if view p can = NoLink \<and> can \<in> (canonicalize \<circ> dm_peer) ` set ms
     then called_back can p (echo_sends api draw ms p) else left_alone can p (echo_sends api draw ms p))"
  using assms
proof (induction ms arbitrary: draw p)
  case Nil
  then show ?case by (simp add: left_alone_def)
next
  case (Cons m ms)
  obtain r p1 where se: "send api (draw 0) (dm_peer m) (dm_data m) p = (r, p1)" by fastforce
  note sa = send_answer [OF Cons.prems se, of can]
  then have "wf_peer p1" by blast
  from Cons.IH [OF this, of "\<lambda>n. draw (Suc n)"] sa se show ?case
    by (auto simp: called_back_def left_alone_def split: if_splits)
qed

section \<open>Properties\<close>

text \<open>
  The echo server answers everything, once and in order: on a running peer the loop takes all
  pending messages, calls \<^verbatim>\<open>send\<close> exactly once for each of them with its bytes and its sender,
  in the order of arrival and whatever the earlier calls returned, and then waits; no event is fired, no
  link is disturbed, a sender that has a session is answered on it, and one whose session is gone is
  called back with exactly one SYN however many of its messages are pending. After the shutdown token
  the loop ends at once.
\<close>

theorem echo_loop_answers:
  assumes "wf_peer p" and "echo_loop api draw p = (st, p')"
  shows "(shutdown_token p \<longrightarrow> st = Ready () \<and> p' = p) \<and>
    (\<not> shutdown_token p \<longrightarrow> st = Pending \<and> wf_peer p' \<and> event_log p' = event_log p \<and>
       p' = (echo_sends api draw (pending_data p) p)\<lparr>pending_data := [], data_notify := False\<rparr> \<and>
       (if view p can = NoLink \<and> can \<in> (canonicalize \<circ> dm_peer) ` set (pending_data p)
        then called_back can p p' else left_alone can p p'))"
  using assms(2) echo_sends_answers [OF assms(1), of api draw "pending_data p" can]
  by (auto simp: echo_loop_eq called_back_def left_alone_def control_to_def split: if_splits)

theorem echo_loop_answers_witness:
  "\<exists>p'. echo_loop (mini_api to_le_bytes) (\<lambda>_. 5)
       (demo_up\<lparr>pending_data := [\<lparr>dm_peer = V4 2 9000, dm_data = str_bytes ''hello v1''\<rparr>,
                              \<lparr>dm_peer = V4 3 9000, dm_data = [1]\<rparr>]\<rparr>) = (Pending, p') \<and>
     view p' (CanonicalAddr (V4 2 9000)) = Up 7 \<and> (\<exists>c. view p' (CanonicalAddr (V4 3 9000)) = Opening c)"
proof -
  let ?ms = "[\<lparr>dm_peer = V4 2 9000, dm_data = str_bytes ''hello v1''\<rparr>, \<lparr>dm_peer = V4 3 9000, dm_data = [1]\<rparr>]"
  let ?p = "demo_up\<lparr>pending_data := ?ms\<rparr>" and ?api = "mini_api to_le_bytes"
  have wf: "wf_peer ?p" by simp
  obtain st p' where run: "echo_loop ?api (\<lambda>_. 5) ?p = (st, p')" by fastforce
  have tok: "\<not> shutdown_token ?p" and v: "view demo_up = (\<lambda>_. NoLink)(CanonicalAddr (V4 2 9000) := Up 7)"
    using demo_up_moves moves_view [OF demo_up_moves] by (auto simp: moves_def same_env_def fun_eq_iff)
  from echo_loop_answers [OF wf run, of "CanonicalAddr (V4 2 9000)"] tok v
  have "st = Pending" "view p' (CanonicalAddr (V4 2 9000)) = Up 7" by (auto simp: left_alone_def)
  moreover from echo_loop_answers [OF wf run, of "CanonicalAddr (V4 3 9000)"] tok v
  have "\<exists>c. view p' (CanonicalAddr (V4 3 9000)) = Opening c" by (auto simp: called_back_def)
  ultimately show ?thesis using run by blast
qed

end
