(* ===== verification/Echo_Run.thy ===== *)
theory Echo_Run
  imports First_Message Examples
begin

text \<open>
  The echo example as a whole, \<^verbatim>\<open>src/examples/echo.rs\<close>: the server, a first client, and a second
  client that takes over its address after it is gone. The clients and the server run in turns and every
  datagram arrives, in order; KCP contributes the hypothesis \<open>kcp_echoes\<close>, that a message and its
  copy get through between two fresh instances of one conversation.
\<close>

section \<open>The contribution of KCP\<close>

text \<open>
  A message sent through an instance that is not dead, flushed when the clock shows one of the values of
  \<open>T\<close>; \<open>Q\<close> is about its frames and the instance after them.
\<close>

definition kcp_sends_in :: "u32 set \<Rightarrow> 'k kcp_api \<Rightarrow> bytes \<Rightarrow> 'k \<Rightarrow> (bytes list \<Rightarrow> 'k \<Rightarrow> bool) \<Rightarrow> bool" where
  "kcp_sends_in T api data k Q \<longleftrightarrow> \<not> api_is_dead_link api k \<and>
     (\<exists>n k1. api_send api data k = (Inr n, k1) \<and>
        (\<forall>now \<in> T. \<forall>fs1 r1 k2 fs2 r2 k3.
           frames (api_update api now k1) = (fs1, r1, k2) \<longrightarrow> frames (api_flush api k2) = (fs2, r2, k3) \<longrightarrow>
           r1 = Inr () \<and> r2 = Inr () \<and> (\<forall>f \<in> set (fs1 @ fs2). length f < 65535) \<and> Q (fs1 @ fs2) k3))"

definition kcp_sends :: "'k kcp_api \<Rightarrow> bytes \<Rightarrow> 'k \<Rightarrow> (bytes list \<Rightarrow> 'k \<Rightarrow> bool) \<Rightarrow> bool" where
  "kcp_sends = kcp_sends_in UNIV"

definition kcp_echoes :: "'k kcp_api \<Rightarrow> bytes \<Rightarrow> 'k \<Rightarrow> bool" where
  "kcp_echoes api data k \<longleftrightarrow>
     kcp_sends api data k (\<lambda>fs kc. \<exists>ks. receive_frames api fs k = Some ([data], ks) \<and>
       kcp_sends api data ks (\<lambda>gs ks'. \<exists>kc'. receive_frames api gs kc = Some ([data], kc')))"

text \<open>The frames an instance writes when its queue is flushed, at any time, and the instance after it.\<close>

definition flushed :: "'k kcp_api \<Rightarrow> 'k \<Rightarrow> bytes list \<Rightarrow> 'k \<Rightarrow> bool" where
  "flushed api k fs k' \<longleftrightarrow> (\<exists>now fs1 r1 k2 fs2 r2.
     frames (api_update api now k) = (fs1, r1, k2) \<and> frames (api_flush api k2) = (fs2, r2, k') \<and> fs = fs1 @ fs2)"

lemma kcp_sendsD:
  assumes "kcp_sends api data k Q"
  obtains n k1 where "\<not> api_is_dead_link api k" "api_send api data k = (Inr n, k1)"
    "\<And>fs k3. flushed api k1 fs k3 \<Longrightarrow> (\<forall>f \<in> set fs. length f < 65535) \<and> Q fs k3"
proof -
  obtain n k1 where k1: "\<not> api_is_dead_link api k" "api_send api data k = (Inr n, k1)"
    and all: "\<forall>now fs1 r1 k2 fs2 r2 k3.
           frames (api_update api now k1) = (fs1, r1, k2) \<longrightarrow> frames (api_flush api k2) = (fs2, r2, k3) \<longrightarrow>
           r1 = Inr () \<and> r2 = Inr () \<and> (\<forall>f \<in> set (fs1 @ fs2). length f < 65535) \<and> Q (fs1 @ fs2) k3"
    using assms unfolding kcp_sends_def kcp_sends_in_def by blast
  have "(\<forall>f \<in> set fs. length f < 65535) \<and> Q fs k3" if fl: "flushed api k1 fs k3" for fs k3
  proof -
    obtain now fs1 r1 k2 fs2 r2 where "frames (api_update api now k1) = (fs1, r1, k2)"
      "frames (api_flush api k2) = (fs2, r2, k3)" "fs = fs1 @ fs2" using fl unfolding flushed_def by blast
    with all show ?thesis by blast
  qed
  with k1 show thesis by (rule that)
qed

section \<open>The program\<close>

text \<open>The datagrams for an address that the socket of a peer took since a moment, as the other socket delivers them.\<close>

definition arriving :: "sock_addr \<Rightarrow> sock_addr \<Rightarrow> platform \<Rightarrow> platform \<Rightarrow> (io_error + bytes \<times> sock_addr) list" where
  "arriving from to w w' =
     map (\<lambda>(d, m). Inr (m, from)) (filter (\<lambda>(d, m). canonicalize d = canonicalize to)
       (drop (length (sent w)) (sent w')))"

text \<open>
  What happens while a client waits in \<^verbatim>\<open>recv\<close>: its datagrams reach the server, the answers reach
  the client, whose queued data then reaches the server; the server task runs, and its datagrams reach the
  client. \<open>w\<close> is the platform of the client when it was bound.
\<close>

definition exchange ::
  "'k kcp_api \<Rightarrow> (nat \<Rightarrow> u32) \<Rightarrow> sock_addr \<Rightarrow> sock_addr \<Rightarrow> platform \<Rightarrow> 'k kcp_peer \<Rightarrow> 'k kcp_peer \<Rightarrow>
     ('k kcp_peer \<times> 'k kcp_peer) option" where
  "exchange api draw client_at server_at w client server =
     (case receive_task api (arriving client_at server_at w (plat client)) server of
        None \<Rightarrow> None
      | Some server1 \<Rightarrow>
     (case receive_task api (arriving server_at client_at (plat server) (plat server1)) client of
        None \<Rightarrow> None
      | Some client1 \<Rightarrow>
     (case receive_task api (arriving client_at server_at (plat client) (plat client1)) server1 of
        None \<Rightarrow> None
      | Some server2 \<Rightarrow>
     (case echo_loop api draw server2 of
        (_, server3) \<Rightarrow>
     (case receive_task api (arriving server_at client_at (plat server1) (plat server3)) client1 of
        None \<Rightarrow> None
      | Some client2 \<Rightarrow> Some (client2, server3))))))"

text \<open>What a wait for \<^verbatim>\<open>recv\<close> gives when the time is up: nothing if the call is still pending.\<close>

definition polled :: "'a poll \<Rightarrow> 'a option" where
  "polled r = (case r of Ready x \<Rightarrow> Some x | Pending \<Rightarrow> None)"

definition run_client ::
  "'k kcp_api \<Rightarrow> (nat \<Rightarrow> u32) \<Rightarrow> string \<Rightarrow> sock_addr \<Rightarrow> platform \<Rightarrow> u64 \<Rightarrow> u32 \<Rightarrow> bytes \<Rightarrow> kcp_config \<Rightarrow> 'k kcp_peer \<Rightarrow>
     ('k kcp_peer outcome \<times> 'k kcp_peer) option" where
  "run_client api draw label addr w inc conv payload cfg server =
     (case client_start api (Inr w) inc conv payload cfg of
        Panicked msg \<Rightarrow> Some (Panicked msg, server)
      | Returned client \<Rightarrow>
          (case exchange api draw addr server_addr w client server of
             None \<Rightarrow> None
           | Some (client1, server1) \<Rightarrow>
               (case recv client1 of
                  (received, client2) \<Rightarrow>
                    Some (client_finish label payload (polled received) client2, server1))))"

text \<open>
  \<^verbatim>\<open>main\<close>: the platforms of the three sockets, the incarnations and the ids drawn are
  arguments. The result is the server that is left.
\<close>

definition echo_main ::
  "'k kcp_api \<Rightarrow> (nat \<Rightarrow> u32) \<Rightarrow> platform \<Rightarrow> platform \<Rightarrow> platform \<Rightarrow> u64 \<Rightarrow> u64 \<Rightarrow> u64 \<Rightarrow> u32 \<Rightarrow> u32 \<Rightarrow>
     'k kcp_peer outcome option" where
  "echo_main api draw ws w1 w2 inc inc1 inc2 conv1 conv2 =
     (case echo_server (Inr ws) inc of
        Panicked msg \<Rightarrow> Some (Panicked msg)
      | Returned server \<Rightarrow>
     (case run_client api draw ''client[v1]'' client_addr w1 inc1 conv1 (str_bytes ''hello v1'') example_config server of
        None \<Rightarrow> None
      | Some (Panicked msg, _) \<Rightarrow> Some (Panicked msg)
      | Some (Returned _, server1) \<Rightarrow>
     (case run_client api draw ''client[v2]'' client_addr w2 inc2 conv2 (str_bytes ''hello v2 (after restart)'') example_config server1 of
        None \<Rightarrow> None
      | Some (Panicked msg, _) \<Rightarrow> Some (Panicked msg)
      | Some (Returned _, server2) \<Rightarrow> Some (Returned server2))))"

section \<open>The steps of a round\<close>

lemma arriving_accepting:
  assumes "accepting w" and "same_oracles w w'" and "offered w' = offered w @ xs"
  shows "arriving from to w w' = map (\<lambda>(d, m). Inr (m, from)) (filter (\<lambda>(d, m). canonicalize d = canonicalize to) xs)"
  using assms accepting_same [OF assms(2,1)] by (simp add: arriving_def sent_accepting)

lemma arriving_exact:
  assumes "accepting w" and "same_oracles w w'" and "offered w' = offered w @ map (\<lambda>m. (to, m)) ms"
  shows "arriving from to w w' = map (\<lambda>m. Inr (m, from)) ms"
  unfolding arriving_accepting [OF assms] by (simp add: filter_map comp_def)

lemma same_env_oracles: "same_env p p' \<Longrightarrow> same_oracles (plat p) (plat p')"
  by (simp add: same_env_def)

lemma logs_control_exact:
  assumes "logs_control w w'" and "control_sent w' = control_sent w @ ctl"
  shows "offered w' = offered w @ ctl"
proof -
  obtain xs where xs: "offered w' = offered w @ xs" "\<forall>(d, m) \<in> set xs. \<not> is_data m"
    using assms(1) by (auto simp: logs_control_def)
  then have "filter (\<lambda>(_, m). \<not> is_data m) xs = xs" by (auto simp: filter_id_conv)
  with xs(1) assms(2) show ?thesis by (simp add: control_sent_not_data)
qed

lemma take_control: "take 65535 (encode_control t c) = encode_control t c"
  by (simp add: encode_control_def)

text \<open>An established session for \<open>peer\<close> behind the handle \<open>h\<close>, with KCP in state \<open>k\<close>.\<close>

definition talks :: "'k kcp_peer \<Rightarrow> sock_addr \<Rightarrow> handle \<Rightarrow> u32 \<Rightarrow> 'k \<Rightarrow> bool" where
  "talks p peer h conv k \<longleftrightarrow> hm_get (sessions p) (canonicalize peer) = Some h \<and> h < length (arena p) \<and>
     \<not> closed (sess p h) \<and> state (inner (sess p h)) = Established \<and> conv_id (inner (sess p h)) = conv \<and>
     out_peer (out_adapter (inner (sess p h))) = peer \<and> peer_addr (sess p h) = peer \<and> kcp (inner (sess p h)) = k"

lemma talks_view: "talks p peer h conv k \<Longrightarrow> view p (canonicalize peer) = Up conv"
  by (simp add: talks_def view_Some link_of_def)

lemma talks_took: "talks p peer h conv k \<Longrightarrow> took p h k' p' \<Longrightarrow> talks p' peer h conv k'"
  by (auto simp: talks_def took_def)

text \<open>Dropping a peer, or reading its queue, leaves its links as they are.\<close>

lemma drop_peer_frame [simp]:
  "view (drop_peer p) = view p" "event_log (drop_peer p) = event_log p" "view (p\<lparr>pending_data := ms\<rparr>) = view p"
  by (simp_all add: drop_peer_def view_def sess_def fun_eq_iff split: option.split)

text \<open>The same for a session whose SYN is out.\<close>

definition waits :: "'k kcp_peer \<Rightarrow> sock_addr \<Rightarrow> handle \<Rightarrow> u32 \<Rightarrow> 'k \<Rightarrow> bool" where
  "waits p peer h conv k \<longleftrightarrow> hm_get (sessions p) (canonicalize peer) = Some h \<and> h < length (arena p) \<and>
     \<not> closed (sess p h) \<and> state (inner (sess p h)) = SynSent \<and> conv_id (inner (sess p h)) = conv \<and>
     out_peer (out_adapter (inner (sess p h))) = peer \<and> peer_addr (sess p h) = peer \<and> kcp (inner (sess p h)) = k"

text \<open>The server takes the SYN of a client it does not know, or knows with another id.\<close>

lemma server_accepts:
  assumes my: "sock_local_addr (plat p) = Inr my" and run: "\<not> shutdown_token p"
    and v: "view p (canonicalize a) = NoLink \<or> (\<exists>c. view p (canonicalize a) = Up c \<and> c \<noteq> conv)"
  shows "\<exists>p' h. receive_task api [Inr (encode_control Syn conv, a)] p = Some p' \<and>
    talks p' a h conv (apply_to api (config p) (api_new api conv)) \<and> same_env p p' \<and> pending_data p' = pending_data p \<and>
    offered (plat p') = offered (plat p) @ [(a, encode_control SynAck conv)] \<and>
    event_log p' = event_log p @ (if view p (canonicalize a) = NoLink then [] else [PeerRestarted a]) @ [Connected a]"
proof -
  obtain s w where ni: "new_inbound api conv a (own_incarnation p) (config p) (plat p) = (s, w)" by fastforce
  let ?p1 = "case hm_get (sessions p) (canonicalize a) of None \<Rightarrow> p | Some g \<Rightarrow> emit (PeerRestarted a) (close_session g p)"
  let ?p' = "insert_inbound a s (?p1\<lparr>plat := w\<rparr>)"
  have p1: "plat ?p1 = plat p" "own_incarnation ?p1 = own_incarnation p" "config ?p1 = config p"
      "length (arena ?p1) = length (arena p)" "pending_data ?p1 = pending_data p" "same_env p ?p1"
      "event_log ?p1 = event_log p @ (if view p (canonicalize a) = NoLink then [] else [PeerRestarted a])"
    by (auto simp: same_env_def view_def link_of_cases split: option.splits)
  have dec: "syn_decide api conv a my p = (\<lparr>syn_action = CreateNew, send_ack_to = None, ack_conv = 0\<rparr>, ?p1)"
    using v by (auto simp: syn_decide_def view_def link_of_cases Let_def split: option.splits session_state.splits)
  have "handle_incoming api (encode_control Syn conv) a p = Some (Inr (), ?p')"
    using my dec ni p1 read_conv_to_le_bytes [of conv "[]"]
    by (simp add: handle_incoming_def on_syn_def syn_ack_reply_def syn_create_def Let_def)
  then have rt: "receive_task api [Inr (encode_control Syn conv, a)] p = Some ?p'" using run by (simp add: take_control)
  have s: "inner s = \<lparr>kcp = apply_to api (config p) (api_new api conv), out_adapter = \<lparr>out_peer = a, out_buf = []\<rparr>,
        conv_id = conv, state = Established, incarnation = own_incarnation p\<rparr>" "\<not> closed s" "peer_addr s = a"
      "same_oracles (plat p) w" "offered w = offered (plat p) @ [(a, encode_control SynAck conv)]"
    using ni epoch_ms_facts [of "snd (send_to (encode_control SynAck conv) a (plat p))"]
      same_oracles_trans [of "plat p" "snd (send_to (encode_control SynAck conv) a (plat p))" w]
    by (auto simp: new_inbound_def Let_def split: prod.splits)
  have "talks ?p' a (length (arena p)) conv (apply_to api (config p) (api_new api conv))"
    using s p1(4) by (simp add: talks_def insert_inbound_def alloc_def sess_def nth_append)
  moreover have "same_env p ?p'" using p1(6) s(4) by (simp add: same_env_def insert_inbound_def alloc_def)
  ultimately show ?thesis using rt p1 s(5) by (intro exI [of _ ?p'] exI [of _ "length (arena p)"])
      (simp add: insert_inbound_def alloc_def)
qed

text \<open>The first message of a client waits in KCP behind the SYN.\<close>

lemma client_opens:
  assumes ok: "peer_ok p" and none: "hm_get (sessions p) (canonicalize b) = None"
    and ap: "\<not> api_is_dead_link api (apply_to api (config p) (api_new api conv))"
      "api_send api data (apply_to api (config p) (api_new api conv)) = (Inr n, k1)"
  shows "\<exists>p'. send api conv b data p = (Inr (), p') \<and> waits p' b (length (arena p)) conv k1 \<and> same_env p p' \<and>
    arena p' = arena p @ [sess p' (length (arena p))] \<and>
    sessions p' = hm_insert (canonicalize b) (length (arena p)) (sessions p) \<and>
    pending_data p' = pending_data p \<and> event_log p' = event_log p \<and>
    offered (plat p') = offered (plat p) @ [(b, encode_control Syn conv)]"
proof -
  have wf: "wf_peer p" using ok by (simp add: peer_ok_def)
  obtain r p' where se: "send api conv b data p = (r, p')" by fastforce
  obtain s w where no: "new_outbound api conv b (own_incarnation p) (config p) (plat p) = (s, w)" by fastforce
  obtain s1 w1 where ss: "send_syn s w = (s1, w1)" by fastforce
  have s: "kcp (inner s) = apply_to api (config p) (api_new api conv)" "state (inner s) = SynSent" "\<not> closed s" "peer_addr s = b"
      "conv_id (inner s) = conv" "out_peer (out_adapter (inner s)) = b"
    using no by (auto simp: new_outbound_def Let_def split: prod.splits)
  with send_syn_frame(1) [OF ss] have s1: "inner s1 = inner s" "\<not> closed s1" "peer_addr s1 = b" by auto
  have r: "r = Inr ()" "p' = p\<lparr>plat := w1, arena := arena p @ [set_inner_kcp k1 s1], sessions := hm_insert (canonicalize b) (length (arena p)) (sessions p)\<rparr>"
    using se none no ss s s1 ap
    by (auto simp: send_def initiate_defs on_session_def send_data_def sess_def set_sess_def Let_def)
  have v: "\<not> link_up (view p (canonicalize b))" "view p (canonicalize b) = NoLink" using view_None [OF none] by simp_all
  have mv: "moves p (canonicalize b) (Opening conv) [] [(b, encode_control Syn conv)] p'" using moves_send [OF wf se] v(2) by simp
  have "offered (plat p') = offered (plat p) @ [(b, encode_control Syn conv)]"
    using send_logs [OF wf se] v(1) mv by (intro logs_control_exact) (auto simp: moves_def)
  then show ?thesis
    using se r s s1 mv by (intro exI [of _ p']) (simp add: sess_def nth_append moves_def waits_def)
qed

text \<open>The transition to Established flushes what was queued; the other sessions stay as they are.\<close>

definition came_up :: "'k kcp_peer \<Rightarrow> handle \<Rightarrow> sock_addr \<Rightarrow> 'k kcp_peer \<Rightarrow> bool" where
  "came_up p h b p' \<longleftrightarrow> sessions p' = sessions p \<and> length (arena p') = length (arena p) \<and>
     (\<forall>g. g \<noteq> h \<longrightarrow> sess p' g = sess p g) \<and> same_env p p' \<and> pending_data p' = pending_data p \<and>
     event_log p' = event_log p @ [Connected b]"

lemma establish_opens:
  assumes acc: "accepting (plat p)" and h: "waits p b h conv k"
    and s1: "s1 = (sess p h)\<lparr>inner := (inner (sess p h))\<lparr>kcp := k1, conv_id := c\<rparr>\<rparr>" and es: "establish api s1 (plat p) = (s2, w)"
    and p': "p' = emit (Connected b) (set_sess h s2 (p\<lparr>plat := w\<rparr>))"
  shows "\<exists>fs k3. flushed api k1 fs k3 \<and> talks p' b h c k3 \<and> came_up p h b p' \<and>
    offered (plat p') = offered (plat p) @ map (\<lambda>f. (b, encode_kcp_data f)) fs"
proof -
  have i: "kcp (inner s1) = k1" "out_peer (out_adapter (inner s1)) = b" using h s1 by (simp_all add: waits_def)
  obtain now fs1 r1 k2 fs2 r2 where fr: "frames (api_update api now k1) = (fs1, r1, k2)" "frames (api_flush api k2) = (fs2, r2)"
    "offered w = offered (plat p) @ map (\<lambda>f. (b, encode_kcp_data f)) (fs1 @ fs2)" "kcp (inner s2) = snd r2"
    using establish_frames [OF acc es] unfolding i by metis
  obtain t where kf: "kcp_frame ((set_inner_state Established s1)\<lparr>last_rx := t\<rparr>) s2"
    using es by (auto simp: establish_def split: prod.splits dest!: flush_queued_frame(1))
  note f = kcp_frame_fields [OF kf]
  have "flushed api k1 (fs1 @ fs2) (kcp (inner s2))" using fr unfolding flushed_def by (cases r2) force
  moreover have "talks p' b h c (kcp (inner s2))" using f h s1 p' by (simp add: talks_def waits_def sess_set_sess)
  moreover have "came_up p h b p'"
    using p' h establish_frame [OF es] by (auto simp: came_up_def same_env_def data_only_def waits_def sess_set_sess)
  ultimately show ?thesis using fr(3) p' by (intro exI [of _ "fs1 @ fs2"] exI [of _ "kcp (inner s2)"]) simp
qed

lemma client_established:
  assumes acc: "accepting (plat p)" and run: "\<not> shutdown_token p" and h: "waits p b h conv k"
  shows "\<exists>p' fs k3. receive_task api [Inr (encode_control SynAck conv, b)] p = Some p' \<and> flushed api k fs k3 \<and>
    talks p' b h conv k3 \<and> came_up p h b p' \<and> offered (plat p') = offered (plat p) @ map (\<lambda>f. (b, encode_kcp_data f)) fs"
proof -
  obtain s2 w where es: "establish api (sess p h) (plat p) = (s2, w)" by fastforce
  let ?p' = "emit (Connected b) (set_sess h s2 (p\<lparr>plat := w\<rparr>))"
  have "handle_incoming api (encode_control SynAck conv) b p = Some (Inr (), ?p')"
    using h es read_conv_to_le_bytes [of conv "[]"] by (simp add: handle_incoming_def on_syn_ack_def waits_def)
  then have "receive_task api [Inr (encode_control SynAck conv, b)] p = Some ?p'" using run by (simp add: take_control)
  moreover have "sess p h = (sess p h)\<lparr>inner := (inner (sess p h))\<lparr>kcp := k, conv_id := conv\<rparr>\<rparr>" using h by (auto simp: waits_def)
  from establish_opens [OF acc h this es refl] obtain fs k3 where "flushed api k fs k3" "talks ?p' b h conv k3" "came_up p h b ?p'"
    "offered (plat ?p') = offered (plat p) @ map (\<lambda>f. (b, encode_kcp_data f)) fs" by blast
  ultimately show ?thesis by blast
qed

text \<open>KCP does not read the clock itself.\<close>

lemma run_prog_clock: "run_prog prog d w = (r, d', w') \<Longrightarrow> clock_reads w' = clock_reads w"
proof (induction prog arbitrary: d w)
  case (WriteFrame b cont)
  obtain x d1 w1 where dw: "direct_write b d w = (x, d1, w1)" by (metis prod_cases3)
  then have "clock_reads w1 = clock_reads w"
    by (auto simp: direct_write_eq try_send_to_def Let_def split: sum.splits if_splits)
  with WriteFrame.IH [OF rangeI, of x d1 w1] WriteFrame.prems dw show ?case by simp
qed simp

lemma run_kcp_clock: "run_kcp prog s w = (r, s', w') \<Longrightarrow> clock_reads w' = clock_reads w"
  by (auto simp: run_kcp_def split: prod.splits dest: run_prog_clock)

text \<open>A message sent on an established session is on the wire when the call returns.\<close>

lemma talks_send_in:
  assumes acc: "accepting (plat p)" and clk: "fst (current_ms (plat p)) \<in> T" and t: "talks p a h conv k"
    and ks: "kcp_sends_in T api data k Q"
  shows "\<exists>p' gs k'. send api c a data p = (Inr (), p') \<and> talks p' a h conv k' \<and> Q gs k' \<and> (\<forall>f \<in> set gs. length f < 65535) \<and>
    same_env p p' \<and> event_log p' = event_log p \<and> offered (plat p') = offered (plat p) @ map (\<lambda>f. (a, encode_kcp_data f)) gs \<and>
    clock_reads (plat p') = Suc (clock_reads (plat p))"
proof -
  let ?s = "sess p h"
  obtain n k1 where ap: "\<not> api_is_dead_link api k" "api_send api data k = (Inr n, k1)"
    and q: "\<And>now fs1 r1 k2 fs2 r2 k3. now \<in> T \<Longrightarrow> frames (api_update api now k1) = (fs1, r1, k2) \<Longrightarrow> frames (api_flush api k2) = (fs2, r2, k3) \<Longrightarrow>
       r1 = Inr () \<and> r2 = Inr () \<and> (\<forall>f \<in> set (fs1 @ fs2). length f < 65535) \<and> Q (fs1 @ fs2) k3"
    using ks unfolding kcp_sends_in_def by blast
  let ?s1 = "set_inner_kcp k1 ?s"
  obtain now w1 where cm: "current_ms (plat p) = (now, w1)" by fastforce
  obtain r1 s2 w2 where up: "run_kcp (api_update api now k1) ?s1 w1 = (r1, s2, w2)" by (metis prod_cases3)
  obtain r2 s3 w3 where fl: "run_kcp (api_flush api (kcp (inner s2))) s2 w2 = (r2, s3, w3)" by (metis prod_cases3)
  have w1: "accepting w1" "same_oracles (plat p) w1" "offered w1 = offered (plat p)"
    using acc accepting_same [of "plat p" w1] same_oracles_current_ms [of "plat p"] offered_current_ms [of "plat p"] cm by simp_all
  obtain fs1 x1 k2 where f1: "frames (api_update api now k1) = (fs1, x1, k2)" by (metis prod_cases3)
  obtain fs2 x2 k3 where f2: "frames (api_flush api k2) = (fs2, x2, k3)" by (metis prod_cases3)
  have s1: "out_peer (out_adapter (inner ?s1)) = a" "\<not> closed ?s1" "state (inner ?s1) = Established" "conv_id (inner ?s1) = conv"
      "peer_addr ?s1 = a" using t by (simp_all add: talks_def)
  note u = run_kcp_frames [OF w1(1) up f1] and uf = run_kcp_frame [OF up]
  have w2: "accepting w2" "same_oracles w1 w2" using uf w1(1) accepting_same by (auto simp: data_only_def)
  have "frames (api_flush api (kcp (inner s2))) = (fs2, x2, k3)" using u f2 by simp
  note v = run_kcp_frames [OF w2(1) fl this] and vf = run_kcp_frame [OF fl]
  have "now \<in> T" using clk cm by simp
  note res = q [OF this f1 f2]
  let ?p = "set_sess h s3 (p\<lparr>plat := w3\<rparr>)"
  have "send_data api data ?s (plat p) = (Inr (), s3, w3)"
    using t ap cm up fl u v res by (simp add: send_data_def talks_def Let_def)
  then have se: "send api c a data p = (Inr (), ?p)" using t by (simp add: send_def talks_def on_session_def)
  have fields: "closed s3 = closed ?s1" "state (inner s3) = state (inner ?s1)" "conv_id (inner s3) = conv_id (inner ?s1)"
      "out_peer (out_adapter (inner s2)) = out_peer (out_adapter (inner ?s1))"
      "out_peer (out_adapter (inner s3)) = out_peer (out_adapter (inner ?s1))" "peer_addr s3 = peer_addr ?s1"
    using kcp_frame_fields [OF conjunct1 [OF uf]] kcp_frame_fields [OF conjunct1 [OF vf]] by simp_all
  have "talks ?p a h conv k3" using t s1 fields v by (simp add: talks_def sess_set_sess)
  moreover have "same_oracles w2 w3" using vf by (simp add: data_only_def)
  then have "same_env p ?p" using w1(2) w2(2) by (auto simp: same_env_def intro: same_oracles_trans)
  moreover have "offered (plat ?p) = offered (plat p) @ map (\<lambda>f. (a, encode_kcp_data f)) (fs1 @ fs2)"
    using u v w1(3) fields(4) s1(1) by simp
  moreover have "clock_reads (plat ?p) = Suc (clock_reads (plat p))"
    using run_kcp_clock [OF up] run_kcp_clock [OF fl] cm by (auto simp: current_ms_def epoch_ms_def Let_def)
  ultimately show ?thesis using se res by (intro exI [of _ ?p] exI [of _ "fs1 @ fs2"] exI [of _ k3]) simp
qed

lemma talks_send:
  assumes "accepting (plat p)" and "talks p a h conv k" and "kcp_sends api data k Q"
  shows "\<exists>p' gs k'. send api c a data p = (Inr (), p') \<and> talks p' a h conv k' \<and> Q gs k' \<and> (\<forall>f \<in> set gs. length f < 65535) \<and>
    same_env p p' \<and> event_log p' = event_log p \<and> offered (plat p') = offered (plat p) @ map (\<lambda>f. (a, encode_kcp_data f)) gs"
  using talks_send_in [OF assms(1) UNIV_I assms(2) assms(3) [unfolded kcp_sends_def]] by blast

text \<open>The server task answers a message on its session.\<close>

lemma server_answers:
  assumes acc: "accepting (plat p)" and run: "\<not> shutdown_token p"
    and t: "talks p a h conv k" and pd: "pending_data p = [\<lparr>dm_peer = a, dm_data = data\<rparr>]" and ks: "kcp_sends api data k Q"
  shows "\<exists>p' gs k'. echo_loop api draw p = (Pending, p') \<and> talks p' a h conv k' \<and> Q gs k' \<and> (\<forall>f \<in> set gs. length f < 65535) \<and>
    same_env p p' \<and> pending_data p' = [] \<and> event_log p' = event_log p \<and>
    offered (plat p') = offered (plat p) @ map (\<lambda>f. (a, encode_kcp_data f)) gs"
proof -
  obtain p1 gs k' where p1: "send api (draw 0) a data p = (Inr (), p1)" "talks p1 a h conv k'" "Q gs k'"
    "\<forall>f \<in> set gs. length f < 65535" "same_env p p1" "event_log p1 = event_log p"
    "offered (plat p1) = offered (plat p) @ map (\<lambda>f. (a, encode_kcp_data f)) gs"
    using talks_send [OF acc t ks] by blast
  let ?p = "p1\<lparr>pending_data := [], data_notify := False\<rparr>"
  have "echo_loop api draw p = (Pending, ?p)" using run pd p1(1) by (simp add: echo_loop_eq)
  moreover have "talks ?p a h conv k'" using p1(2) by (simp add: talks_def sess_def)
  moreover have "same_env p ?p" using p1(5) by (simp add: same_env_def)
  ultimately show ?thesis using p1(3,4,6,7) by (intro exI [of _ ?p] exI [of _ gs] exI [of _ k']) simp
qed

text \<open>
  A round. In its first half a fresh client sends, the SYN and its answer cross, and the frames of the
  message are on their way to a fresh session of the server.
\<close>

definition ready_client :: "'k kcp_peer \<Rightarrow> bool" where
  "ready_client p \<longleftrightarrow> peer_ok p \<and> accepting (plat p) \<and> \<not> shutdown_token p \<and> sessions p = [] \<and> pending_data p = []"

definition ready_server :: "sock_addr \<Rightarrow> u32 \<Rightarrow> 'k kcp_peer \<Rightarrow> bool" where
  "ready_server a conv p \<longleftrightarrow> (\<exists>my. sock_local_addr (plat p) = Inr my) \<and> accepting (plat p) \<and> \<not> shutdown_token p \<and>
     pending_data p = [] \<and> (view p (canonicalize a) = NoLink \<or> (\<exists>c. view p (canonicalize a) = Up c \<and> c \<noteq> conv))"

lemma echo_handshake:
  assumes c: "ready_client c0" and s: "ready_server a conv s0"
    and k: "kcp_sends api data (apply_to api (config c0) (api_new api conv)) Q"
  obtains c1 s1 c2 g h fs k3 where "send api conv b data c0 = (Inr (), c1)"
    "arriving a b (plat c0) (plat c1) = [Inr (encode_control Syn conv, a)]"
    "receive_task api [Inr (encode_control Syn conv, a)] s0 = Some s1" "talks s1 a g conv (apply_to api (config s0) (api_new api conv))"
    "same_env s0 s1" "pending_data s1 = []"
    "event_log s1 = event_log s0 @ (if view s0 (canonicalize a) = NoLink then [] else [PeerRestarted a]) @ [Connected a]"
    "arriving b a (plat s0) (plat s1) = [Inr (encode_control SynAck conv, b)]"
    "receive_task api [Inr (encode_control SynAck conv, b)] c1 = Some c2" "talks c2 b h conv k3" "pending_data c2 = []"
    "\<not> shutdown_token c2" "arriving a b (plat c1) (plat c2) = map (\<lambda>f. Inr (encode_kcp_data f, a)) fs"
    "\<forall>f \<in> set fs. length f < 65535" "Q fs k3"
proof -
  let ?k = "apply_to api (config c0) (api_new api conv)"
  have c': "peer_ok c0" "accepting (plat c0)" "\<not> shutdown_token c0" "sessions c0 = []" "pending_data c0 = []"
    using c by (simp_all add: ready_client_def)
  have none: "hm_get (sessions c0) (canonicalize b) = None" using c'(4) by (simp add: hm_get_def)
  obtain n k1 where k1: "\<not> api_is_dead_link api ?k" "api_send api data ?k = (Inr n, k1)"
    "\<And>fs k3. flushed api k1 fs k3 \<Longrightarrow> (\<forall>f \<in> set fs. length f < 65535) \<and> Q fs k3" by (rule kcp_sendsD [OF k]) blast
  obtain c1 where c1: "send api conv b data c0 = (Inr (), c1)" "waits c1 b (length (arena c0)) conv k1" "same_env c0 c1"
    "pending_data c1 = pending_data c0" "offered (plat c1) = offered (plat c0) @ [(b, encode_control Syn conv)]"
    using client_opens [OF c'(1) none k1(1,2)] by blast
  have c1': "accepting (plat c1)" "\<not> shutdown_token c1"
    using c1(3) c'(2,3) accepting_same by (auto simp: same_env_def)
  obtain s1 g where s1: "receive_task api [Inr (encode_control Syn conv, a)] s0 = Some s1"
    "talks s1 a g conv (apply_to api (config s0) (api_new api conv))" "same_env s0 s1" "pending_data s1 = []"
    "offered (plat s1) = offered (plat s0) @ [(a, encode_control SynAck conv)]"
    "event_log s1 = event_log s0 @ (if view s0 (canonicalize a) = NoLink then [] else [PeerRestarted a]) @ [Connected a]"
    using s server_accepts [of s0 _ a conv api] unfolding ready_server_def by metis
  obtain c2 fs k3 where c2: "receive_task api [Inr (encode_control SynAck conv, b)] c1 = Some c2" "flushed api k1 fs k3"
    "talks c2 b (length (arena c0)) conv k3" "came_up c1 (length (arena c0)) b c2"
    "offered (plat c2) = offered (plat c1) @ map (\<lambda>f. (b, encode_kcp_data f)) fs"
    using client_established [OF c1' c1(2)] by blast
  have "arriving a b (plat c1) (plat c2) = map (\<lambda>f. Inr (encode_kcp_data f, a)) fs"
    using arriving_exact [OF c1'(1), of "plat c2" b "map encode_kcp_data fs"] c2(4,5) by (simp add: comp_def came_up_def same_env_oracles)
  moreover have "arriving a b (plat c0) (plat c1) = [Inr (encode_control Syn conv, a)]"
    using arriving_accepting [OF c'(2) same_env_oracles [OF c1(3)] c1(5)] by simp
  moreover have "arriving b a (plat s0) (plat s1) = [Inr (encode_control SynAck conv, b)]"
    using arriving_accepting [OF _ same_env_oracles [OF s1(3)] s1(5)] s by (simp add: ready_server_def)
  moreover have "pending_data c2 = []" "\<not> shutdown_token c2" using c2(4) c1(4) c1'(2) c'(5) by (simp_all add: came_up_def same_env_def)
  ultimately show thesis
    using c1(1) s1 c2 k1(3) [OF c2(2)] by (intro that [of c1 s1 g c2 _ k3 fs]) simp_all
qed

text \<open>In its second half the server takes the message and its task answers; the client has it back.\<close>

lemma echo_round:
  assumes c: "ready_client c0" and s: "ready_server a conv s0" and cfg: "config s0 = config c0"
    and k: "kcp_echoes api data (apply_to api (config c0) (api_new api conv))"
  shows "\<exists>c1 c2 s3. send api conv b data c0 = (Inr (), c1) \<and> exchange api draw a b (plat c0) c1 s0 = Some (c2, s3) \<and>
    \<not> shutdown_token c2 \<and> pending_data c2 = [\<lparr>dm_peer = b, dm_data = data\<rparr>] \<and>
    same_env s0 s3 \<and> pending_data s3 = [] \<and> view s3 (canonicalize a) = Up conv \<and>
    event_log s3 = event_log s0 @ (if view s0 (canonicalize a) = NoLink then [] else [PeerRestarted a]) @ [Connected a]"
  using c s k [unfolded kcp_echoes_def]
proof (rule echo_handshake [where b = b])
  fix c1 s1 c2 g h fs k3
  assume c1: "send api conv b data c0 = (Inr (), c1)" "arriving a b (plat c0) (plat c1) = [Inr (encode_control Syn conv, a)]"
    and s1: "receive_task api [Inr (encode_control Syn conv, a)] s0 = Some s1" "talks s1 a g conv (apply_to api (config s0) (api_new api conv))"
      "same_env s0 s1" "pending_data s1 = []"
      "event_log s1 = event_log s0 @ (if view s0 (canonicalize a) = NoLink then [] else [PeerRestarted a]) @ [Connected a]"
      "arriving b a (plat s0) (plat s1) = [Inr (encode_control SynAck conv, b)]"
    and c2: "receive_task api [Inr (encode_control SynAck conv, b)] c1 = Some c2" "talks c2 b h conv k3" "pending_data c2 = []"
      "\<not> shutdown_token c2" "arriving a b (plat c1) (plat c2) = map (\<lambda>f. Inr (encode_kcp_data f, a)) fs"
    and fs: "\<forall>f \<in> set fs. length f < 65535"
      "\<exists>ks. receive_frames api fs (apply_to api (config c0) (api_new api conv)) = Some ([data], ks) \<and>
         kcp_sends api data ks (\<lambda>gs ks'. \<exists>kc'. receive_frames api gs k3 = Some ([data], kc'))"
  from fs(2) obtain ks where ks: "receive_frames api fs (apply_to api (config c0) (api_new api conv)) = Some ([data], ks)"
    "kcp_sends api data ks (\<lambda>gs ks'. \<exists>kc'. receive_frames api gs k3 = Some ([data], kc'))" by blast
  have s1': "\<not> shutdown_token s1" "accepting (plat s1)"
    using s1(3) s accepting_same by (auto simp: same_env_def ready_server_def)
  obtain s2 where s2: "receive_task api (map (\<lambda>f. Inr (encode_kcp_data f, a)) fs) s1 = Some s2" "took s1 g ks s2"
    "pending_data s2 = [\<lparr>dm_peer = a, dm_data = data\<rparr>]"
    using receive_data_frames [of s1 a g fs api "[data]" ks] s1(2,4) s1'(1) fs(1) ks(1) cfg by (auto simp: talks_def)
  have s2': "accepting (plat s2)" "\<not> shutdown_token s2" "talks s2 a g conv ks" "offered (plat s2) = offered (plat s1)"
    "same_env s1 s2" "event_log s2 = event_log s1"
    using s2(2) s1' talks_took [OF s1(2) s2(2)] accepting_same by (auto simp: took_def same_env_def)
  obtain s3 gs ks' where s3: "echo_loop api draw s2 = (Pending, s3)" "talks s3 a g conv ks'"
    "\<exists>kc'. receive_frames api gs k3 = Some ([data], kc')" "\<forall>f \<in> set gs. length f < 65535" "same_env s2 s3" "pending_data s3 = []"
    "event_log s3 = event_log s2" "offered (plat s3) = offered (plat s2) @ map (\<lambda>f. (a, encode_kcp_data f)) gs"
    using server_answers [OF s2'(1-3) s2(3) ks(2)] by blast
  from s3(3) obtain kc' where kc': "receive_frames api gs k3 = Some ([data], kc')" by blast
  obtain c3 where c3: "receive_task api (map (\<lambda>f. Inr (encode_kcp_data f, b)) gs) c2 = Some c3" "took c2 h kc' c3"
    "pending_data c3 = [\<lparr>dm_peer = b, dm_data = data\<rparr>]"
    using receive_data_frames [of c2 b h gs api "[data]" kc'] c2(2-4) s3(4) kc' by (auto simp: talks_def)
  have "arriving b a (plat s1) (plat s3) = map (\<lambda>f. Inr (encode_kcp_data f, b)) gs"
    using arriving_exact [OF s1'(2) same_env_oracles, of s3 a "map encode_kcp_data gs"] s3(8) s2'(4) same_env_trans [OF s2'(5) s3(5)]
    by (simp add: comp_def)
  then have "exchange api draw a b (plat c0) c1 s0 = Some (c3, s3)"
    using c1(2) s1(1,6) c2(1,5) s2(1) s3(1) c3(1) by (simp only: exchange_def option.case prod.case)
  moreover have "same_env s0 s3" using s1(3) s2'(5) s3(5) by (blast intro: same_env_trans)
  moreover have "\<not> shutdown_token c3" using c3(2) c2(4) by (simp add: took_def same_env_def)
  ultimately show ?thesis using c1(1) c3(3) s3(6,7) s2'(6) s1(5) talks_view [OF s3(2)] by auto
qed

lemma bound_ready:
  assumes "bind_with (Inr w) inc cfg = Inr p" and "accepting w"
  shows "ready_client p" "plat p = w" "config p = cfg" "event_log p = []" "view p can = NoLink"
proof -
  have "bound_peer p" using assms(1) by (auto simp: bound_peer_def)
  then show "ready_client p"
    using assms peer_ok_bound by (auto simp: ready_client_def bind_with_def split: sum.splits)
  show "plat p = w" "config p = cfg" "event_log p = []" using assms by (auto simp: bind_with_def split: sum.splits)
  show "view p can = NoLink" using bind_with_wf [OF assms(1)] by simp
qed

lemma run_client_ok:
  assumes w: "sock_local_addr w = Inr addr" "accepting w" and s: "ready_server addr conv s0" "config s0 = cfg"
    and k: "kcp_echoes api payload (apply_to api cfg (api_new api conv))"
  shows "\<exists>c s3. run_client api draw label addr w inc conv payload cfg s0 = Some (Returned c, s3) \<and>
    same_env s0 s3 \<and> pending_data s3 = [] \<and> view s3 (canonicalize addr) = Up conv \<and>
    event_log s3 = event_log s0 @ (if view s0 (canonicalize addr) = NoLink then [] else [PeerRestarted addr]) @
      [Connected addr]"
proof -
  obtain c0 where b: "bind_with (Inr w) inc cfg = Inr (c0 :: 'a kcp_peer)" using w(1) by (simp add: bind_with_def)
  note c0 = bound_ready [OF b w(2)]
  obtain c1 c2 s3 where r: "send api conv server_addr payload c0 = (Inr (), c1)"
    "exchange api draw addr server_addr (plat c0) c1 s0 = Some (c2, s3)" "\<not> shutdown_token c2"
    "pending_data c2 = [\<lparr>dm_peer = server_addr, dm_data = payload\<rparr>]" "same_env s0 s3" "pending_data s3 = []"
    "view s3 (canonicalize addr) = Up conv"
    "event_log s3 = event_log s0 @ (if view s0 (canonicalize addr) = NoLink then [] else [PeerRestarted addr]) @
      [Connected addr]"
    using echo_round [OF c0(1) s(1), of api payload server_addr draw] c0(3) s(2) k by auto
  have "client_start api (Inr w) inc conv payload cfg = Returned c1" using b r(1) by (simp add: client_start_def)
  moreover have "recv c2 = (Ready (Inr \<lparr>dm_peer = server_addr, dm_data = payload\<rparr>), c2\<lparr>pending_data := []\<rparr>)"
    using r(3,4) by (simp add: recv_eq)
  ultimately have "run_client api draw label addr w inc conv payload cfg s0 = Some (Returned (drop_peer (c2\<lparr>pending_data := []\<rparr>)), s3)"
    using r(2) c0(2) by (simp add: run_client_def client_finish_def polled_def del: recv.simps)
  with r(5-8) show ?thesis by blast
qed

section \<open>Properties\<close>

text \<open>
  C9. The echo example succeeds, across the restart of the client. The server binds; a client sends its
  first message and gets it back; the client is dropped without a word, and a second one bound to the same
  address draws another id, sends and gets its message back in turn. No \<^verbatim>\<open>expect\<close>, assertion or
  timeout of \<^verbatim>\<open>main\<close> panics; the server reports \<^verbatim>\<open>Connected\<close>,
  \<^verbatim>\<open>PeerRestarted\<close> and \<^verbatim>\<open>Connected\<close> for the address, and ends connected to the second
  client.
\<close>

theorem echo_main_succeeds:
  assumes "sock_local_addr ws = Inr server_addr" and "sock_local_addr w1 = Inr client_addr" and "sock_local_addr w2 = Inr client_addr"
    and "accepting ws" and "accepting w1" and "accepting w2" and "conv1 \<noteq> conv2"
    and "kcp_echoes api (str_bytes ''hello v1'') (apply_to api example_config (api_new api conv1))"
    and "kcp_echoes api (str_bytes ''hello v2 (after restart)'') (apply_to api example_config (api_new api conv2))"
  shows "\<exists>server. echo_main api draw ws w1 w2 inc inc1 inc2 conv1 conv2 = Some (Returned server) \<and>
    event_log server = [Connected client_addr, PeerRestarted client_addr, Connected client_addr] \<and>
    view server (canonicalize client_addr) = Up conv2"
proof -
  obtain s0 where b: "bind_with (Inr ws) inc example_config = Inr (s0 :: 'a kcp_peer)" using assms(1) by (simp add: bind_with_def)
  note s0 = bound_ready [OF b assms(4)]
  have rs0: "ready_server client_addr conv1 s0"
    using s0(1,5) by (simp add: ready_server_def ready_client_def peer_ok_def)
  obtain c1 s1 where s1: "run_client api draw ''client[v1]'' client_addr w1 inc1 conv1 (str_bytes ''hello v1'') example_config s0 = Some (Returned c1, s1)"
    "same_env s0 s1" "pending_data s1 = []" "view s1 (canonicalize client_addr) = Up conv1" "event_log s1 = [Connected client_addr]"
    using run_client_ok [OF assms(2,5) rs0 s0(3) assms(8)] s0(4,5) by fastforce
  have rs1: "ready_server client_addr conv2 s1"
    using rs0 s1(2-4) assms(7) accepting_same by (auto simp: ready_server_def same_env_def same_oracles_def accepting_def)
  have "config s1 = example_config" using s1(2) s0(3) by (simp add: same_env_def)
  from run_client_ok [OF assms(3,6) rs1 this assms(9)] s1(4,5) obtain c2 s2 where
    s2: "run_client api draw ''client[v2]'' client_addr w2 inc2 conv2 (str_bytes ''hello v2 (after restart)'') example_config s1 = Some (Returned c2, s2)"
    "view s2 (canonicalize client_addr) = Up conv2"
    "event_log s2 = [Connected client_addr, PeerRestarted client_addr, Connected client_addr]"
    by fastforce
  have "echo_server (Inr ws) inc = Returned s0" using b by (simp add: echo_server_def)
  with s1(1) s2 show ?thesis by (simp add: echo_main_def)
qed

lemma mini_sends:
  assumes "\<not> mk_dead k" and "mk_snd k = []" and "length data < 65531" and "Q [to_le_bytes (mk_conv k) @ data] (k\<lparr>mk_snd := []\<rparr>)"
  shows "kcp_sends (mini_api to_le_bytes) data k Q"
  using assms by (auto simp: kcp_sends_def kcp_sends_in_def)

lemma mini_receives:
  assumes "mk_rcv k = []" and "mk_conv k = c"
  shows "receive_frames (mini_api to_le_bytes) [to_le_bytes c @ data] k = Some ([data], k\<lparr>mk_rcv := []\<rparr>)"
proof -
  have "drain (mini_api to_le_bytes) (k\<lparr>mk_rcv := [data]\<rparr>) [] = Some (Inr (), [data], k\<lparr>mk_rcv := []\<rparr>)"
    by (simp add: drain.simps mini_api_def)
  with assms show ?thesis by simp
qed

lemma mini_echoes:
  assumes "\<not> mk_dead k" and "mk_snd k = []" and "mk_rcv k = []" and "length data < 65531"
  shows "kcp_echoes (mini_api to_le_bytes) data k"
  unfolding kcp_echoes_def
  using assms mini_receives [of k "mk_conv k" data] mini_receives [of "k\<lparr>mk_snd := []\<rparr>" "mk_conv k" data]
  by (intro mini_sends) (auto intro!: mini_sends simp del: receive_frames.simps)

theorem echo_main_succeeds_witness:
  "\<exists>server. echo_main (mini_api to_le_bytes) (\<lambda>_. 5) (fair_platform server_addr 10) (fair_platform client_addr 10)
       (fair_platform client_addr 10) 1 2 3 7 9 = Some (Returned server) \<and>
     event_log server = [Connected client_addr, PeerRestarted client_addr, Connected client_addr]"
proof -
  have k: "kcp_echoes (mini_api to_le_bytes) data (apply_to (mini_api to_le_bytes) example_config (api_new (mini_api to_le_bytes) c))"
    if "length data < 65531" for data c
    using that by (intro mini_echoes) simp_all
  have "length (str_bytes ''hello v1'') < 65531" "length (str_bytes ''hello v2 (after restart)'') < 65531" "(7 :: u32) \<noteq> 9"
    by (simp_all add: str_bytes_def)
  with echo_main_succeeds [OF _ _ _ accepting_fair accepting_fair accepting_fair _ k k] show ?thesis by fastforce
qed

end
