(* ===== verification/Stream_Delivery.thy ===== *)
theory Stream_Delivery
  imports Echo_Run
begin

text \<open>
  A run of messages over an established link, from the calls of \<^verbatim>\<open>send\<close> on one side to those of
  \<^verbatim>\<open>recv\<close> on the other. KCP holds back what exceeds its send window until acknowledgements come in,
  so the run is as long as the window allows without them: what KCP contributes is a relation between the
  two instances of a conversation that counts the messages there is still room for.
\<close>

section \<open>The contribution of KCP\<close>

text \<open>
  \<open>room n ks kr\<close>: the instances are in step, and the windows and the resend limit leave room for
  \<open>n\<close> more messages of \<open>M\<close> before an acknowledgement is needed. Then a message that is sent and
  flushed when the clock shows a value of \<open>T\<close> goes out at once, its frames make the other instance
  deliver it, and there is room for one message less.
\<close>

definition kcp_window :: "u32 set \<Rightarrow> 'k kcp_api \<Rightarrow> bytes set \<Rightarrow> (nat \<Rightarrow> 'k \<Rightarrow> 'k \<Rightarrow> bool) \<Rightarrow> bool" where
  "kcp_window T api M room \<longleftrightarrow> (\<forall>n ks kr. room (Suc n) ks kr \<longrightarrow> (\<forall>data \<in> M.
     kcp_sends_in T api data ks (\<lambda>fs ks'. \<exists>kr'. receive_frames api fs kr = Some ([data], kr') \<and> room n ks' kr')))"

lemma receive_frames_append:
  "receive_frames api fs k = Some (ms, k') \<Longrightarrow> receive_frames api gs k' = Some (ms', k'') \<Longrightarrow>
     receive_frames api (fs @ gs) k = Some (ms @ ms', k'')"
  by (induction fs arbitrary: k ms) (auto split: prod.splits sum.splits option.splits)

text \<open>The next \<open>n\<close> readings of the clock are in \<open>T\<close>.\<close>

definition clock_in :: "u32 set \<Rightarrow> nat \<Rightarrow> platform \<Rightarrow> bool" where
  "clock_in T n w \<longleftrightarrow> (\<forall>i < n. fst (current_ms (w\<lparr>clock_reads := clock_reads w + i\<rparr>)) \<in> T)"

lemma clock_in_now:
  assumes "clock_in T (Suc n) w"
  shows "fst (current_ms w) \<in> T"
proof -
  have "fst (current_ms (w\<lparr>clock_reads := clock_reads w + 0\<rparr>)) \<in> T" using assms unfolding clock_in_def by blast
  then show ?thesis by simp
qed

lemma clock_in_next:
  assumes "clock_in T (Suc n) w" and "same_oracles w w'" and "clock_reads w' = Suc (clock_reads w)"
  shows "clock_in T n w'"
  unfolding clock_in_def
proof (intro allI impI)
  fix i assume "i < n"
  then have "fst (current_ms (w\<lparr>clock_reads := clock_reads w + Suc i\<rparr>)) \<in> T" using assms(1) unfolding clock_in_def by blast
  moreover have "fst (current_ms (w'\<lparr>clock_reads := clock_reads w' + i\<rparr>)) = fst (current_ms (w\<lparr>clock_reads := clock_reads w + Suc i\<rparr>))"
    using assms(2,3) by (simp add: current_ms_def epoch_ms_def same_oracles_def Let_def)
  ultimately show "fst (current_ms (w'\<lparr>clock_reads := clock_reads w' + i\<rparr>)) \<in> T" by simp
qed

section \<open>The sender\<close>

text \<open>One call of \<^verbatim>\<open>send\<close> after the other; \<open>draw\<close> are the ids that the calls would draw.\<close>

fun send_all :: "'k kcp_api \<Rightarrow> (nat \<Rightarrow> u32) \<Rightarrow> sock_addr \<Rightarrow> bytes list \<Rightarrow> 'k kcp_peer \<Rightarrow> unit result list \<times> 'k kcp_peer" where
  "send_all api draw peer [] p = ([], p)"
| "send_all api draw peer (m # ms) p =
     (case send api (draw 0) peer m p of
        (r, p1) \<Rightarrow> (case send_all api (\<lambda>n. draw (Suc n)) peer ms p1 of (rs, p2) \<Rightarrow> (r # rs, p2)))"

lemma send_all_streams:
  assumes "accepting (plat p)" and "clock_in T (length ms) (plat p)" and "talks p b h conv ks"
    and "room (length ms + n) ks kr" and law: "kcp_window T api M room" and "set ms \<subseteq> M"
  shows "\<exists>p' fs ks' kr'. send_all api draw b ms p = (replicate (length ms) (Inr ()), p') \<and> talks p' b h conv ks' \<and> room n ks' kr' \<and>
    receive_frames api fs kr = Some (ms, kr') \<and> (\<forall>f \<in> set fs. length f < 65535) \<and> same_env p p' \<and> event_log p' = event_log p \<and>
    offered (plat p') = offered (plat p) @ map (\<lambda>f. (b, encode_kcp_data f)) fs"
  using assms(1-4,6)
proof (induction ms arbitrary: draw p ks kr)
  case Nil
  then show ?case by (intro exI [of _ p] exI [of _ "[]"] exI [of _ ks] exI [of _ kr]) (simp add: same_env_def)
next
  case (Cons m ms)
  have "m \<in> M" "room (Suc (length ms + n)) ks kr" using Cons.prems(4,5) by simp_all
  with law have sends: "kcp_sends_in T api m ks (\<lambda>fs ks'. \<exists>kr'. receive_frames api fs kr = Some ([m], kr') \<and> room (length ms + n) ks' kr')"
    unfolding kcp_window_def by blast
  have clk: "clock_in T (Suc (length ms)) (plat p)" using Cons.prems(2) by simp
  from talks_send_in [OF Cons.prems(1) clock_in_now [OF clk] Cons.prems(3) sends] obtain p1 fs ks1 kr1 where
    p1: "send api (draw 0) b m p = (Inr (), p1)" "talks p1 b h conv ks1" "receive_frames api fs kr = Some ([m], kr1)"
    "room (length ms + n) ks1 kr1" "\<forall>f \<in> set fs. length f < 65535" "same_env p p1" "event_log p1 = event_log p"
    "offered (plat p1) = offered (plat p) @ map (\<lambda>f. (b, encode_kcp_data f)) fs"
    "clock_reads (plat p1) = Suc (clock_reads (plat p))" by blast
  have "accepting (plat p1)" "clock_in T (length ms) (plat p1)"
    using p1(6) Cons.prems(1) accepting_same clock_in_next [OF clk _ p1(9)] by (auto simp: same_env_def)
  from Cons.IH [OF this p1(2,4), of "\<lambda>n. draw (Suc n)"] Cons.prems(5) obtain p2 gs ks2 kr2 where
    p2: "send_all api (\<lambda>n. draw (Suc n)) b ms p1 = (replicate (length ms) (Inr ()), p2)" "talks p2 b h conv ks2" "room n ks2 kr2"
    "receive_frames api gs kr1 = Some (ms, kr2)" "\<forall>f \<in> set gs. length f < 65535" "same_env p1 p2" "event_log p2 = event_log p1"
    "offered (plat p2) = offered (plat p1) @ map (\<lambda>f. (b, encode_kcp_data f)) gs" by auto
  have "receive_frames api (fs @ gs) kr = Some (m # ms, kr2)" using receive_frames_append [OF p1(3) p2(4)] by simp
  with p1 p2 same_env_trans [OF p1(6) p2(6)] show ?case
    by (intro exI [of _ p2] exI [of _ "fs @ gs"] exI [of _ ks2] exI [of _ kr2]) auto
qed

section \<open>A stand-in with a window\<close>

text \<open>
  The instance \<open>mini_api\<close> behind a send window: a flush writes as many of the queued messages as the
  window has room for and keeps the others. No acknowledgement comes in, so the window fills up.
\<close>

record win_kcp =
  win_base :: mini_kcp
  win_flight :: nat
  win_wnd :: nat

abbreviation win_set_snd :: "bytes list \<Rightarrow> win_kcp \<Rightarrow> win_kcp" where
  "win_set_snd ms k \<equiv> k\<lparr>win_base := (win_base k)\<lparr>mk_snd := ms\<rparr>\<rparr>"

fun win_flush :: "(bytes \<Rightarrow> bytes) \<Rightarrow> bytes list \<Rightarrow> win_kcp \<Rightarrow> ((kcp_error + unit) \<times> win_kcp) write_prog" where
  "win_flush frame [] k = Done (Inr (), win_set_snd [] k)"
| "win_flush frame (m # ms) k =
     (if win_flight k < win_wnd k
      then WriteFrame (frame m)
        (\<lambda>r. case r of
               Inl e \<Rightarrow> Done (Inl (io_message e), win_set_snd (m # ms) k)
             | Inr _ \<Rightarrow> win_flush frame ms (k\<lparr>win_flight := Suc (win_flight k)\<rparr>))
      else Done (Inr (), win_set_snd (m # ms) k))"

definition win_api :: "(u32 \<Rightarrow> bytes) \<Rightarrow> win_kcp kcp_api" where
  "win_api header =
     (let mini = mini_api header in
      \<lparr>api_new = (\<lambda>conv. \<lparr>win_base = api_new mini conv, win_flight = 0, win_wnd = 32\<rparr>),
       api_set_nodelay = (\<lambda>_ _ _ _ k. k),
       api_set_wndsize = (\<lambda>snd _ k. k\<lparr>win_wnd := unat snd\<rparr>),
       api_set_rx_minrto = (\<lambda>_ k. k),
       api_set_fast_resend = (\<lambda>_ k. k),
       api_set_maximum_resend_times = (\<lambda>_ k. k),
       api_set_interval = (\<lambda>_ k. k),
       api_set_mtu = (\<lambda>m k. case api_set_mtu mini m (win_base k) of (r, b) \<Rightarrow> (r, k\<lparr>win_base := b\<rparr>)),
       api_set_conv = (\<lambda>conv k. k\<lparr>win_base := api_set_conv mini conv (win_base k)\<rparr>),
       api_send = (\<lambda>d k. case api_send mini d (win_base k) of (r, b) \<Rightarrow> (r, k\<lparr>win_base := b\<rparr>)),
       api_input = (\<lambda>d k. case api_input mini d (win_base k) of (r, b) \<Rightarrow> (r, k\<lparr>win_base := b\<rparr>)),
       api_peeksize = (\<lambda>k. api_peeksize mini (win_base k)),
       api_recv = (\<lambda>buf k. case api_recv mini buf (win_base k) of (r, buf', b) \<Rightarrow> (r, buf', k\<lparr>win_base := b\<rparr>)),
       api_update = (\<lambda>_ k. Done (Inr (), k)),
       api_flush = (\<lambda>k. win_flush (\<lambda>m. header (mk_conv (win_base k)) @ m) (mk_snd (win_base k)) k),
       api_is_dead_link = (\<lambda>k. mk_dead (win_base k)),
       api_wait_snd = (\<lambda>k. length (mk_snd (win_base k)) + win_flight k),
       api_snd_wnd = (\<lambda>k. of_nat (win_wnd k)),
       api_rcv_wnd = (\<lambda>_. 128),
       api_rmt_wnd = (\<lambda>_. 128)\<rparr>)"

definition win_room :: "nat \<Rightarrow> win_kcp \<Rightarrow> win_kcp \<Rightarrow> bool" where
  "win_room n ks kr \<longleftrightarrow> \<not> mk_dead (win_base ks) \<and> mk_snd (win_base ks) = [] \<and> mk_rcv (win_base kr) = [] \<and>
     mk_conv (win_base kr) = mk_conv (win_base ks) \<and> win_flight ks + n \<le> win_wnd ks"

lemma win_receives:
  assumes "mk_rcv (win_base k) = []" and "mk_conv (win_base k) = c"
  shows "receive_frames (win_api to_le_bytes) [to_le_bytes c @ data] k = Some ([data], k\<lparr>win_base := (win_base k)\<lparr>mk_rcv := []\<rparr>\<rparr>)"
proof -
  have "drain (win_api to_le_bytes) (k\<lparr>win_base := (win_base k)\<lparr>mk_rcv := [data]\<rparr>\<rparr>) [] =
      Some (Inr (), [data], k\<lparr>win_base := (win_base k)\<lparr>mk_rcv := []\<rparr>\<rparr>)"
    by (simp add: drain.simps win_api_def mini_api_def Let_def)
  moreover have "api_input (win_api to_le_bytes) (to_le_bytes c @ data) k =
      (Inr (length (to_le_bytes c @ data)), k\<lparr>win_base := (win_base k)\<lparr>mk_rcv := [data]\<rparr>\<rparr>)"
    using assms by (simp add: win_api_def Let_def)
  ultimately show ?thesis by simp
qed

lemma win_window: "kcp_window UNIV (win_api to_le_bytes) {m. length m < 65531} win_room"
  unfolding kcp_window_def
proof (intro allI impI ballI)
  fix n ks kr and data :: bytes assume r: "win_room (Suc n) ks kr" and d: "data \<in> {m. length m < 65531}"
  let ?k1 = "win_set_snd [data] ks"
  have send: "api_send (win_api to_le_bytes) data ks = (Inr (length data), ?k1)"
    using r by (simp add: win_api_def win_room_def Let_def)
  have fl: "frames (api_flush (win_api to_le_bytes) ?k1) =
      ([to_le_bytes (mk_conv (win_base ks)) @ data], Inr (), (win_set_snd [] ks)\<lparr>win_flight := Suc (win_flight ks)\<rparr>)"
    using r by (simp add: win_api_def win_room_def Let_def)
  have up: "api_update (win_api to_le_bytes) now k = Done (Inr (), k)" "api_is_dead_link (win_api to_le_bytes) k = mk_dead (win_base k)" for now k
    by (simp_all add: win_api_def Let_def)
  show "kcp_sends_in UNIV (win_api to_le_bytes) data ks
      (\<lambda>fs ks'. \<exists>kr'. receive_frames (win_api to_le_bytes) fs kr = Some ([data], kr') \<and> win_room n ks' kr')"
    using r d send fl up win_receives [of kr "mk_conv (win_base ks)" data]
    by (auto simp: kcp_sends_in_def win_room_def simp del: receive_frames.simps)
qed

lemma win_apply:
  "win_base (apply_to (win_api h) cfg (api_new (win_api h) c)) = apply_to (mini_api h) cfg (api_new (mini_api h) c)"
  "win_flight (apply_to (win_api h) cfg (api_new (win_api h) c)) = 0"
  "win_wnd (apply_to (win_api h) cfg (api_new (win_api h) c)) = unat (snd_wnd cfg)"
  by (simp_all add: apply_to_def win_api_def Let_def split: prod.split)

text \<open>Two peers that have just connected, with the window of the default configuration.\<close>

lemma demo_link:
  obtains A B h g ks kr where "accepting (plat A)" "\<not> shutdown_token B" "talks A (V4 2 9000) h 7 ks" "talks B (V4 1 9000) g 7 kr"
    "win_room 128 ks kr" "pending_data B = []"
proof -
  let ?api = "win_api to_le_bytes" and ?a = "V4 1 9000" and ?b = "V4 2 9000"
  let ?k = "apply_to ?api config_default (api_new ?api 7)"
  obtain pa where pa: "bind_with (Inr (fair_platform ?a 10)) 42 config_default = Inr (pa :: win_kcp kcp_peer)" by (simp add: bind_with_def)
  obtain pb where pb: "bind_with (Inr (fair_platform ?b 10)) 42 config_default = Inr (pb :: win_kcp kcp_peer)" by (simp add: bind_with_def)
  note a = bound_ready [OF pa accepting_fair] and b = bound_ready [OF pb accepting_fair]
  have srv: "ready_server ?b 7 pa" "ready_server ?a 7 pb"
    using a(1,5) b(1,5) by (simp_all add: ready_server_def ready_client_def peer_ok_def)
  obtain A h where A: "receive_task ?api [Inr (encode_control Syn 7, ?b)] pa = Some A" "talks A ?b h 7 ?k" "same_env pa A"
    using srv(1) server_accepts [of pa _ ?b 7 ?api] a(3) unfolding ready_server_def by metis
  obtain B g where B: "receive_task ?api [Inr (encode_control Syn 7, ?a)] pb = Some B" "talks B ?a g 7 ?k" "same_env pb B"
    "pending_data B = pending_data pb"
    using srv(2) server_accepts [of pb _ ?a 7 ?api] b(3) unfolding ready_server_def by metis
  have "accepting (plat A)" "\<not> shutdown_token B" "pending_data B = []"
    using A(3) B(3,4) a(1) b(1) accepting_same by (auto simp: same_env_def ready_client_def)
  moreover have "win_room 128 ?k ?k" by (simp add: win_room_def win_apply config_default_def)
  ultimately show thesis using A(2) B(2) by (intro that)
qed

section \<open>Properties\<close>

text \<open>
  C2. Messages sent on an established link come out of \<^verbatim>\<open>recv\<close> at the other side, as many as KCP's
  window has room for without an acknowledgement: all of them, once each, in the order of the calls, with
  their bytes and the address of the sender, after what was pending there. Every call of
  \<^verbatim>\<open>send\<close> succeeds, without a new handshake; when the datagrams that the socket took have arrived
  the link is established as before on both sides, with that much less room.
\<close>

theorem stream_delivered:
  assumes "accepting (plat A)" and "\<not> shutdown_token B" and "talks A b h conv ks" and "talks B a g conv kr"
    and "kcp_window T api M room" and "room (length ms + n) ks kr" and "clock_in T (length ms) (plat A)" and "set ms \<subseteq> M"
  shows "\<exists>A' B' ks' kr'. send_all api draw b ms A = (replicate (length ms) (Inr ()), A') \<and>
    receive_task api (arriving a b (plat A) (plat A')) B = Some B' \<and>
    fst (recv_times (length (pending_data B) + length ms) B') =
      map (\<lambda>m. Ready (Inr m)) (pending_data B @ map (\<lambda>m. \<lparr>dm_peer = a, dm_data = m\<rparr>) ms) \<and>
    talks A' b h conv ks' \<and> talks B' a g conv kr' \<and> room n ks' kr' \<and>
    event_log A' = event_log A \<and> event_log B' = event_log B \<and> control_sent (plat A') = control_sent (plat A)"
proof -
  obtain A' fs ks' kr' where A': "send_all api draw b ms A = (replicate (length ms) (Inr ()), A')" "talks A' b h conv ks'" "room n ks' kr'"
    "receive_frames api fs kr = Some (ms, kr')" "\<forall>f \<in> set fs. length f < 65535" "same_env A A'" "event_log A' = event_log A"
    "offered (plat A') = offered (plat A) @ map (\<lambda>f. (b, encode_kcp_data f)) fs"
    using send_all_streams [OF assms(1,7,3,6,5,8)] by blast
  have off: "offered (plat A') = offered (plat A) @ map (\<lambda>m. (b, m)) (map encode_kcp_data fs)" using A'(8) by (simp add: comp_def)
  obtain B' where B': "receive_task api (map (\<lambda>f. Inr (encode_kcp_data f, a)) fs) B = Some B'" "took B g kr' B'"
    "pending_data B' = pending_data B @ map (\<lambda>m. \<lparr>dm_peer = a, dm_data = m\<rparr>) ms"
    using receive_data_frames [of B a g fs api ms kr'] assms(2,4) A'(4,5) by (auto simp: talks_def)
  have "receive_task api (arriving a b (plat A) (plat A')) B = Some B'"
    using B'(1) arriving_exact [OF assms(1) same_env_oracles [OF A'(6)] off, of a] by (simp add: comp_def)
  moreover have "\<not> shutdown_token B'" "event_log B' = event_log B" using B'(2) assms(2) by (simp_all add: took_def same_env_def)
  then have "fst (recv_times (length (pending_data B) + length ms) B') =
      map (\<lambda>m. Ready (Inr m)) (pending_data B @ map (\<lambda>m. \<lparr>dm_peer = a, dm_data = m\<rparr>) ms)"
    using recv_times_eq [of "length (pending_data B) + length ms" B'] B'(3) by simp
  moreover have "control_sent (plat A') = control_sent (plat A)"
    using off by (simp add: control_sent_def filter_map comp_def)
  ultimately show ?thesis
    using A'(1-3,7) talks_took [OF assms(4) B'(2)] \<open>event_log B' = event_log B\<close> by blast
qed

theorem stream_delivered_witness:
  "\<exists>A B A' B'. send_all (win_api to_le_bytes) (\<lambda>_. 5) (V4 2 9000) [[1], [2, 3], [4]] A = ([Inr (), Inr (), Inr ()], A') \<and>
     receive_task (win_api to_le_bytes) (arriving (V4 1 9000) (V4 2 9000) (plat A) (plat A')) B = Some B' \<and>
     fst (recv_times 3 B') = [Ready (Inr \<lparr>dm_peer = V4 1 9000, dm_data = [1]\<rparr>),
       Ready (Inr \<lparr>dm_peer = V4 1 9000, dm_data = [2, 3]\<rparr>), Ready (Inr \<lparr>dm_peer = V4 1 9000, dm_data = [4]\<rparr>)]"
proof -
  obtain A B h g ks kr where d: "accepting (plat A)" "\<not> shutdown_token B" "talks A (V4 2 9000) h 7 ks" "talks B (V4 1 9000) g 7 kr"
    "win_room 128 ks kr" "pending_data B = []" by (rule demo_link)
  let ?ms = "[[1], [2, 3], [4]] :: bytes list"
  have "win_room (length ?ms + 125) ks kr" "clock_in UNIV (length ?ms) (plat A)" "set ?ms \<subseteq> {m. length m < 65531}"
    using d(5) by (simp_all add: clock_in_def)
  from stream_delivered [OF d(1-4) win_window this, of "\<lambda>_. 5"] d(6) show ?thesis
    by (simp add: numeral_3_eq_3 del: send_all.simps receive_task.simps recv_times.simps) blast
qed

end
