(* ===== verification/Duplex_Run.thy ===== *)
theory Duplex_Run
  imports Echo_Run
begin

text \<open>
  The duplex example as a whole, \<^verbatim>\<open>src/examples/duplex.rs\<close>: two peers call each other at the same
  time, their SYNs cross, and the tie-break leaves both on one conversation with both first messages
  delivered. Every datagram arrives, in order; what KCP contributes is the hypothesis
  \<open>kcp_crosses\<close>.
\<close>

section \<open>The contribution of KCP\<close>

text \<open>
  Two fresh instances with a message queued each, one of which is given the conversation id of the
  other before its queue is flushed: the frames of either make the other deliver its message.
\<close>

definition kcp_crosses :: "'k kcp_api \<Rightarrow> bytes \<Rightarrow> bytes \<Rightarrow> u32 \<Rightarrow> 'k \<Rightarrow> 'k \<Rightarrow> bool" where
  "kcp_crosses api dl dw conv kl kw \<longleftrightarrow> \<not> api_is_dead_link api kl \<and> \<not> api_is_dead_link api kw \<and>
     (\<exists>n m kl1 kw1. api_send api dl kl = (Inr n, kl1) \<and> api_send api dw kw = (Inr m, kw1) \<and>
        (\<forall>fl kl2 fw kw2. flushed api (api_set_conv api conv kl1) fl kl2 \<longrightarrow> flushed api kw1 fw kw2 \<longrightarrow>
           (\<forall>f \<in> set (fl @ fw). length f < 65535) \<and>
           (\<exists>kw'. receive_frames api fl kw2 = Some ([dl], kw')) \<and> (\<exists>kl'. receive_frames api fw kl2 = Some ([dw], kl'))))"

section \<open>The program\<close>

text \<open>\<^verbatim>\<open>std::str::from_utf8\<close> accepts exactly the well-formed byte sequences of the Unicode standard.\<close>

definition in_range :: "u8 \<Rightarrow> u8 \<Rightarrow> u8 \<Rightarrow> bool" where
  "in_range lo hi b \<longleftrightarrow> lo \<le> b \<and> b \<le> hi"

abbreviation continuation :: "u8 \<Rightarrow> bool" where
  "continuation \<equiv> in_range 0x80 0xBF"

text \<open>The bytes that may follow a lead byte, one range per byte.\<close>

definition utf8_tail :: "u8 \<Rightarrow> (u8 \<times> u8) list option" where
  "utf8_tail b =
     (if b \<le> 0x7F then Some []
      else if in_range 0xC2 0xDF b then Some [(0x80, 0xBF)]
      else if b = 0xE0 then Some [(0xA0, 0xBF), (0x80, 0xBF)]
      else if b = 0xED then Some [(0x80, 0x9F), (0x80, 0xBF)]
      else if in_range 0xE1 0xEF b then Some [(0x80, 0xBF), (0x80, 0xBF)]
      else if b = 0xF0 then Some [(0x90, 0xBF), (0x80, 0xBF), (0x80, 0xBF)]
      else if b = 0xF4 then Some [(0x80, 0x8F), (0x80, 0xBF), (0x80, 0xBF)]
      else if in_range 0xF1 0xF3 b then Some [(0x80, 0xBF), (0x80, 0xBF), (0x80, 0xBF)]
      else None)"

fun utf8_rest :: "(u8 \<times> u8) list \<Rightarrow> bytes \<Rightarrow> bool" where
  "utf8_rest [] [] = True"
| "utf8_rest [] (b # bs) = (case utf8_tail b of None \<Rightarrow> False | Some rs \<Rightarrow> utf8_rest rs bs)"
| "utf8_rest (r # rs) [] = False"
| "utf8_rest ((lo, hi) # rs) (b # bs) = (in_range lo hi b \<and> utf8_rest rs bs)"

definition from_utf8_ok :: "bytes \<Rightarrow> bool" where
  "from_utf8_ok bs = utf8_rest [] bs"

text \<open>
  The end of a task: what \<^verbatim>\<open>recv\<close> gave within five seconds, nothing when the time is up. The
  message is printed, which needs it to be text; otherwise the task says that it got none.
\<close>

definition duplex_finish :: "data_message result option \<Rightarrow> data_message option outcome" where
  "duplex_finish received =
     (case received of
        Some (Inr msg) \<Rightarrow>
          if from_utf8_ok (dm_data msg) then Returned (Some msg) else Panicked ''called Result::unwrap() on an Err value''
      | _ \<Rightarrow> Returned None)"

text \<open>
  While both tasks wait: the datagrams of either arrive at the other, and then those that this made
  them send. \<open>wa\<close> and \<open>wb\<close> are the platforms of the two when they were bound.
\<close>

definition crossing ::
  "'k kcp_api \<Rightarrow> sock_addr \<Rightarrow> sock_addr \<Rightarrow> platform \<Rightarrow> platform \<Rightarrow> 'k kcp_peer \<Rightarrow> 'k kcp_peer \<Rightarrow>
     ('k kcp_peer \<times> 'k kcp_peer) option" where
  "crossing api a b wa wb A B =
     (case receive_task api (arriving b a wb (plat B)) A of
        None \<Rightarrow> None
      | Some A1 \<Rightarrow>
     (case receive_task api (arriving a b wa (plat A)) B of
        None \<Rightarrow> None
      | Some B1 \<Rightarrow>
     (case receive_task api (arriving b a (plat B) (plat B1)) A1 of
        None \<Rightarrow> None
      | Some A2 \<Rightarrow>
     (case receive_task api (arriving a b (plat A) (plat A1)) B1 of
        None \<Rightarrow> None
      | Some B2 \<Rightarrow> Some (A2, B2)))))"

text \<open>\<^verbatim>\<open>main\<close>, with what the two tasks printed and the two peers as they are left.\<close>

definition duplex_main ::
  "'k kcp_api \<Rightarrow> platform \<Rightarrow> platform \<Rightarrow> u64 \<Rightarrow> u64 \<Rightarrow> u32 \<Rightarrow> u32 \<Rightarrow>
     ((data_message option \<times> 'k kcp_peer) \<times> (data_message option \<times> 'k kcp_peer)) outcome option" where
  "duplex_main api wa wb inca incb conva convb =
     (case duplex_peer (Inr wa) inca ''Alice'' of
        Panicked msg \<Rightarrow> Some (Panicked msg)
      | Returned alice \<Rightarrow>
     (case duplex_peer (Inr wb) incb ''Bob'' of
        Panicked msg \<Rightarrow> Some (Panicked msg)
      | Returned bob \<Rightarrow>
     (case duplex_send api conva (local_addr bob) ''Alice'' alice of
        Panicked msg \<Rightarrow> Some (Panicked msg)
      | Returned alice1 \<Rightarrow>
     (case duplex_send api convb (local_addr alice) ''Bob'' bob of
        Panicked msg \<Rightarrow> Some (Panicked msg)
      | Returned bob1 \<Rightarrow>
     (case crossing api (local_addr alice) (local_addr bob) wa wb alice1 bob1 of
        None \<Rightarrow> None
      | Some (alice2, bob2) \<Rightarrow>
     (case (recv alice2, recv bob2) of
        ((ra, alice3), (rb, bob3)) \<Rightarrow>
     (case duplex_finish (polled ra) of
        Panicked msg \<Rightarrow> Some (Panicked msg)
      | Returned ma \<Rightarrow>
     (case duplex_finish (polled rb) of
        Panicked msg \<Rightarrow> Some (Panicked msg)
      | Returned mb \<Rightarrow> Some (Returned ((ma, drop_peer alice3), (mb, drop_peer bob3)))))))))))"

section \<open>The crossing of the SYNs\<close>

text \<open>A SYN with another id that meets an own SYN: the tie-break decides whose id is kept.\<close>

lemma syn_crosses:
  assumes acc: "accepting (plat p)" and run: "\<not> shutdown_token p" and my: "sock_local_addr (plat p) = Inr my"
    and h: "waits p b h conv k" and ne: "conv \<noteq> conv'"
    and c: "c = (if b > my then conv' else conv)" and k1: "k1 = (if b > my then api_set_conv api conv' k else k)"
  shows "\<exists>p' fs k3. receive_task api [Inr (encode_control Syn conv', b)] p = Some p' \<and> flushed api k1 fs k3 \<and>
    talks p' b h c k3 \<and> came_up p h b p' \<and>
    offered (plat p') = offered (plat p) @ map (\<lambda>m. (b, m)) (map encode_kcp_data fs @ [encode_control SynAck c])"
proof -
  let ?s1 = "(sess p h)\<lparr>inner := (inner (sess p h))\<lparr>kcp := k1, conv_id := c\<rparr>\<rparr>"
  have s1: "?s1 = (if b > my then (sess p h)\<lparr>inner := (inner (sess p h))\<lparr>kcp := api_set_conv api conv' k, conv_id := conv'\<rparr>\<rparr> else sess p h)"
    using c k1 h by (auto simp: waits_def)
  obtain s2 w where es: "establish api ?s1 (plat p) = (s2, w)" by fastforce
  let ?p1 = "emit (Connected b) (set_sess h s2 (p\<lparr>plat := w\<rparr>))"
  let ?p' = "?p1\<lparr>plat := snd (send_to (encode_control SynAck c) b w)\<rparr>"
  have "syn_decide api conv' b my p = (\<lparr>syn_action = KeepExisting, send_ack_to = Some b, ack_conv = c\<rparr>, ?p1)"
    using h ne es c unfolding s1 by (auto simp: syn_decide_def waits_def Let_def)
  then have "handle_incoming api (encode_control Syn conv') b p = Some (Inr (), ?p')"
    using my read_conv_to_le_bytes [of conv' "[]"] by (simp add: handle_incoming_def on_syn_def syn_ack_reply_def Let_def)
  then have "receive_task api [Inr (encode_control Syn conv', b)] p = Some ?p'" using run by (simp add: take_control)
  moreover obtain fs k3 where f: "flushed api k1 fs k3" "talks ?p1 b h c k3" "came_up p h b ?p1"
    "offered (plat ?p1) = offered (plat p) @ map (\<lambda>f. (b, encode_kcp_data f)) fs"
    using establish_opens [OF acc h refl es refl] by blast
  have "talks ?p' b h c k3" using f(2) by (simp add: talks_def sess_def)
  moreover have "came_up p h b ?p'"
    using f(3) same_oracles_try_send_to [of w "encode_control SynAck c" b]
    by (auto simp: came_up_def same_env_def sess_def intro: same_oracles_trans)
  ultimately show ?thesis using f(1,4) by (auto simp: comp_def)
qed

text \<open>A SYN_ACK on an established session changes nothing.\<close>

lemma late_syn_ack:
  assumes "talks p b h conv k"
  shows "receive_task api [Inr (encode_control SynAck c, b)] p = Some p"
  using assms read_conv_to_le_bytes [of c "[]"]
  by (simp add: take_control handle_incoming_def on_syn_ack_def talks_def)

lemma receive_task_append:
  "receive_task api (xs @ ys) p =
     (case receive_task api xs p of None \<Rightarrow> None | Some p' \<Rightarrow> receive_task api ys p')"
proof (induction xs arbitrary: p)
  case (Cons x xs)
  have stop: "receive_task api zs q = Some q" if "shutdown_token q" for zs and q :: "'a kcp_peer" using that by (cases zs) simp_all
  show ?case by (auto simp: Cons.IH stop split: sum.split option.split)
qed simp

text \<open>The frames and the SYN_ACK that the crossing left on the wire.\<close>

lemma crossed_delivery:
  assumes t: "talks p b h conv k" and run: "\<not> shutdown_token p" and fs: "\<forall>f \<in> set fs. length f < 65535"
    and rf: "receive_frames api fs k = Some ([data], k')" and pd: "pending_data p = []"
  shows "\<exists>p'. receive_task api (map (\<lambda>m. Inr (m, b)) (map encode_kcp_data fs @ [encode_control SynAck c])) p = Some p' \<and>
    \<not> shutdown_token p' \<and> event_log p' = event_log p \<and> view p' (canonicalize b) = Up conv \<and>
    recv p' = (Ready (Inr \<lparr>dm_peer = b, dm_data = data\<rparr>), p'\<lparr>pending_data := []\<rparr>)"
proof -
  obtain p' where p': "receive_task api (map (\<lambda>f. Inr (encode_kcp_data f, b)) fs) p = Some p'" "took p h k' p'"
    "pending_data p' = [\<lparr>dm_peer = b, dm_data = data\<rparr>]"
    using receive_data_frames [of p b h fs api "[data]" k'] t run fs rf pd by (auto simp: talks_def)
  note t' = talks_took [OF t p'(2)]
  have "receive_task api (map (\<lambda>m. Inr (m, b)) (map encode_kcp_data fs @ [encode_control SynAck c])) p = Some p'"
    using p'(1) late_syn_ack [OF t', of api c] by (simp add: receive_task_append comp_def del: receive_task.simps)
  with p'(2,3) run talks_view [OF t'] show ?thesis by (auto simp: took_def same_env_def recv_eq)
qed

text \<open>One side of the crossing: it sends, and then the SYN of the other arrives.\<close>

lemma side_crosses:
  assumes p: "ready_client p" "sock_local_addr (plat p) = Inr me" and ne: "conv \<noteq> conv'"
    and k: "\<not> api_is_dead_link api (apply_to api (config p) (api_new api conv))"
      "api_send api data (apply_to api (config p) (api_new api conv)) = (Inr n, k)"
    and c: "c = (if peer > me then conv' else conv)" and k1: "k1 = (if peer > me then api_set_conv api conv' k else k)"
  shows "\<exists>p1 p2 h fs k2. send api conv peer data p = (Inr (), p1) \<and>
    arriving me peer (plat p) (plat p1) = [Inr (encode_control Syn conv, me)] \<and>
    receive_task api [Inr (encode_control Syn conv', peer)] p1 = Some p2 \<and> flushed api k1 fs k2 \<and> talks p2 peer h c k2 \<and>
    \<not> shutdown_token p2 \<and> pending_data p2 = [] \<and> event_log p2 = event_log p @ [Connected peer] \<and>
    arriving me peer (plat p1) (plat p2) = map (\<lambda>m. Inr (m, me)) (map encode_kcp_data fs @ [encode_control SynAck c])"
proof -
  note p0 = p(1) [unfolded ready_client_def]
  have none: "hm_get (sessions p) (canonicalize peer) = None" using p0 by (simp add: hm_get_def)
  obtain p1 where p1: "send api conv peer data p = (Inr (), p1)" "waits p1 peer (length (arena p)) conv k" "same_env p p1"
    "pending_data p1 = []" "event_log p1 = event_log p" "offered (plat p1) = offered (plat p) @ [(peer, encode_control Syn conv)]"
    using client_opens [OF _ none k] p0 by auto
  have e: "accepting (plat p1)" "\<not> shutdown_token p1" "sock_local_addr (plat p1) = Inr me"
    using p1(3) p0 p(2) by (simp_all add: same_env_def same_oracles_def accepting_def)
  obtain p2 fs k2 where p2: "receive_task api [Inr (encode_control Syn conv', peer)] p1 = Some p2" "flushed api k1 fs k2"
    "talks p2 peer (length (arena p)) c k2" "came_up p1 (length (arena p)) peer p2"
    "offered (plat p2) = offered (plat p1) @ map (\<lambda>m. (peer, m)) (map encode_kcp_data fs @ [encode_control SynAck c])"
    using syn_crosses [OF e p1(2) ne c k1] by blast
  have "arriving me peer (plat p) (plat p1) = [Inr (encode_control Syn conv, me)]" 
    using arriving_accepting [OF _ same_env_oracles [OF p1(3)] p1(6)] p0 by simp
  moreover have "\<not> shutdown_token p2" "pending_data p2 = []" "event_log p2 = event_log p @ [Connected peer]"
    using p2(4) p1(4,5) e(2) by (simp_all add: came_up_def same_env_def)
  moreover have "same_oracles (plat p1) (plat p2)" using p2(4) by (simp add: came_up_def same_env_oracles)
  note arriving_exact [OF e(1) this p2(5), of me]
  ultimately show ?thesis using p1(1) p2(1-3) by blast
qed

lemma duplex_round:
  assumes A: "ready_client A" "sock_local_addr (plat A) = Inr a" and B: "ready_client B" "sock_local_addr (plat B) = Inr b"
    and lt: "a < b" and ne: "conva \<noteq> convb"
    and k: "kcp_crosses api da db convb (apply_to api (config A) (api_new api conva)) (apply_to api (config B) (api_new api convb))"
  shows "\<exists>A1 B1 A3 B3. send api conva b da A = (Inr (), A1) \<and> send api convb a db B = (Inr (), B1) \<and>
    crossing api a b (plat A) (plat B) A1 B1 = Some (A3, B3) \<and>
    recv A3 = (Ready (Inr \<lparr>dm_peer = b, dm_data = db\<rparr>), A3\<lparr>pending_data := []\<rparr>) \<and>
    recv B3 = (Ready (Inr \<lparr>dm_peer = a, dm_data = da\<rparr>), B3\<lparr>pending_data := []\<rparr>) \<and>
    view A3 (canonicalize b) = Up convb \<and> view B3 (canonicalize a) = Up convb \<and>
    event_log A3 = event_log A @ [Connected b] \<and> event_log B3 = event_log B @ [Connected a]"
proof -
  let ?kl = "apply_to api (config A) (api_new api conva)" and ?kw = "apply_to api (config B) (api_new api convb)"
  obtain n m kl1 kw1 where dead: "\<not> api_is_dead_link api ?kl" "\<not> api_is_dead_link api ?kw"
    and snd: "api_send api da ?kl = (Inr n, kl1)" "api_send api db ?kw = (Inr m, kw1)"
    and x: "\<And>fl kl2 fw kw2. flushed api (api_set_conv api convb kl1) fl kl2 \<Longrightarrow> flushed api kw1 fw kw2 \<Longrightarrow>
           (\<forall>f \<in> set (fl @ fw). length f < 65535) \<and>
           (\<exists>kw'. receive_frames api fl kw2 = Some ([da], kw')) \<and> (\<exists>kl'. receive_frames api fw kl2 = Some ([db], kl'))"
    using k unfolding kcp_crosses_def by blast
  have tie: "convb = (if b > a then convb else conva)" "api_set_conv api convb kl1 = (if b > a then api_set_conv api convb kl1 else kl1)"
    "convb = (if a > b then conva else convb)" "kw1 = (if a > b then api_set_conv api conva kw1 else kw1)" using lt by auto
  obtain A1 A2 h fl kl2 where A2: "send api conva b da A = (Inr (), A1)" "arriving a b (plat A) (plat A1) = [Inr (encode_control Syn conva, a)]"
    "receive_task api [Inr (encode_control Syn convb, b)] A1 = Some A2" "flushed api (api_set_conv api convb kl1) fl kl2"
    "talks A2 b h convb kl2" "\<not> shutdown_token A2" "pending_data A2 = []" "event_log A2 = event_log A @ [Connected b]"
    "arriving a b (plat A1) (plat A2) = map (\<lambda>m. Inr (m, a)) (map encode_kcp_data fl @ [encode_control SynAck convb])"
    using side_crosses [OF A ne dead(1) snd(1) tie(1,2)] by blast
  obtain B1 B2 g fw kw2 where B2: "send api convb a db B = (Inr (), B1)" "arriving b a (plat B) (plat B1) = [Inr (encode_control Syn convb, b)]"
    "receive_task api [Inr (encode_control Syn conva, a)] B1 = Some B2" "flushed api kw1 fw kw2"
    "talks B2 a g convb kw2" "\<not> shutdown_token B2" "pending_data B2 = []" "event_log B2 = event_log B @ [Connected a]"
    "arriving b a (plat B1) (plat B2) = map (\<lambda>m. Inr (m, b)) (map encode_kcp_data fw @ [encode_control SynAck convb])"
    using side_crosses [OF B ne [symmetric] dead(2) snd(2) tie(3,4)] by blast
  obtain kw' kl' where r: "receive_frames api fl kw2 = Some ([da], kw')" "receive_frames api fw kl2 = Some ([db], kl')"
    "\<forall>f \<in> set fl. length f < 65535" "\<forall>f \<in> set fw. length f < 65535"
    using x [OF A2(4) B2(4)] by auto
  obtain A3 where A3: "receive_task api (map (\<lambda>m. Inr (m, b)) (map encode_kcp_data fw @ [encode_control SynAck convb])) A2 = Some A3"
    "event_log A3 = event_log A @ [Connected b]" "view A3 (canonicalize b) = Up convb"
    "recv A3 = (Ready (Inr \<lparr>dm_peer = b, dm_data = db\<rparr>), A3\<lparr>pending_data := []\<rparr>)"
    using crossed_delivery [OF A2(5,6) r(4,2) A2(7)] A2(8) by metis
  obtain B3 where B3: "receive_task api (map (\<lambda>m. Inr (m, a)) (map encode_kcp_data fl @ [encode_control SynAck convb])) B2 = Some B3"
    "event_log B3 = event_log B @ [Connected a]" "view B3 (canonicalize a) = Up convb"
    "recv B3 = (Ready (Inr \<lparr>dm_peer = a, dm_data = da\<rparr>), B3\<lparr>pending_data := []\<rparr>)"
    using crossed_delivery [OF B2(5,6) r(3,1) B2(7)] B2(8) by metis
  have "crossing api a b (plat A) (plat B) A1 B1 = Some (A3, B3)"
    using A2(2,3,9) B2(2,3,9) A3(1) B3(1) by (simp add: crossing_def del: receive_task.simps)
  with A2(1) B2(1) A3(2-4) B3(2-4) show ?thesis by blast
qed

section \<open>Properties\<close>

text \<open>
  C8. The duplex example succeeds: two peers that call each other at the same time both get the other's
  first message. Both bind and send; the SYNs cross, the side with the smaller address takes over the
  other's conversation id together with the data it has queued, and both flush. No
  \<^verbatim>\<open>expect\<close> or \<^verbatim>\<open>unwrap\<close> of \<^verbatim>\<open>main\<close> panics, no wait for \<^verbatim>\<open>recv\<close>
  times out; both end connected on the id that Bob drew, with one \<^verbatim>\<open>Connected\<close> event each.
\<close>

theorem duplex_main_succeeds:
  assumes "sock_local_addr wa = Inr alice_addr" and "sock_local_addr wb = Inr bob_addr" and "accepting wa" and "accepting wb"
    and "conva \<noteq> convb"
    and "kcp_crosses api (str_bytes ''ping from Alice'') (str_bytes ''ping from Bob'') convb
      (apply_to api example_config (api_new api conva)) (apply_to api example_config (api_new api convb))"
  shows "\<exists>alice bob. duplex_main api wa wb inca incb conva convb =
      Some (Returned ((Some \<lparr>dm_peer = bob_addr, dm_data = str_bytes ''ping from Bob''\<rparr>, alice),
                      (Some \<lparr>dm_peer = alice_addr, dm_data = str_bytes ''ping from Alice''\<rparr>, bob))) \<and>
    view alice (canonicalize bob_addr) = Up convb \<and> view bob (canonicalize alice_addr) = Up convb \<and>
    event_log alice = [Connected bob_addr] \<and> event_log bob = [Connected alice_addr]"
proof -
  obtain A where bA: "bind_with (Inr wa) inca example_config = Inr (A :: 'a kcp_peer)" using assms(1) by (simp add: bind_with_def)
  obtain B where bB: "bind_with (Inr wb) incb example_config = Inr (B :: 'a kcp_peer)" using assms(2) by (simp add: bind_with_def)
  note A = bound_ready [OF bA assms(3)] and B = bound_ready [OF bB assms(4)]
  have la: "local_addr A = alice_addr" "local_addr B = bob_addr" using bA bB assms(1,2) by (auto simp: bind_with_def)
  have lt: "alice_addr < bob_addr" by (simp add: alice_addr_def bob_addr_def localhost_def less_sock_addr_def)
  obtain A1 B1 A3 B3 where r: "send api conva bob_addr (str_bytes ''ping from Alice'') A = (Inr (), A1)"
    "send api convb alice_addr (str_bytes ''ping from Bob'') B = (Inr (), B1)"
    "crossing api alice_addr bob_addr wa wb A1 B1 = Some (A3, B3)"
    "recv A3 = (Ready (Inr \<lparr>dm_peer = bob_addr, dm_data = str_bytes ''ping from Bob''\<rparr>), A3\<lparr>pending_data := []\<rparr>)"
    "recv B3 = (Ready (Inr \<lparr>dm_peer = alice_addr, dm_data = str_bytes ''ping from Alice''\<rparr>), B3\<lparr>pending_data := []\<rparr>)"
    "view A3 (canonicalize bob_addr) = Up convb" "view B3 (canonicalize alice_addr) = Up convb"
    "event_log A3 = [Connected bob_addr]" "event_log B3 = [Connected alice_addr]"
    using duplex_round [OF A(1) _ B(1) _ lt assms(5), unfolded A(2-4) B(2-4), OF assms(1,2,6)] unfolding append_Nil by blast
  have "duplex_peer (Inr wa) inca ''Alice'' = Returned A" "duplex_peer (Inr wb) incb ''Bob'' = Returned B"
    using bA bB by (simp_all add: duplex_peer_def)
  moreover have "duplex_send api conva bob_addr ''Alice'' A = Returned A1" "duplex_send api convb alice_addr ''Bob'' B = Returned B1"
    using r(1,2) by (simp_all add: duplex_send_def)
  moreover have "from_utf8_ok (str_bytes ''ping from Alice'')" "from_utf8_ok (str_bytes ''ping from Bob'')" by code_simp+
  ultimately have "duplex_main api wa wb inca incb conva convb =
      Some (Returned ((Some \<lparr>dm_peer = bob_addr, dm_data = str_bytes ''ping from Bob''\<rparr>, drop_peer (A3\<lparr>pending_data := []\<rparr>)),
                      (Some \<lparr>dm_peer = alice_addr, dm_data = str_bytes ''ping from Alice''\<rparr>, drop_peer (B3\<lparr>pending_data := []\<rparr>))))"
    using r(3-5) la by (simp add: duplex_main_def duplex_finish_def polled_def del: recv.simps)
  with r(6-9) show ?thesis by auto
qed

lemma mini_flushed:
  assumes "flushed (mini_api to_le_bytes) k fs k'" and "mk_snd k = [d]"
  shows "fs = [to_le_bytes (mk_conv k) @ d] \<and> k' = k\<lparr>mk_snd := []\<rparr>"
  using assms by (auto simp: flushed_def)

lemma mini_crosses:
  assumes "\<not> mk_dead kl" "\<not> mk_dead kw" "mk_snd kl = []" "mk_snd kw = []" "mk_rcv kl = []" "mk_rcv kw = []" "mk_conv kw = c"
    and "length dl < 65531" "length dw < 65531"
  shows "kcp_crosses (mini_api to_le_bytes) dl dw c kl kw"
  using assms mini_receives [of "kw\<lparr>mk_snd := []\<rparr>" c dl] mini_receives [of "kl\<lparr>mk_conv := c, mk_snd := []\<rparr>" c dw]
  by (auto simp: kcp_crosses_def dest!: mini_flushed simp del: receive_frames.simps)

theorem duplex_main_succeeds_witness:
  "\<exists>alice bob. duplex_main (mini_api to_le_bytes) (fair_platform alice_addr 10) (fair_platform bob_addr 10) 1 2 7 9 =
      Some (Returned ((Some \<lparr>dm_peer = bob_addr, dm_data = str_bytes ''ping from Bob''\<rparr>, alice),
                      (Some \<lparr>dm_peer = alice_addr, dm_data = str_bytes ''ping from Alice''\<rparr>, bob))) \<and>
    view alice (canonicalize bob_addr) = Up 9"
proof -
  have "length (str_bytes ''ping from Alice'') < 65531" "length (str_bytes ''ping from Bob'') < 65531" "(7 :: u32) \<noteq> 9"
    by (simp_all add: str_bytes_def)
  then show ?thesis
    using duplex_main_succeeds [OF _ _ accepting_fair accepting_fair _ mini_crosses, of alice_addr 10 bob_addr 10 7 9 1 2] by fastforce
qed

end
