(* ===== verification/Gossip_Run.thy ===== *)
theory Gossip_Run
  imports Echo_Run
begin

text \<open>
  The gossip example as a whole, \<^verbatim>\<open>src/examples/p2p_gossip.rs\<close>: one node calls two others over its
  single socket. Every datagram arrives, in order; KCP contributes that the message of a fresh instance
  makes a fresh instance of the same conversation deliver it.
\<close>

section \<open>The program\<close>

definition kcp_calls :: "'k kcp_api \<Rightarrow> bytes \<Rightarrow> 'k \<Rightarrow> bool" where
  "kcp_calls api data k \<longleftrightarrow> kcp_sends api data k (\<lambda>fs kc. \<exists>ks. receive_frames api fs k = Some ([data], ks))"

text \<open>
  What the network does for a node that has been called, while \<^verbatim>\<open>main\<close> sleeps: the datagrams for it
  arrive, its answers reach the caller, and those that this releases arrive in turn. \<open>w\<close> is the
  platform of the caller when it was bound.
\<close>

definition calls ::
  "'k kcp_api \<Rightarrow> sock_addr \<Rightarrow> sock_addr \<Rightarrow> platform \<Rightarrow> 'k kcp_peer \<Rightarrow> 'k kcp_peer \<Rightarrow> ('k kcp_peer \<times> 'k kcp_peer) option" where
  "calls api a b w p q =
     (case receive_task api (arriving a b w (plat p)) q of
        None \<Rightarrow> None
      | Some q1 \<Rightarrow>
     (case receive_task api (arriving b a (plat q) (plat q1)) p of
        None \<Rightarrow> None
      | Some p1 \<Rightarrow>
     (case receive_task api (arriving a b (plat p) (plat p1)) q1 of
        None \<Rightarrow> None
      | Some q2 \<Rightarrow> Some (p1, q2))))"

text \<open>\<^verbatim>\<open>main\<close>, with the messages that the loops of the two nodes have printed and node 0.\<close>

definition gossip_main ::
  "'k kcp_api \<Rightarrow> (nat \<Rightarrow> u32) \<Rightarrow> platform \<Rightarrow> platform \<Rightarrow> platform \<Rightarrow> u64 \<Rightarrow> u64 \<Rightarrow> u64 \<Rightarrow>
     (data_message list \<times> data_message list \<times> 'k kcp_peer) outcome option" where
  "gossip_main api draw w0 w1 w2 inc0 inc1 inc2 =
     (case new_node (Inr w0) inc0 example_config of
        Panicked msg \<Rightarrow> Some (Panicked msg)
      | Returned node0 \<Rightarrow>
     (case new_node (Inr w1) inc1 example_config of
        Panicked msg \<Rightarrow> Some (Panicked msg)
      | Returned node1 \<Rightarrow>
     (case new_node (Inr w2) inc2 example_config of
        Panicked msg \<Rightarrow> Some (Panicked msg)
      | Returned node2 \<Rightarrow>
     (case gossip_node0 api draw node0 of
        Panicked msg \<Rightarrow> Some (Panicked msg)
      | Returned caller \<Rightarrow>
     (case calls api (local_addr node0) (local_addr node1) w0 caller node1 of
        None \<Rightarrow> None
      | Some (caller1, called1) \<Rightarrow>
     (case calls api (local_addr node0) (local_addr node2) w0 caller1 node2 of
        None \<Rightarrow> None
      | Some (caller2, called2) \<Rightarrow>
     (case (accept_loop [] called1, accept_loop [] called2) of
        ((_, got1, _), (_, got2, _)) \<Rightarrow> Some (Returned (got1, got2, drop_peer caller2)))))))))"

section \<open>A call\<close>

text \<open>Whatever the instance \<open>k\<close> writes when it is flushed makes \<open>k'\<close> deliver the message.\<close>

definition delivers :: "'k kcp_api \<Rightarrow> bytes \<Rightarrow> 'k \<Rightarrow> 'k \<Rightarrow> bool" where
  "delivers api data k k' \<longleftrightarrow> (\<forall>fs k3. flushed api k fs k3 \<longrightarrow>
     (\<forall>f \<in> set fs. length f < 65535) \<and> (\<exists>ks. receive_frames api fs k' = Some ([data], ks)))"

lemma kcp_callsD:
  assumes "kcp_calls api data k"
  obtains n k1 where "\<not> api_is_dead_link api k" "api_send api data k = (Inr n, k1)" "delivers api data k1 k"
  by (rule kcp_sendsD [OF assms [unfolded kcp_calls_def]]) (auto simp: delivers_def)

text \<open>A session that waits is not disturbed by another one.\<close>

lemma waits_came_up:
  "waits p b h conv k \<Longrightarrow> came_up p g c p' \<Longrightarrow> g \<noteq> h \<Longrightarrow> waits p' b h conv k"
  by (simp add: waits_def came_up_def)

lemma waits_insert:
  assumes "waits p b h conv k" and "arena p' = arena p @ [s]" and "sessions p' = hm_insert c g (sessions p)" and "c \<noteq> canonicalize b"
  shows "waits p' b h conv k"
  using assms(1-3) assms(4) [symmetric] by (simp add: waits_def sess_def nth_append hm.get_ins)

lemma call_delivers:
  assumes p: "accepting (plat p)" "\<not> shutdown_token p" "waits p b h conv k1"
    and arr: "arriving a b w (plat p) = [Inr (encode_control Syn conv, a)]"
    and q: "ready_server a conv q" "view q (canonicalize a) = NoLink"
    and k: "delivers api data k1 (apply_to api (config q) (api_new api conv))"
  shows "\<exists>p1 q2 fs. calls api a b w p q = Some (p1, q2) \<and> talks p1 b h conv (kcp (inner (sess p1 h))) \<and> came_up p h b p1 \<and>
    offered (plat p1) = offered (plat p) @ map (\<lambda>m. (b, m)) fs \<and>
    accept_loop [] q2 = (Pending, [\<lparr>dm_peer = a, dm_data = data\<rparr>], q2\<lparr>pending_data := [], data_notify := False\<rparr>)"
proof -
  note q' = q(1) [unfolded ready_server_def]
  obtain q1 g where q1: "receive_task api [Inr (encode_control Syn conv, a)] q = Some q1"
    "talks q1 a g conv (apply_to api (config q) (api_new api conv))" "same_env q q1" "pending_data q1 = []"
    "offered (plat q1) = offered (plat q) @ [(a, encode_control SynAck conv)]"
    using q' server_accepts [of q _ a conv api] by metis
  obtain p1 fs k3 where p1: "receive_task api [Inr (encode_control SynAck conv, b)] p = Some p1" "flushed api k1 fs k3"
    "talks p1 b h conv k3" "came_up p h b p1" "offered (plat p1) = offered (plat p) @ map (\<lambda>f. (b, encode_kcp_data f)) fs"
    using client_established [OF p] by blast
  from k p1(2) obtain ks where ks: "\<forall>f \<in> set fs. length f < 65535"
    "receive_frames api fs (apply_to api (config q) (api_new api conv)) = Some ([data], ks)" unfolding delivers_def by blast
  have run: "\<not> shutdown_token q1" using q1(3) q' by (simp add: same_env_def)
  obtain q2 where q2: "receive_task api (map (\<lambda>f. Inr (encode_kcp_data f, a)) fs) q1 = Some q2" "took q1 g ks q2"
    "pending_data q2 = [\<lparr>dm_peer = a, dm_data = data\<rparr>]"
    using receive_data_frames [of q1 a g fs api "[data]" ks] q1(2,4) run ks by (auto simp: talks_def)
  have off: "offered (plat p1) = offered (plat p) @ map (\<lambda>m. (b, m)) (map encode_kcp_data fs)" using p1(5) by (simp add: comp_def)
  have "calls api a b w p q = Some (p1, q2)"
    using arr q1(1) arriving_accepting [OF _ same_env_oracles [OF q1(3)] q1(5), of b a] q' p1(1)
      arriving_exact [OF p(1) _ off, of a] p1(4) q2(1)
    by (simp add: calls_def comp_def came_up_def same_env_oracles del: receive_task.simps)
  moreover have "accept_loop [] q2 = (Pending, [\<lparr>dm_peer = a, dm_data = data\<rparr>], q2\<lparr>pending_data := [], data_notify := False\<rparr>)"
    using q2(2,3) run by (simp add: accept_loop_eq took_def same_env_def)
  moreover have "talks p1 b h conv (kcp (inner (sess p1 h)))" using p1(3) by (simp add: talks_def)
  ultimately show ?thesis using p1(4) off by blast
qed

text \<open>The loop of node 0 over its two neighbours: both SYNs are out, both messages queued.\<close>

lemma gossip_opens:
  assumes p: "ready_client p" and ne: "canonicalize (localhost port1) \<noteq> canonicalize (localhost port2)"
    and msg: "msg1 = str_bytes (''hello from node 0 to node '' @ show_nat (unat port1))"
      "msg2 = str_bytes (''hello from node 0 to node '' @ show_nat (unat port2))"
    and k1: "\<not> api_is_dead_link api (apply_to api (config p) (api_new api (draw 0)))"
      "api_send api msg1 (apply_to api (config p) (api_new api (draw 0))) = (Inr n, k1)"
    and k2: "\<not> api_is_dead_link api (apply_to api (config p) (api_new api (draw 1)))"
      "api_send api msg2 (apply_to api (config p) (api_new api (draw 1))) = (Inr m, k2)"
  shows "\<exists>p'. gossip_send api draw [port1, port2] p = Returned p' \<and> same_env p p' \<and> event_log p' = event_log p \<and>
    waits p' (localhost port1) (length (arena p)) (draw 0) k1 \<and> waits p' (localhost port2) (Suc (length (arena p))) (draw 1) k2 \<and>
    offered (plat p') = offered (plat p) @
      [(localhost port1, encode_control Syn (draw 0)), (localhost port2, encode_control Syn (draw 1))]"
proof -
  note p' = p [unfolded ready_client_def]
  have none: "hm_get (sessions p) (canonicalize b) = None" for b using p' by (simp add: hm_get_def)
  obtain p1 where p1: "send api (draw 0) (localhost port1) msg1 p = (Inr (), p1)"
    "waits p1 (localhost port1) (length (arena p)) (draw 0) k1" "same_env p p1" "arena p1 = arena p @ [sess p1 (length (arena p))]"
    "sessions p1 = hm_insert (canonicalize (localhost port1)) (length (arena p)) (sessions p)"
    "event_log p1 = event_log p" "offered (plat p1) = offered (plat p) @ [(localhost port1, encode_control Syn (draw 0))]"
    using client_opens [OF _ none k1] p' by blast
  have cfg: "config p1 = config p" using p1(3) by (simp add: same_env_def)
  have wf: "wf_peer p" "view p (canonicalize (localhost port1)) = NoLink" using p' view_None [OF none] by (simp_all add: peer_ok_def)
  have ok: "peer_ok p1"
    using moves_send [OF wf(1) p1(1)] wf(2) p1(3) p' by (auto simp: moves_def intro: peer_okI)
  have len: "length (arena p1) = Suc (length (arena p))" using p1(4) by (metis length_append_singleton)
  have "hm_get (sessions p1) (canonicalize (localhost port2)) = None" using p1(5) none [of "localhost port2"] ne by (simp add: hm.get_ins)
  from client_opens [OF ok this, unfolded cfg, OF k2] obtain p2 where
    p2: "send api (draw 1) (localhost port2) msg2 p1 = (Inr (), p2)" "waits p2 (localhost port2) (length (arena p1)) (draw 1) k2"
    "same_env p1 p2" "arena p2 = arena p1 @ [sess p2 (length (arena p1))]"
    "sessions p2 = hm_insert (canonicalize (localhost port2)) (length (arena p1)) (sessions p1)"
    "event_log p2 = event_log p1" "offered (plat p2) = offered (plat p1) @ [(localhost port2, encode_control Syn (draw 1))]" by blast
  have "gossip_send api draw [port1, port2] p = Returned p2" using p1(1) p2(1) msg by (simp add: Let_def)
  moreover have "waits p2 (localhost port1) (length (arena p)) (draw 0) k1" by (rule waits_insert [OF p1(2) p2(4,5) ne [symmetric]])
  ultimately show ?thesis
    using p1(3,6,7) p2(2,3,6,7) len by (auto intro: same_env_trans)
qed

text \<open>Both calls get through; the second finds its session as the loop left it.\<close>

lemma two_calls:
  assumes pe: "accepting (plat p)" "\<not> shutdown_token p" and ne: "canonicalize b1 \<noteq> canonicalize b2" "h1 \<noteq> h2"
    and w0: "accepting w0" "same_oracles w0 (plat p)" and w: "waits p b1 h1 c1 k1" "waits p b2 h2 c2 k2"
    and off: "offered (plat p) = offered w0 @ [(b1, encode_control Syn c1), (b2, encode_control Syn c2)]"
    and q: "ready_server a c1 q1" "view q1 (canonicalize a) = NoLink" "ready_server a c2 q2" "view q2 (canonicalize a) = NoLink"
    and k: "delivers api m1 k1 (apply_to api (config q1) (api_new api c1))" "delivers api m2 k2 (apply_to api (config q2) (api_new api c2))"
  obtains p1 p2 q1' q2' where "calls api a b1 w0 p q1 = Some (p1, q1')" "calls api a b2 w0 p1 q2 = Some (p2, q2')"
    "accept_loop [] q1' = (Pending, [\<lparr>dm_peer = a, dm_data = m1\<rparr>], q1'\<lparr>pending_data := [], data_notify := False\<rparr>)"
    "accept_loop [] q2' = (Pending, [\<lparr>dm_peer = a, dm_data = m2\<rparr>], q2'\<lparr>pending_data := [], data_notify := False\<rparr>)"
    "event_log p2 = event_log p @ [Connected b1, Connected b2]" "view p2 (canonicalize b1) = Up c1" "view p2 (canonicalize b2) = Up c2"
proof -
  have "arriving a b1 w0 (plat p) = [Inr (encode_control Syn c1, a)]" 
    using arriving_accepting [OF w0 off] ne by simp
  from call_delivers [OF pe w(1) this q(1,2) k(1)] obtain p1 q1' fs where
    c1: "calls api a b1 w0 p q1 = Some (p1, q1')" "talks p1 b1 h1 c1 (kcp (inner (sess p1 h1)))" "came_up p h1 b1 p1"
    "offered (plat p1) = offered (plat p) @ map (\<lambda>m. (b1, m)) fs"
    "accept_loop [] q1' = (Pending, [\<lparr>dm_peer = a, dm_data = m1\<rparr>], q1'\<lparr>pending_data := [], data_notify := False\<rparr>)" by blast
  have p1: "accepting (plat p1)" "\<not> shutdown_token p1" "waits p1 b2 h2 c2 k2"
    using c1(3) pe accepting_same waits_came_up [OF w(2) c1(3) ne(2)] by (auto simp: came_up_def same_env_def)
  have "arriving a b2 w0 (plat p1) = [Inr (encode_control Syn c2, a)]"
  proof -
    have "same_oracles w0 (plat p1)" using w0(2) c1(3) by (auto simp: came_up_def same_env_def intro: same_oracles_trans)
    from arriving_accepting [OF w0(1) this, of _ a b2] off c1(4) ne show ?thesis by (simp add: filter_map comp_def)
  qed
  from call_delivers [OF p1 this q(3,4) k(2)] obtain p2 q2' where
    c2: "calls api a b2 w0 p1 q2 = Some (p2, q2')" "talks p2 b2 h2 c2 (kcp (inner (sess p2 h2)))" "came_up p1 h2 b2 p2"
    "accept_loop [] q2' = (Pending, [\<lparr>dm_peer = a, dm_data = m2\<rparr>], q2'\<lparr>pending_data := [], data_notify := False\<rparr>)" by blast
  have t1: "talks p2 b1 h1 c1 (kcp (inner (sess p1 h1)))" using c1(2) c2(3) ne(2) by (simp add: talks_def came_up_def)
  have "event_log p2 = event_log p @ [Connected b1, Connected b2]" using c1(3) c2(3) by (simp add: came_up_def)
  with c1(1,5) c2(1,4) talks_view [OF t1] talks_view [OF c2(2)] show thesis by (intro that)
qed

section \<open>Properties\<close>

text \<open>
  C34. The gossip example succeeds: node 0 calls its two neighbours over one socket, and the loop of
  either prints exactly the message meant for it, from the address of node 0. Neither the binds nor the
  sends of \<^verbatim>\<open>main\<close> panic; node 0 reports both connections and is connected to each neighbour
  on the id it drew for it.
\<close>

theorem gossip_main_succeeds:
  assumes "sock_local_addr w0 = Inr (localhost 9879)" and "sock_local_addr w1 = Inr (localhost 9880)"
    and "sock_local_addr w2 = Inr (localhost 9881)" and "accepting w0" and "accepting w1" and "accepting w2"
    and "kcp_calls api (str_bytes ''hello from node 0 to node 9880'') (apply_to api example_config (api_new api (draw 0)))"
    and "kcp_calls api (str_bytes ''hello from node 0 to node 9881'') (apply_to api example_config (api_new api (draw 1)))"
  shows "\<exists>node0. gossip_main api draw w0 w1 w2 inc0 inc1 inc2 =
      Some (Returned ([\<lparr>dm_peer = localhost 9879, dm_data = str_bytes ''hello from node 0 to node 9880''\<rparr>],
                      [\<lparr>dm_peer = localhost 9879, dm_data = str_bytes ''hello from node 0 to node 9881''\<rparr>], node0)) \<and>
    event_log node0 = [Connected (localhost 9880), Connected (localhost 9881)] \<and>
    view node0 (canonicalize (localhost 9880)) = Up (draw 0) \<and> view node0 (canonicalize (localhost 9881)) = Up (draw 1)"
proof -
  let ?a = "localhost 9879" and ?b1 = "localhost 9880" and ?b2 = "localhost 9881"
  let ?m1 = "str_bytes ''hello from node 0 to node 9880''" and ?m2 = "str_bytes ''hello from node 0 to node 9881''"
  let ?k = "\<lambda>c. apply_to api example_config (api_new api c)"
  obtain n0 where b0: "bind_with (Inr w0) inc0 example_config = Inr (n0 :: 'a kcp_peer)" using assms(1) by (simp add: bind_with_def)
  obtain n1 where b1: "bind_with (Inr w1) inc1 example_config = Inr (n1 :: 'a kcp_peer)" using assms(2) by (simp add: bind_with_def)
  obtain n2 where b2: "bind_with (Inr w2) inc2 example_config = Inr (n2 :: 'a kcp_peer)" using assms(3) by (simp add: bind_with_def)
  note n0 = bound_ready [OF b0 assms(4)] and n1 = bound_ready [OF b1 assms(5)] and n2 = bound_ready [OF b2 assms(6)]
  have la: "local_addr n0 = ?a" "local_addr n1 = ?b1" "local_addr n2 = ?b2" using b0 b1 b2 assms(1-3) by (auto simp: bind_with_def)
  have rs: "ready_server ?a c n1" "ready_server ?a c n2" for c
    using n1(1,5) n2(1,5) by (simp_all add: ready_server_def ready_client_def peer_ok_def)
  have ne: "canonicalize ?b1 \<noteq> canonicalize ?b2" by (simp add: localhost_def)
  obtain k1 i1 where k1: "\<not> api_is_dead_link api (?k (draw 0))" "api_send api ?m1 (?k (draw 0)) = (Inr i1, k1)"
    "delivers api ?m1 k1 (?k (draw 0))" by (rule kcp_callsD [OF assms(7)])
  obtain k2 i2 where k2: "\<not> api_is_dead_link api (?k (draw 1))" "api_send api ?m2 (?k (draw 1)) = (Inr i2, k2)"
    "delivers api ?m2 k2 (?k (draw 1))" by (rule kcp_callsD [OF assms(8)])
  have "show_nat 9880 = ''9880''" "show_nat 9881 = ''9881''" by (simp_all add: show_nat.simps char_of_def bit_simps)
  then have msg: "?m1 = str_bytes (''hello from node 0 to node '' @ show_nat (unat (9880 :: u16)))"
    "?m2 = str_bytes (''hello from node 0 to node '' @ show_nat (unat (9881 :: u16)))" by simp_all
  let ?h1 = "length (arena n0)" and ?h2 = "Suc (length (arena n0))"
  obtain p where p: "gossip_send api draw [9880, 9881] n0 = Returned p" "same_env n0 p" "event_log p = []"
    "waits p ?b1 ?h1 (draw 0) k1" "waits p ?b2 ?h2 (draw 1) k2"
    "offered (plat p) = offered w0 @ [(?b1, encode_control Syn (draw 0)), (?b2, encode_control Syn (draw 1))]"
    using gossip_opens [OF n0(1) ne msg, of api draw, unfolded n0(2-4), OF k1(1,2) k2(1,2)] by blast
  have pe: "accepting (plat p)" "\<not> shutdown_token p"
    using p(2) n0(1) accepting_same by (auto simp: same_env_def ready_client_def)
  have hne: "?h1 \<noteq> ?h2" and w0p: "same_oracles w0 (plat p)" using same_env_oracles [OF p(2)] n0(2) by simp_all
  obtain p1 p2 q1 q2 where r: "calls api ?a ?b1 w0 p n1 = Some (p1, q1)" "calls api ?a ?b2 w0 p1 n2 = Some (p2, q2)"
    "accept_loop [] q1 = (Pending, [\<lparr>dm_peer = ?a, dm_data = ?m1\<rparr>], q1\<lparr>pending_data := [], data_notify := False\<rparr>)"
    "accept_loop [] q2 = (Pending, [\<lparr>dm_peer = ?a, dm_data = ?m2\<rparr>], q2\<lparr>pending_data := [], data_notify := False\<rparr>)"
    "event_log p2 = event_log p @ [Connected ?b1, Connected ?b2]" "view p2 (canonicalize ?b1) = Up (draw 0)" "view p2 (canonicalize ?b2) = Up (draw 1)"
    by (rule two_calls [OF pe ne hne assms(4) w0p p(4-6) rs(1) n1(5) rs(2) n2(5), unfolded n1(3) n2(3), OF k1(3) k2(3)])
  have "gossip_main api draw w0 w1 w2 inc0 inc1 inc2 =
      Some (Returned ([\<lparr>dm_peer = ?a, dm_data = ?m1\<rparr>], [\<lparr>dm_peer = ?a, dm_data = ?m2\<rparr>], drop_peer p2))"
    using b0 b1 b2 la p(1) r(1-4) by (simp add: gossip_main_def new_node_def gossip_node0_def gossip_ports_def)
  with r(5-7) p(3) show ?thesis by auto
qed

theorem gossip_main_succeeds_witness:
  "\<exists>node0. gossip_main (mini_api to_le_bytes) (\<lambda>n. if n = 0 then 7 else 9) (fair_platform (localhost 9879) 10)
       (fair_platform (localhost 9880) 10) (fair_platform (localhost 9881) 10) 1 2 3 =
      Some (Returned ([\<lparr>dm_peer = localhost 9879, dm_data = str_bytes ''hello from node 0 to node 9880''\<rparr>],
                      [\<lparr>dm_peer = localhost 9879, dm_data = str_bytes ''hello from node 0 to node 9881''\<rparr>], node0)) \<and>
    view node0 (canonicalize (localhost 9881)) = Up 9"
proof -
  let ?api = "mini_api to_le_bytes"
  have k: "kcp_calls ?api data (apply_to ?api example_config (api_new ?api c))" if "length data < 65531" for data c
    unfolding kcp_calls_def using that mini_receives [of "apply_to ?api example_config (api_new ?api c)" c data]
    by (intro mini_sends) (simp_all del: receive_frames.simps)
  have "length (str_bytes ''hello from node 0 to node 9880'') < 65531" "length (str_bytes ''hello from node 0 to node 9881'') < 65531"
    by (simp_all add: str_bytes_def)
  with gossip_main_succeeds [OF _ _ _ accepting_fair accepting_fair accepting_fair k k, where draw = "\<lambda>n. if n = 0 then 7 else 9"] show ?thesis by fastforce
qed

end
