(* ===== verification/Recv_Tasks.thy ===== *)
theory Recv_Tasks
  imports Peer_Steps
begin

text \<open>
  Concurrent calls of \<^verbatim>\<open>recv\<close>, \<^verbatim>\<open>src/src/transport.rs\<close>. A \<^verbatim>\<open>KcpPeer\<close> may be
  shared, so several tasks wait for messages at once. A call takes the lock of the queue, and waits on
  the \<^verbatim>\<open>Notify\<close> when the queue is empty; the receive task appends the messages of a packet under
  the same lock and notifies once afterwards. A call may be dropped while it waits. The
  \<^verbatim>\<open>Notify\<close> of tokio is not part of the repository: it is a record of the operations the code
  uses, with what tokio documents of them as a law.
\<close>

section \<open>The notification\<close>

record 'n notify_api =
  nt_new :: 'n
  nt_notify_one :: "'n \<Rightarrow> 'n"
  nt_poll :: "nat \<Rightarrow> 'n \<Rightarrow> bool \<times> 'n"
  nt_drop :: "nat \<Rightarrow> 'n \<Rightarrow> 'n"

text \<open>
  What can be observed: whether a permit is stored, who waits, and who has been notified and has not
  run yet. \<^verbatim>\<open>notify_one\<close> notifies one of those who wait, and stores a permit if nobody does.
  The first poll of a \<^verbatim>\<open>notified()\<close> future takes a stored permit or starts to wait; dropping a
  future that has been notified passes the notification on.
\<close>

type_synonym observed = "bool \<times> nat set \<times> nat set"

fun notifies :: "observed \<Rightarrow> observed \<Rightarrow> bool" where
  "notifies (pm, W, K) (pm', W', K') \<longleftrightarrow>
     (if W = {} then pm' \<and> W' = {} \<and> K' = K
      else pm' = pm \<and> (\<exists>i \<in> W. W' = W - {i} \<and> K' = insert i K))"

fun polls :: "nat \<Rightarrow> observed \<Rightarrow> bool \<times> observed" where
  "polls i (pm, W, K) =
     (if i \<in> K then (True, pm, W, K - {i})
      else if i \<in> W then (False, pm, W, K)
      else if pm then (True, False, W, K)
      else (False, pm, insert i W, K))"

fun drops :: "nat \<Rightarrow> observed \<Rightarrow> observed \<Rightarrow> bool" where
  "drops i (pm, W, K) v' \<longleftrightarrow> (if i \<in> K then notifies (pm, W, K - {i}) v' else v' = (pm, W - {i}, K))"

definition notify_law :: "'n notify_api \<Rightarrow> ('n \<Rightarrow> observed) \<Rightarrow> bool" where
  "notify_law nt obs \<longleftrightarrow> obs (nt_new nt) = (False, {}, {}) \<and>
     (\<forall>n. notifies (obs n) (obs (nt_notify_one nt n))) \<and>
     (\<forall>i n b n'. nt_poll nt i n = (b, n') \<longrightarrow> (b, obs n') = polls i (obs n)) \<and>
     (\<forall>i n. drops i (obs n) (obs (nt_drop nt i n)))"

text \<open>A notification that serves those who wait in their order.\<close>

record fifo =
  fi_permit :: bool
  fi_waiting :: "nat list"
  fi_woken :: "nat list"

definition fifo_notify_one :: "fifo \<Rightarrow> fifo" where
  "fifo_notify_one n =
     (case fi_waiting n of
        [] \<Rightarrow> n\<lparr>fi_permit := True\<rparr>
      | i # is \<Rightarrow> n\<lparr>fi_waiting := removeAll i is, fi_woken := i # fi_woken n\<rparr>)"

definition fifo_api :: "fifo notify_api" where
  "fifo_api =
     \<lparr>nt_new = \<lparr>fi_permit = False, fi_waiting = [], fi_woken = []\<rparr>,
      nt_notify_one = fifo_notify_one,
      nt_poll = (\<lambda>i n.
        if i \<in> set (fi_woken n) then (True, n\<lparr>fi_woken := removeAll i (fi_woken n)\<rparr>)
        else if i \<in> set (fi_waiting n) then (False, n)
        else if fi_permit n then (True, n\<lparr>fi_permit := False\<rparr>)
        else (False, n\<lparr>fi_waiting := fi_waiting n @ [i]\<rparr>)),
      nt_drop = (\<lambda>i n.
        if i \<in> set (fi_woken n) then fifo_notify_one (n\<lparr>fi_woken := removeAll i (fi_woken n)\<rparr>)
        else n\<lparr>fi_waiting := removeAll i (fi_waiting n)\<rparr>)\<rparr>"

definition fifo_observed :: "fifo \<Rightarrow> observed" where
  "fifo_observed n = (fi_permit n, set (fi_waiting n), set (fi_woken n))"

lemma fifo_notifies: "notifies (fifo_observed n) (fifo_observed (fifo_notify_one n))"
  by (cases "fi_waiting n") (auto simp: fifo_observed_def fifo_notify_one_def)

lemma fifo_law: "notify_law fifo_api fifo_observed"
  unfolding notify_law_def
proof (intro conjI allI impI)
  show "fifo_observed (nt_new fifo_api) = (False, {}, {})" by (simp add: fifo_api_def fifo_observed_def)
  show "notifies (fifo_observed n) (fifo_observed (nt_notify_one fifo_api n))" for n
    using fifo_notifies by (simp add: fifo_api_def)
  show "(b, fifo_observed n') = polls i (fifo_observed n)" if "nt_poll fifo_api i n = (b, n')" for i n b n'
    using that by (auto simp: fifo_api_def fifo_observed_def split: if_splits)
  show "drops i (fifo_observed n) (fifo_observed (nt_drop fifo_api i n))" for i n
    using fifo_notifies [of "n\<lparr>fi_woken := removeAll i (fi_woken n)\<rparr>"]
    by (simp add: fifo_api_def fifo_observed_def)
qed

section \<open>A call and the receive task\<close>

text \<open>
  The fields of the peer that matter here, with the receive task between the append and the
  notification (\<open>ib_due\<close>), and the history: all messages appended, and the messages taken with the
  number of the call that took them.
\<close>

record 'n inbox =
  ib_pending :: "data_message list"
  ib_notify :: 'n
  ib_shutdown :: bool
  ib_due :: bool
  ib_pushed :: "data_message list"
  ib_taken :: "(nat \<times> data_message) list"

datatype recv_pc = RvIdle | RvCheck | RvPop | RvSelect | RvReturned "data_message result"

text \<open>
  The steps of call \<open>i\<close>. \<^verbatim>\<open>select!\<close> polls its two branches in an order of its own:
  \<open>cancelled_first\<close> says which. A completed \<^verbatim>\<open>select!\<close> drops the other future.
\<close>

fun recv_atomic :: "'n notify_api \<Rightarrow> nat \<Rightarrow> bool \<Rightarrow> recv_pc \<Rightarrow> 'n inbox \<Rightarrow> recv_pc \<times> 'n inbox" where
  "recv_atomic nt i cancelled_first RvCheck b =
     (if ib_shutdown b then (RvReturned (Inl ShuttingDown), b) else (RvPop, b))"
| "recv_atomic nt i cancelled_first RvPop b =
     (case ib_pending b of
        msg # rest \<Rightarrow> (RvReturned (Inr msg), b\<lparr>ib_pending := rest, ib_taken := ib_taken b @ [(i, msg)]\<rparr>)
      | [] \<Rightarrow> (RvSelect, b))"
| "recv_atomic nt i cancelled_first RvSelect b =
     (if cancelled_first \<and> ib_shutdown b
      then (RvReturned (Inl ShuttingDown), b\<lparr>ib_notify := nt_drop nt i (ib_notify b)\<rparr>)
      else case nt_poll nt i (ib_notify b) of
             (True, n) \<Rightarrow> (RvCheck, b\<lparr>ib_notify := n\<rparr>)
           | (False, n) \<Rightarrow>
               if ib_shutdown b then (RvReturned (Inl ShuttingDown), b\<lparr>ib_notify := nt_drop nt i n\<rparr>)
               else (RvSelect, b\<lparr>ib_notify := n\<rparr>))"
| "recv_atomic nt i cancelled_first RvIdle b = (RvIdle, b)"
| "recv_atomic nt i cancelled_first (RvReturned r) b = (RvReturned r, b)"

text \<open>The end of the data branch of \<^verbatim>\<open>handle_incoming\<close>: append, then notify.\<close>

definition inbox_push :: "data_message list \<Rightarrow> 'n inbox \<Rightarrow> 'n inbox" where
  "inbox_push msgs b = b\<lparr>ib_pending := ib_pending b @ msgs, ib_due := True, ib_pushed := ib_pushed b @ msgs\<rparr>"

definition inbox_notify :: "'n notify_api \<Rightarrow> 'n inbox \<Rightarrow> 'n inbox" where
  "inbox_notify nt b = b\<lparr>ib_notify := nt_notify_one nt (ib_notify b), ib_due := False\<rparr>"

fun at_rest :: "recv_pc \<Rightarrow> bool" where
  "at_rest RvIdle = True"
| "at_rest (RvReturned _) = True"
| "at_rest _ = False"

type_synonym 'n receivers = "(nat \<Rightarrow> recv_pc) \<times> 'n inbox"

inductive inbox_step :: "'n notify_api \<Rightarrow> nat set \<Rightarrow> 'n receivers \<Rightarrow> 'n receivers \<Rightarrow> bool" for nt I where
  ib_call: "i \<in> I \<Longrightarrow> recv_atomic nt i cf (pc i) b = (c, b') \<Longrightarrow> inbox_step nt I (pc, b) (pc(i := c), b')"
| ib_start: "i \<in> I \<Longrightarrow> at_rest (pc i) \<Longrightarrow> inbox_step nt I (pc, b) (pc(i := RvCheck), b)"
| ib_drop: "i \<in> I \<Longrightarrow> pc i = RvSelect \<Longrightarrow>
     inbox_step nt I (pc, b) (pc(i := RvIdle), b\<lparr>ib_notify := nt_drop nt i (ib_notify b)\<rparr>)"
| ib_push: "\<not> ib_due b \<Longrightarrow> msgs \<noteq> [] \<Longrightarrow> inbox_step nt I (pc, b) (pc, inbox_push msgs b)"
| ib_wake: "ib_due b \<Longrightarrow> inbox_step nt I (pc, b) (pc, inbox_notify nt b)"
| ib_stop: "inbox_step nt I (pc, b) (pc, b\<lparr>ib_shutdown := True\<rparr>)"

definition inbox_init :: "'n notify_api \<Rightarrow> 'n receivers \<Rightarrow> bool" where
  "inbox_init nt s \<longleftrightarrow> s = (\<lambda>_. RvIdle, \<lparr>ib_pending = [], ib_notify = nt_new nt, ib_shutdown = False,
     ib_due = False, ib_pushed = [], ib_taken = []\<rparr>)"

fun recv_run :: "'n notify_api \<Rightarrow> nat \<Rightarrow> bool list \<Rightarrow> recv_pc \<times> 'n inbox \<Rightarrow> recv_pc \<times> 'n inbox" where
  "recv_run nt i [] s = s"
| "recv_run nt i (cf # cfs) (c, b) = recv_run nt i cfs (recv_atomic nt i cf c b)"

lemma recv_run_returned [simp]: "recv_run nt i cfs (RvReturned r, b) = (RvReturned r, b)"
  by (induction cfs) simp_all

section \<open>The law in use\<close>

lemma law_poll: "notify_law nt obs \<Longrightarrow> nt_poll nt i n = (b, n') \<Longrightarrow> (b, obs n') = polls i (obs n)"
  by (simp add: notify_law_def)

lemma law_notify: "notify_law nt obs \<Longrightarrow> notifies (obs n) (obs (nt_notify_one nt n))"
  by (simp add: notify_law_def)

lemma law_drop: "notify_law nt obs \<Longrightarrow> drops i (obs n) (obs (nt_drop nt i n))"
  by (simp add: notify_law_def)

lemma poll_woken:
  assumes "notify_law nt obs" and "obs n = (pm, W, K)" and "i \<in> K"
  obtains n' where "nt_poll nt i n = (True, n')" "obs n' = (pm, W, K - {i})"
  using law_poll [OF assms(1), of i n] assms(2,3) by (cases "nt_poll nt i n") auto

lemma poll_waits:
  assumes "notify_law nt obs" and "obs n = (pm, W, K)" and "i \<in> W" and "i \<notin> K"
  obtains n' where "nt_poll nt i n = (False, n')" "obs n' = (pm, W, K)"
  using law_poll [OF assms(1), of i n] assms(2-4) by (cases "nt_poll nt i n") auto

lemma poll_permit:
  assumes "notify_law nt obs" and "obs n = (True, W, K)" and "i \<notin> W" and "i \<notin> K"
  obtains n' where "nt_poll nt i n = (True, n')" "obs n' = (False, W, K)"
  using law_poll [OF assms(1), of i n] assms(2-4) by (cases "nt_poll nt i n") auto

lemma poll_starts:
  assumes "notify_law nt obs" and "obs n = (False, W, K)" and "i \<notin> W" and "i \<notin> K"
  obtains n' where "nt_poll nt i n = (False, n')" "obs n' = (False, insert i W, K)"
  using law_poll [OF assms(1), of i n] assms(2-4) by (cases "nt_poll nt i n") auto

lemma drop_woken:
  "notify_law nt obs \<Longrightarrow> obs n = (pm, W, K) \<Longrightarrow> i \<in> K \<Longrightarrow> notifies (pm, W, K - {i}) (obs (nt_drop nt i n))"
  using law_drop [of nt obs i n] by simp

lemma drop_other:
  "notify_law nt obs \<Longrightarrow> obs n = (pm, W, K) \<Longrightarrow> i \<notin> K \<Longrightarrow> obs (nt_drop nt i n) = (pm, W - {i}, K)"
  using law_drop [of nt obs i n] by simp

text \<open>A call that waits and is not notified stays as it is, however often it is polled.\<close>

lemma recv_run_parked:
  assumes "notify_law nt obs" and "obs (ib_notify b) = (pm, W, K)" and "i \<in> W" "i \<notin> K" and "\<not> ib_shutdown b"
  shows "\<exists>n. recv_run nt i cfs (RvSelect, b) = (RvSelect, b\<lparr>ib_notify := n\<rparr>) \<and> obs n = (pm, W, K)"
  using assms(2,5)
proof (induction cfs arbitrary: b)
  case Nil
  then show ?case by (intro exI [of _ "ib_notify b"]) simp
next
  case (Cons cf cfs)
  obtain n where n: "nt_poll nt i (ib_notify b) = (False, n)" "obs n = (pm, W, K)"
    by (rule poll_waits [OF assms(1) Cons.prems(1) assms(3,4)])
  with Cons.IH [of "b\<lparr>ib_notify := n\<rparr>"] Cons.prems(2) show ?case by simp
qed

text \<open>Undisturbed, the steps of a call are the atomic \<^verbatim>\<open>recv\<close>; a stored permit is the flag of the peer.\<close>

lemma recv_run_eq:
  assumes law: "notify_law nt obs" and o: "obs (ib_notify b) = (data_notify p, W, K)" and i: "i \<notin> W" "i \<notin> K"
    and b: "ib_pending b = pending_data p" "ib_shutdown b = shutdown_token p"
    and run: "recv_run nt i (replicate 6 cf) (RvCheck, b) = (c, b')" and r: "recv p = (m, p')"
  shows "c = (case m of Ready r \<Rightarrow> RvReturned r | Pending \<Rightarrow> RvSelect) \<and> ib_pending b' = pending_data p' \<and>
    fst (obs (ib_notify b')) = data_notify p'"
proof -
  consider "shutdown_token p \<or> pending_data p \<noteq> []"
    | "\<not> shutdown_token p" "pending_data p = []" "\<not> data_notify p"
    | "\<not> shutdown_token p" "pending_data p = []" "data_notify p" by blast
  then show ?thesis
  proof cases
    case 1
    with o b run r show ?thesis by (cases "pending_data p") (auto simp: numeral_eq_Suc recv_eq split: if_splits)
  next
    case 2
    obtain n1 where p1: "nt_poll nt i (ib_notify b) = (False, n1)" "obs n1 = (False, insert i W, K)"
      using poll_starts [OF law _ i, of "ib_notify b"] o 2(3) by auto
    have rest: "recv_run nt i cfs (RvSelect, b\<lparr>ib_notify := n1\<rparr>) = (c, b') \<Longrightarrow> c = RvSelect \<and> ib_pending b' = [] \<and> fst (obs (ib_notify b')) = False" for cfs
      using recv_run_parked [OF law, where i = i and b = "b\<lparr>ib_notify := n1\<rparr>" and cfs = cfs and pm = False] p1 i b 2 by auto
    have "recv_run nt i (replicate 6 cf) (RvCheck, b) = recv_run nt i [cf, cf, cf] (recv_atomic nt i cf RvSelect b)"
      using 2 b by (simp add: numeral_eq_Suc)
    also have "recv_atomic nt i cf RvSelect b = (RvSelect, b\<lparr>ib_notify := n1\<rparr>)" using p1(1) 2 b by simp
    finally have "recv_run nt i [cf, cf, cf] (RvSelect, b\<lparr>ib_notify := n1\<rparr>) = (c, b')" using run by (simp only:)
    from rest [OF this] 2 r show ?thesis by (auto simp: recv_eq)
  next
    case 3
    obtain n1 where p1: "nt_poll nt i (ib_notify b) = (True, n1)" "obs n1 = (False, W, K)"
      using poll_permit [OF law _ i, of "ib_notify b"] o 3(3) by auto
    obtain n2 where p2: "nt_poll nt i n1 = (False, n2)" "obs n2 = (False, insert i W, K)"
      by (rule poll_starts [OF law p1(2) i])
    from run p1 p2 3 b r show ?thesis by (auto simp: numeral_eq_Suc recv_eq)
  qed
qed

section \<open>Messages are handed out once and in order\<close>

definition taken_by :: "nat \<Rightarrow> 'n inbox \<Rightarrow> data_message list" where
  "taken_by i b = map snd (filter (\<lambda>(j, m). j = i) (ib_taken b))"

definition handed_out :: "'n receivers \<Rightarrow> bool" where
  "handed_out = (\<lambda>(pc, b). map snd (ib_taken b) @ ib_pending b = ib_pushed b \<and>
     (\<forall>i m. pc i = RvReturned (Inr m) \<longrightarrow> (\<exists>ms. taken_by i b = ms @ [m])) \<and>
     (\<forall>i e. pc i = RvReturned (Inl e) \<longrightarrow> e = ShuttingDown \<and> ib_shutdown b))"

text \<open>What a step of a call does to queue and history.\<close>

lemma recv_atomic_effect [consumes 1, case_names taken quiet]:
  assumes "recv_atomic nt i cf c b = (c', b')"
  obtains m rest where "c = RvPop" "ib_pending b = m # rest" "c' = RvReturned (Inr m)"
      "b' = b\<lparr>ib_pending := rest, ib_taken := ib_taken b @ [(i, m)]\<rparr>"
  | n where "b' = b\<lparr>ib_notify := n\<rparr>" "c' = c \<or> \<not> at_rest c' \<or> c' = RvReturned (Inl ShuttingDown) \<and> ib_shutdown b"
proof (cases c)
  case RvPop
  show thesis
  proof (cases "ib_pending b")
    case Nil
    with RvPop assms show thesis by (intro that(2) [of "ib_notify b"]) simp_all
  next
    case (Cons m rest)
    with RvPop assms show thesis by (intro that(1) [of m rest]) simp_all
  qed
next
  case RvSelect
  obtain d n where "nt_poll nt i (ib_notify b) = (d, n)" by fastforce
  with RvSelect assms that(2) [of n] that(2) [of "nt_drop nt i (ib_notify b)"] that(2) [of "nt_drop nt i n"]
  show thesis by (cases d; cases "ib_shutdown b"; cases cf; simp)
next
  case RvCheck
  with assms show thesis by (intro that(2) [of "ib_notify b"]) (auto split: if_splits)
qed (use assms in \<open>intro that(2) [of "ib_notify b"]; auto\<close>)+

lemma handed_out_step:
  assumes inv: "handed_out s" and st: "inbox_step nt I s s'"
  shows "handed_out s'"
  using st
proof cases
  case (ib_call i cf pc b c b')
  from ib_call(4) show ?thesis
  proof (cases rule: recv_atomic_effect)
    case (taken m rest)
    with inv ib_call show ?thesis by (auto simp: handed_out_def taken_by_def)
  next
    case (quiet n)
    with inv ib_call show ?thesis by (auto simp: handed_out_def taken_by_def)
  qed
qed (use inv in \<open>auto simp: handed_out_def taken_by_def inbox_push_def inbox_notify_def\<close>)

interpretation handed: invariant_of "inbox_init nt" "inbox_step nt I" handed_out for nt I
proof
  show "inbox_init nt s \<Longrightarrow> handed_out s" for s by (auto simp: inbox_init_def handed_out_def)
qed (fact handed_out_step)

section \<open>One receiving task\<close>

text \<open>
  A call that waits while the queue has messages is about to be notified, has been notified, or finds
  a permit; nobody else ever waits.
\<close>

definition wake_inv :: "'n notify_api \<Rightarrow> ('n \<Rightarrow> observed) \<Rightarrow> nat \<Rightarrow> 'n receivers \<Rightarrow> bool" where
  "wake_inv nt obs i = (\<lambda>(pc, b). notify_law nt obs \<and>
     (\<exists>pm. obs (ib_notify b) = (pm, {}, {}) \<and> (pc i = RvSelect \<and> ib_pending b \<noteq> [] \<and> \<not> ib_due b \<longrightarrow> pm) \<or>
        pc i = RvSelect \<and> obs (ib_notify b) = (pm, {i}, {}) \<and> (ib_pending b \<noteq> [] \<longrightarrow> ib_due b) \<or>
        pc i = RvSelect \<and> obs (ib_notify b) = (pm, {}, {i})))"

lemma wake_invI:
  assumes "notify_law nt obs"
  shows "obs (ib_notify b) = (pm, {}, {}) \<Longrightarrow> (pc i = RvSelect \<Longrightarrow> ib_pending b \<noteq> [] \<Longrightarrow> \<not> ib_due b \<Longrightarrow> pm) \<Longrightarrow>
      wake_inv nt obs i (pc, b)"
    and "pc i = RvSelect \<Longrightarrow> obs (ib_notify b) = (pm, {i}, {}) \<Longrightarrow> (ib_pending b \<noteq> [] \<Longrightarrow> ib_due b) \<Longrightarrow>
      wake_inv nt obs i (pc, b)"
    and "pc i = RvSelect \<Longrightarrow> obs (ib_notify b) = (pm, {}, {i}) \<Longrightarrow> wake_inv nt obs i (pc, b)"
  using assms by (auto simp: wake_inv_def)

lemma wake_inv_cases [consumes 1, case_names none waits woken]:
  assumes "wake_inv nt obs i (pc, b)"
  obtains pm where "obs (ib_notify b) = (pm, {}, {})" "pc i = RvSelect \<Longrightarrow> ib_pending b \<noteq> [] \<Longrightarrow> \<not> ib_due b \<Longrightarrow> pm"
  | pm where "pc i = RvSelect" "obs (ib_notify b) = (pm, {i}, {})" "ib_pending b \<noteq> [] \<Longrightarrow> ib_due b"
  | pm where "pc i = RvSelect" "obs (ib_notify b) = (pm, {}, {i})"
  using assms by (auto simp: wake_inv_def)

lemma wake_inv_drop:
  assumes inv: "wake_inv nt obs i (pc, b)" and law: "notify_law nt obs"
    and c: "c \<noteq> RvSelect" and n: "n = nt_drop nt i (ib_notify b)"
  shows "wake_inv nt obs i (pc(i := c), b\<lparr>ib_notify := n\<rparr>)"
  using inv
proof (cases rule: wake_inv_cases)
  case (none pm)
  with drop_other [OF law none(1), of i] c n show ?thesis by (intro wake_invI(1) [OF law, where pm = pm]) simp_all
next
  case (waits pm)
  with drop_other [OF law waits(2), of i] c n show ?thesis by (intro wake_invI(1) [OF law, where pm = pm]) simp_all
next
  case (woken pm)
  with drop_woken [OF law woken(2), of i] c n show ?thesis
    by (intro wake_invI(1) [OF law, where pm = True]) (cases "obs n"; simp)+
qed

lemma wake_inv_select:
  assumes inv: "wake_inv nt obs i (pc, b)" and law: "notify_law nt obs" and sel: "pc i = RvSelect"
    and po: "nt_poll nt i (ib_notify b) = (d, n)" and c: "c = (if d then RvCheck else RvSelect)"
  shows "wake_inv nt obs i (pc(i := c), b\<lparr>ib_notify := n\<rparr>)"
  using inv
proof (cases rule: wake_inv_cases)
  case (none pm)
  show ?thesis
  proof (cases pm)
    case True
    obtain n' where "nt_poll nt i (ib_notify b) = (True, n')" "obs n' = (False, {}, {})"
      using poll_permit [OF law, of "ib_notify b" "{}" "{}" i] none(1) True by auto
    with po c show ?thesis by (intro wake_invI(1) [OF law, where pm = False]) simp_all
  next
    case False
    obtain n' where "nt_poll nt i (ib_notify b) = (False, n')" "obs n' = (False, {i}, {})"
      using poll_starts [OF law, of "ib_notify b" "{}" "{}" i] none(1) False by auto
    with po c none(2) False sel show ?thesis
      by (intro wake_invI(2) [OF law, where pm = False]) auto
  qed
next
  case (waits pm)
  obtain n' where "nt_poll nt i (ib_notify b) = (False, n')" "obs n' = (pm, {i}, {})"
    by (rule poll_waits [OF law waits(2), of i]) simp_all
  with po c waits(3) show ?thesis by (intro wake_invI(2) [OF law, where pm = pm]) simp_all
next
  case (woken pm)
  obtain n' where "nt_poll nt i (ib_notify b) = (True, n')" "obs n' = (pm, {}, {})"
    by (rule poll_woken [OF law woken(2), of i]) simp_all
  with po c show ?thesis by (intro wake_invI(1) [OF law, where pm = pm]) simp_all
qed

lemma wake_inv_call:
  assumes inv: "wake_inv nt obs i (pc, b)" and law: "notify_law nt obs"
    and run: "recv_atomic nt i cf (pc i) b = (c, b')"
  shows "wake_inv nt obs i (pc(i := c), b')"
proof (cases "pc i")
  case RvPop
  show ?thesis
    using inv
  proof (cases rule: wake_inv_cases)
    case (none pm)
    with RvPop run show ?thesis
      by (intro wake_invI(1) [OF law, where pm = pm]) (auto split: list.splits)
  qed (use RvPop in simp_all)
next
  case RvSelect
  obtain d n where po: "nt_poll nt i (ib_notify b) = (d, n)" by fastforce
  have sel: "wake_inv nt obs i (pc(i := if d then RvCheck else RvSelect), b\<lparr>ib_notify := n\<rparr>)"
    by (rule wake_inv_select [OF inv law RvSelect po refl])
  have "wake_inv nt obs i (pc(i := c), b\<lparr>ib_notify := nt_drop nt i (ib_notify b)\<rparr>)" if "c \<noteq> RvSelect"
    by (rule wake_inv_drop [OF inv law that refl])
  moreover have "wake_inv nt obs i (pc(i := c), b\<lparr>ib_notify := nt_drop nt i n\<rparr>)" if "c \<noteq> RvSelect"
    using wake_inv_drop [OF sel law that refl] by simp
  ultimately show ?thesis
    using RvSelect run po sel by (cases d; cases "ib_shutdown b"; cases cf; auto)
next
  case RvCheck
  show ?thesis
    using inv
  proof (cases rule: wake_inv_cases)
    case (none pm)
    with RvCheck run show ?thesis
      by (intro wake_invI(1) [OF law, where pm = pm]) (auto split: if_splits)
  qed (use RvCheck in simp_all)
qed (use assms in \<open>auto simp: wake_inv_def\<close>)

lemma wake_inv_notify:
  assumes inv: "wake_inv nt obs i (pc, b)" and law: "notify_law nt obs"
  shows "wake_inv nt obs i (pc, inbox_notify nt b)"
  using inv
proof (cases rule: wake_inv_cases)
  case (none pm)
  with law_notify [OF law, of "ib_notify b"] show ?thesis
    by (intro wake_invI(1) [OF law, where pm = True]) (cases "obs (nt_notify_one nt (ib_notify b))"; simp add: inbox_notify_def)+
next
  case (waits pm)
  with law_notify [OF law, of "ib_notify b"] show ?thesis
    by (intro wake_invI(3) [OF law, where pm = pm]) (cases "obs (nt_notify_one nt (ib_notify b))"; simp add: inbox_notify_def)+
next
  case (woken pm)
  with law_notify [OF law, of "ib_notify b"] show ?thesis
    by (intro wake_invI(3) [OF law, where pm = True]) (cases "obs (nt_notify_one nt (ib_notify b))"; simp add: inbox_notify_def)+
qed

lemma wake_inv_step:
  assumes inv: "wake_inv nt obs i s" and st: "inbox_step nt {i} s s'"
  shows "wake_inv nt obs i s'"
proof -
  have law: "notify_law nt obs" using inv by (auto simp: wake_inv_def)
  show ?thesis
    using st
  proof cases
    case (ib_call j cf pc b c b')
    with inv wake_inv_call [OF _ law] show ?thesis by simp
  next
    case (ib_start j pc b)
    with inv show ?thesis by (auto simp: wake_inv_def)
  next
    case (ib_drop j pc b)
    with inv wake_inv_drop [OF _ law _ refl] show ?thesis by simp
  next
    case (ib_wake b pc)
    with inv wake_inv_notify [OF _ law] show ?thesis by simp
  qed (use inv in \<open>auto simp: wake_inv_def inbox_push_def\<close>)
qed

interpretation wake: invariant_of "\<lambda>s. notify_law nt obs \<and> inbox_init nt s" "inbox_step nt {i}" "wake_inv nt obs i" for nt obs i
proof
  show "wake_inv nt obs i s" if "notify_law nt obs \<and> inbox_init nt s" for s
    using that by (auto simp: inbox_init_def wake_inv_def notify_law_def)
qed (fact wake_inv_step)

lemma woken_takes:
  assumes law: "notify_law nt obs" and o: "obs (ib_notify b) = (pm, W, K)" "i \<in> K"
    and b: "ib_pending b = m # ms" "\<not> ib_shutdown b"
  shows "\<exists>n. recv_run nt i [cf1, cf2, cf3] (RvSelect, b) =
      (RvReturned (Inr m), b\<lparr>ib_notify := n, ib_pending := ms, ib_taken := ib_taken b @ [(i, m)]\<rparr>) \<and>
    obs n = (pm, W, K - {i})"
proof -
  obtain n where "nt_poll nt i (ib_notify b) = (True, n)" "obs n = (pm, W, K - {i})"
    by (rule poll_woken [OF law o])
  with b show ?thesis by (intro exI [of _ n]) simp
qed

section \<open>Properties\<close>

text \<open>
  C13. Any number of tasks may call \<^verbatim>\<open>recv\<close> on one peer, again and again, and drop calls that
  wait: whatever the interleaving with each other, with the receive task and with a shutdown, the
  messages handed out, in the order in which they were taken, followed by those still queued are the
  messages the receive task appended. No message is lost, repeated or reordered, a dropped call takes
  none with it, what a call returns is the message it took, and an error is returned only after a
  shutdown.
\<close>

theorem recv_calls_exactly_once:
  assumes "inbox_init nt s" and "(inbox_step nt I)\<^sup>*\<^sup>* s (pc, b)"
  shows "map snd (ib_taken b) @ ib_pending b = ib_pushed b \<and>
    (\<forall>i m. pc i = RvReturned (Inr m) \<longrightarrow> (\<exists>ms. taken_by i b = ms @ [m])) \<and>
    (\<forall>i e. pc i = RvReturned (Inl e) \<longrightarrow> e = ShuttingDown \<and> ib_shutdown b)"
  using handed.reach_inv [OF assms] by (simp add: handed_out_def)

text \<open>
  C14. A single receiving task never misses a wake-up: however its calls, dropped ones included,
  interleave with the receive task, a call in progress with a message in the queue and the notification
  for it sent returns that message within three steps of its own, whatever order \<^verbatim>\<open>select!\<close>
  polls in.
\<close>

theorem recv_no_lost_wakeup:
  assumes "notify_law nt obs" and "inbox_init nt s" and "(inbox_step nt {i})\<^sup>*\<^sup>* s (pc, b)"
    and "ib_pending b = m # ms" and "\<not> ib_due b" and "\<not> ib_shutdown b" and "\<not> at_rest (pc i)"
  shows "fst (recv_run nt i [cf1, cf2, cf3] (pc i, b)) = RvReturned (Inr m)"
proof (cases "pc i")
  case RvSelect
  from assms(1-3) have "wake_inv nt obs i (pc, b)" using wake.reach_inv by blast
  then show ?thesis
  proof (cases rule: wake_inv_cases)
    case (none pm)
    with RvSelect assms(4,5) have "obs (ib_notify b) = (True, {}, {})" by simp
    then obtain n where "nt_poll nt i (ib_notify b) = (True, n)" by (rule poll_permit [OF assms(1)]) simp_all
    with RvSelect assms(4,6) show ?thesis by simp
  next
    case (woken pm)
    have "i \<in> {i}" by simp
    from woken_takes [OF assms(1) woken(2) this assms(4,6), of cf1 cf2 cf3] RvSelect show ?thesis by auto
  qed (use assms(4,5) in simp_all)
qed (use assms in simp_all)

text \<open>
  C38. The notification does not reach every receiver that could run: two calls wait, the receive task
  appends the two messages of one packet and notifies once. One of the calls returns the first message;
  the second stays in the queue, and the other call goes on waiting, however often it is polled.
\<close>

theorem batch_wakes_one_receiver:
  assumes "notify_law nt obs" and "i \<noteq> j" and "obs (ib_notify b) = (False, {i, j}, {})"
    and "ib_pending b = []" and "\<not> ib_shutdown b" and "b1 = inbox_notify nt (inbox_push [m1, m2] b)"
  shows "\<exists>k l b2. {k, l} = {i, j} \<and> recv_run nt k [cf1, cf2, cf3] (RvSelect, b1) = (RvReturned (Inr m1), b2) \<and>
    ib_pending b2 = [m2] \<and> \<not> ib_due b2 \<and>
    (\<forall>cfs. fst (recv_run nt l cfs (RvSelect, b2)) = RvSelect \<and> ib_pending (snd (recv_run nt l cfs (RvSelect, b2))) = [m2])"
proof -
  have b1: "ib_pending b1 = [m1, m2]" "\<not> ib_shutdown b1" "\<not> ib_due b1" "ib_notify b1 = nt_notify_one nt (ib_notify b)"
    using assms(4-6) by (simp_all add: inbox_notify_def inbox_push_def)
  obtain pm W K where o: "obs (nt_notify_one nt (ib_notify b)) = (pm, W, K)" by (metis prod_cases3)
  then obtain k where k: "k \<in> {i, j}" "W = {i, j} - {k}" "K = {k}" "\<not> pm"
    using law_notify [OF assms(1), of "ib_notify b"] assms(3) by auto
  define l where "l = (if k = i then j else i)"
  have l: "{k, l} = {i, j}" "l \<in> W" "l \<notin> K - {k}" using k assms(2) by (auto simp: l_def)
  have "k \<in> K" using k(3) by simp
  from woken_takes [OF assms(1) _ this b1(1,2), of pm W cf1 cf2 cf3] o b1(4) obtain n where
    n: "recv_run nt k [cf1, cf2, cf3] (RvSelect, b1) =
      (RvReturned (Inr m1), b1\<lparr>ib_notify := n, ib_pending := [m2], ib_taken := ib_taken b1 @ [(k, m1)]\<rparr>)"
    "obs n = (pm, W, K - {k})" by auto
  let ?b2 = "b1\<lparr>ib_notify := n, ib_pending := [m2], ib_taken := ib_taken b1 @ [(k, m1)]\<rparr>"
  have "fst (recv_run nt l cfs (RvSelect, ?b2)) = RvSelect \<and> ib_pending (snd (recv_run nt l cfs (RvSelect, ?b2))) = [m2]" for cfs
  proof -
    have "obs (ib_notify ?b2) = (pm, W, K - {k})" "\<not> ib_shutdown ?b2" using n(2) b1(2) by simp_all
    from recv_run_parked [OF assms(1) this(1) l(2,3) this(2), of cfs] show ?thesis by auto
  qed
  with n(1) l(1) b1(3) show ?thesis by (intro exI [of _ k] exI [of _ l] exI [of _ ?b2]) simp
qed

text \<open>Runs of the first-in first-out notification.\<close>

definition demo_msg :: "u8 \<Rightarrow> data_message" where
  "demo_msg x = \<lparr>dm_peer = V4 2 9000, dm_data = [x]\<rparr>"

theorem recv_calls_exactly_once_witness:
  "\<exists>s pc b. inbox_init fifo_api s \<and> (inbox_step fifo_api UNIV)\<^sup>*\<^sup>* s (pc, b) \<and> ib_pushed b = [demo_msg 1, demo_msg 2] \<and>
     map snd (ib_taken b) @ ib_pending b = [demo_msg 1, demo_msg 2]"
proof -
  define b0 :: "fifo inbox" where "b0 = \<lparr>ib_pending = [], ib_notify = nt_new fifo_api, ib_shutdown = False,
     ib_due = False, ib_pushed = [], ib_taken = []\<rparr>"
  let ?b = "inbox_push [demo_msg 1, demo_msg 2] b0"
  have init: "inbox_init fifo_api (\<lambda>_. RvIdle, b0)" by (simp add: inbox_init_def b0_def)
  have "inbox_step fifo_api UNIV (\<lambda>_. RvIdle, b0) (\<lambda>_. RvIdle, ?b)" by (rule ib_push) (simp_all add: b0_def)
  then have run: "(inbox_step fifo_api UNIV)\<^sup>*\<^sup>* (\<lambda>_. RvIdle, b0) (\<lambda>_. RvIdle, ?b)" by (rule r_into_rtranclp)
  have "ib_pushed ?b = [demo_msg 1, demo_msg 2]" by (simp add: inbox_push_def b0_def)
  with recv_calls_exactly_once [OF init run] init run show ?thesis by metis
qed

theorem recv_no_lost_wakeup_witness:
  "\<exists>s b. inbox_init fifo_api s \<and> (inbox_step fifo_api {0})\<^sup>*\<^sup>* s ((\<lambda>_. RvIdle)(0 := RvSelect), b) \<and> ib_pending b = [demo_msg 1] \<and>
     fst (recv_run fifo_api 0 [False, False, False] (RvSelect, b)) = RvReturned (Inr (demo_msg 1))"
proof -
  define b0 :: "fifo inbox" where "b0 = \<lparr>ib_pending = [], ib_notify = nt_new fifo_api, ib_shutdown = False,
     ib_due = False, ib_pushed = [], ib_taken = []\<rparr>"
  let ?b1 = "b0\<lparr>ib_notify := \<lparr>fi_permit = False, fi_waiting = [0], fi_woken = []\<rparr>\<rparr>"
  let ?b2 = "inbox_push [demo_msg 1] ?b1" and ?pc = "\<lambda>c. (\<lambda>_. RvIdle)(0 := c)" and ?step = "inbox_step fifo_api {0}"
  let ?b3 = "inbox_notify fifo_api ?b2"
  have init: "inbox_init fifo_api (\<lambda>_. RvIdle, b0)" by (simp add: inbox_init_def b0_def)
  have call: "?step (?pc c, b) (?pc c', b')" if "recv_atomic fifo_api 0 False c b = (c', b')" for c c' b b'
    using ib_call [of 0 "{0}" fifo_api False "?pc c" b c' b'] that by simp
  note into = rtranclp.rtrancl_into_rtrancl [where r = ?step]
  have "?step\<^sup>*\<^sup>* (\<lambda>_. RvIdle, b0) (?pc RvCheck, b0)" by (rule r_into_rtranclp, rule ib_start) simp_all
  then have "?step\<^sup>*\<^sup>* (\<lambda>_. RvIdle, b0) (?pc RvPop, b0)" by (rule into, intro call) (simp add: b0_def)
  then have "?step\<^sup>*\<^sup>* (\<lambda>_. RvIdle, b0) (?pc RvSelect, b0)" by (rule into, intro call) (simp add: b0_def)
  then have "?step\<^sup>*\<^sup>* (\<lambda>_. RvIdle, b0) (?pc RvSelect, ?b1)" by (rule into, intro call) (simp add: b0_def fifo_api_def)
  then have "?step\<^sup>*\<^sup>* (\<lambda>_. RvIdle, b0) (?pc RvSelect, ?b2)" by (rule into, intro ib_push) (simp_all add: b0_def)
  then have run: "?step\<^sup>*\<^sup>* (\<lambda>_. RvIdle, b0) (?pc RvSelect, ?b3)" by (rule into, intro ib_wake) (simp add: inbox_push_def)
  have b3: "ib_pending ?b3 = [demo_msg 1]" "\<not> ib_due ?b3" "\<not> ib_shutdown ?b3"
    by (simp_all add: inbox_notify_def inbox_push_def b0_def)
  have "\<not> at_rest (?pc RvSelect 0)" by simp
  from recv_no_lost_wakeup [OF fifo_law init run b3 this, of False False False] init run b3(1) show ?thesis by auto
qed

theorem batch_wakes_one_receiver_witness:
  "\<exists>k l b2 b. {k, l} = {0 :: nat, 1} \<and> fifo_observed (ib_notify b) = (False, {0, 1}, {}) \<and>
     recv_run fifo_api k [False, False, False] (RvSelect, inbox_notify fifo_api (inbox_push [demo_msg 1, demo_msg 2] b)) =
       (RvReturned (Inr (demo_msg 1)), b2) \<and> ib_pending b2 = [demo_msg 2] \<and>
     fst (recv_run fifo_api l [False, False] (RvSelect, b2)) = RvSelect"
proof -
  define b :: "fifo inbox" where "b = \<lparr>ib_pending = [], ib_notify = \<lparr>fi_permit = False, fi_waiting = [0, 1], fi_woken = []\<rparr>,
     ib_shutdown = False, ib_due = False, ib_pushed = [], ib_taken = []\<rparr>"
  have o: "fifo_observed (ib_notify b) = (False, {0, 1}, {})" and b: "ib_pending b = []" "\<not> ib_shutdown b"
    by (simp_all add: b_def fifo_observed_def)
  have "(0 :: nat) \<noteq> 1" by simp
  from batch_wakes_one_receiver [OF fifo_law this o b refl, where ?m1.0 = "demo_msg 1" and ?m2.0 = "demo_msg 2" and ?cf1.0 = False and ?cf2.0 = False and ?cf3.0 = False] o
  show ?thesis by metis
qed

end
