(* ===== verification/Cancel_Safety.thy ===== *)
theory Cancel_Safety
  imports Send_Tasks
begin

text \<open>
  What a dropped call of \<^verbatim>\<open>send\<close> leaves behind, \<^verbatim>\<open>src/src/transport.rs\<close>. The only
  point where a call waits is the SYN of \<^verbatim>\<open>initiate_session\<close>, after the session has been inserted;
  a call dropped there is a state machine that stops in \<open>SynConv\<close>. The session it leaves is opening,
  its SYN has not been sent, and the update task takes it from there.
\<close>

section \<open>A retry that is due\<close>

definition retry_due :: "kcp_config \<Rightarrow> u64 \<Rightarrow> 'k session \<Rightarrow> bool" where
  "retry_due cfg now s \<longleftrightarrow> \<not> closed s \<and> state (inner s) = SynSent \<and> syn_retries s < syn_max_retries cfg \<and>
     retry_wait cfg (syn_retries s) \<le> unat now - unat (syn_sent_at s)"

definition offers :: "sock_addr \<times> bytes \<Rightarrow> platform \<Rightarrow> platform \<Rightarrow> bool" where
  "offers x w w' \<longleftrightarrow> (\<exists>xs. offered w' = offered w @ xs \<and> x \<in> set xs)"

lemma offers_left: "offers x w w' \<Longrightarrow> offered w'' = offered w' @ ys \<Longrightarrow> offers x w w''"
  by (auto simp: offers_def)

lemma offers_right: "offered w' = offered w @ ys \<Longrightarrow> offers x w' w'' \<Longrightarrow> offers x w w''"
  by (auto simp: offers_def)

lemma session_update_opening:
  "session_update api now s w = (r, s', w') \<Longrightarrow> state (inner s) = SynSent \<Longrightarrow> s' = s \<and> w' = w \<and> r \<noteq> Inl DeadLink"
  by (auto simp: session_update_def)

lemma tick_session_retries:
  assumes "tick_session api cfg now_ms now s w = (rm, s', w')" and "retry_due cfg now s"
  shows "offers (peer_addr s, encode_control Syn (conv_id (inner s))) w w'"
proof -
  obtain r1 s1 w1 where up: "session_update api now_ms s w = (r1, s1, w1)" by (metis prod_cases3)
  have same: "s1 = s" "w1 = w" "r1 \<noteq> Inl DeadLink"
    using session_update_opening [OF up] assms(2) by (simp_all add: retry_due_def)
  obtain r2 s2 w2 where mr: "maybe_retry_syn cfg now s w = (r2, s2, w2)" by (metis prod_cases3)
  then have "offers (peer_addr s, encode_control Syn (conv_id (inner s))) w w2"
    by (cases rule: maybe_retry_syn_cases) (use assms(2) in \<open>auto simp: retry_due_def offers_def\<close>)
  moreover have "w' = w2" using assms up same mr by (auto simp: tick_session_def retry_due_def Let_def split: if_splits)
  ultimately show ?thesis by simp
qed

lemma tick_session_grows:
  assumes "tick_session api cfg now_ms now s w = (rm, s', w')"
  shows "\<exists>xs. offered w' = offered w @ xs"
proof -
  obtain r1 s1 w1 where up: "session_update api now_ms s w = (r1, s1, w1)" by (metis prod_cases3)
  obtain r2 s2 w2 where mr: "maybe_retry_syn cfg now s1 w1 = (r2, s2, w2)" by (metis prod_cases3)
  have "\<exists>xs. offered w1 = offered w @ xs" using session_update_frame [OF up] by (auto simp: data_only_def)
  moreover have "\<exists>xs. offered w2 = offered w1 @ xs" using mr by (cases rule: maybe_retry_syn_cases) auto
  ultimately show ?thesis
    using assms up mr by (auto simp: tick_session_def Let_def split: if_splits)
qed

lemma tick_scan_grows:
  assumes "tick_scan api now_ms now es p = (rms, p')"
  shows "\<exists>xs. offered (plat p') = offered (plat p) @ xs"
  using assms
proof (induction es arbitrary: p rms)
  case (Cons e es)
  obtain c h where e: "e = (c, h)" by fastforce
  obtain rm s w where ts: "tick_session api (config p) now_ms now (sess p h) (plat p) = (rm, s, w)" by (metis prod_cases3)
  obtain rms2 where rec: "tick_scan api now_ms now es (set_sess h s (p\<lparr>plat := w\<rparr>)) = (rms2, p')"
    using Cons.prems e ts by (auto simp: on_session_def split: prod.splits)
  from Cons.IH [OF rec] tick_session_grows [OF ts] show ?case by auto
qed simp

lemma tick_scan_retries:
  assumes "tick_scan api now_ms now es p = (rms, p')" and "(can, h) \<in> set es" and "distinct (map snd es)"
    and "\<forall>(c, h) \<in> set es. h < length (arena p)" and "retry_due (config p) now (sess p h)"
  shows "offers (peer_addr (sess p h), encode_control Syn (conv_id (inner (sess p h)))) (plat p) (plat p')"
  using assms
proof (induction es arbitrary: p rms)
  case (Cons e es)
  obtain c g where e: "e = (c, g)" by fastforce
  obtain rm s w where ts: "tick_session api (config p) now_ms now (sess p g) (plat p) = (rm, s, w)" by (metis prod_cases3)
  let ?p1 = "set_sess g s (p\<lparr>plat := w\<rparr>)"
  obtain rms2 where rec: "tick_scan api now_ms now es ?p1 = (rms2, p')"
    using Cons.prems(1) e ts by (auto simp: on_session_def split: prod.splits)
  have g: "g < length (arena p)" using Cons.prems(4) e by simp
  show ?case
  proof (cases "g = h")
    case True
    from tick_scan_grows [OF rec] tick_session_retries [OF ts] Cons.prems(5) True show ?thesis
      by (auto intro: offers_left)
  next
    case False
    then have "(can, h) \<in> set es" using Cons.prems(2) e by simp
    moreover have "sess ?p1 h = sess p h" using False g by (simp add: sess_set_sess)
    ultimately have "offers (peer_addr (sess p h), encode_control Syn (conv_id (inner (sess p h)))) w (plat p')"
      using Cons.IH [OF rec] Cons.prems(3-5) by simp
    with tick_session_grows [OF ts] show ?thesis by (auto intro: offers_right)
  qed
qed simp

lemma prune_grows: "\<exists>xs. offered (plat (fold prune_one rms p)) = offered (plat p) @ xs"
proof (induction rms arbitrary: p)
  case (Cons c rms)
  have "\<exists>xs. offered (plat (prune_one c p)) = offered (plat p) @ xs"
    by (auto simp: prune_one_def Let_def split: option.split)
  with Cons.IH [of "prune_one c p"] show ?case by auto
qed simp

lemma update_tick_retries:
  assumes wf: "wf_peer p" and get: "hm_get (sessions p) can = Some h" and due: "retry_due (config p) (tick_now p) (sess p h)"
  shows "offers (peer_addr (sess p h), encode_control Syn (conv_id (inner (sess p h)))) (plat p) (plat (update_tick api p))"
proof -
  have mem: "(can, h) \<in> set (sessions p)" using get wf_table_entries [OF wf] by blast
  obtain now_ms w1 where cm: "current_ms (plat p) = (now_ms, w1)" by fastforce
  obtain now w2 where ep: "epoch_ms w1 = (now, w2)" by fastforce
  obtain rms p1 where sc: "tick_scan api now_ms now (sessions p) (p\<lparr>plat := w2\<rparr>) = (rms, p1)" by fastforce
  have off: "offered w2 = offered (plat p)"
    using offered_current_ms [of "plat p"] cm epoch_ms_facts(1) [OF ep] by simp
  have "\<forall>(c, h) \<in> set (sessions p). h < length (arena (p\<lparr>plat := w2\<rparr>))" using wf by (auto simp: wf_peer_def)
  from tick_scan_retries [OF sc mem wf_handles_distinct [OF wf] this] due cm ep off
  have "offers (peer_addr (sess p h), encode_control Syn (conv_id (inner (sess p h)))) (plat p) (plat p1)"
    by (simp add: offers_def)
  moreover have "update_tick api p = fold prune_one rms p1"
    using mem cm ep sc by (auto simp: update_tick_def)
  ultimately show ?thesis using prune_grows [of rms p1] by (auto intro: offers_left)
qed

section \<open>The dropped call\<close>

text \<open>The call stops before its SYN: the session is in the map, nothing has been offered to the socket.\<close>

lemma dropped_call:
  assumes none: "hm_get (sessions p) (canonicalize (call_peer call)) = None"
    and run: "send_alone api call 4 (Lookup, p) = (c, p')"
  obtains s w where "new_outbound api (call_conv call) (call_peer call) (own_incarnation p) (config p) (plat p) = (s, w)"
    "c = SynConv (length (arena p)) (conv_id (inner s))"
    "p' = p\<lparr>plat := w, arena := arena p @ [s], sessions := hm_insert (canonicalize (call_peer call)) (length (arena p)) (sessions p)\<rparr>"
proof -
  obtain s w where no: "new_outbound api (call_conv call) (call_peer call) (own_incarnation p) (config p) (plat p) = (s, w)"
    by fastforce
  with none run show thesis
    by (intro that [of s w]) (auto simp: numeral_eq_Suc initiate_insert_def alloc_def sess_def)
qed

lemma send_opening_session:
  assumes "hm_get (sessions p) (canonicalize peer) = Some h" and "h < length (arena p)" and "state (inner (sess p h)) = SynSent"
    and "send api conv peer data p = (r, p')"
  shows "plat p' = plat p" "sessions p' = sessions p" "config p' = config p" "kcp_frame (sess p h) (sess p' h)" "h < length (arena p')"
proof -
  obtain s w where sd: "send_data api data (sess p h) (plat p) = (r, s, w)" and p': "p' = set_sess h s (p\<lparr>plat := w\<rparr>)"
    using assms(1,4) by (auto simp: send_def on_session_def split: prod.splits)
  have "w = plat p" using sd assms(3) by (auto simp: send_data_def Let_def split: if_splits prod.splits sum.splits)
  with p' assms(2) send_data_frame [OF sd] show "plat p' = plat p" "sessions p' = sessions p" "config p' = config p"
    "kcp_frame (sess p h) (sess p' h)" "h < length (arena p')" by (simp_all add: sess_set_sess)
qed

section \<open>Properties\<close>

text \<open>
  C15. A \<^verbatim>\<open>send\<close> that is dropped while it waits for its SYN to go out is made good by the others.
  The peer stays well formed, the link is opening with the id the call drew and nothing has been sent. A
  later \<^verbatim>\<open>send\<close> to the address uses that session: it draws no new id and sends no SYN of its own.
  The first tick after the retry interval sends the SYN, so the handshake goes on.
\<close>

theorem dropped_send_recovers:
  assumes "wf_peer p" and "view p (canonicalize peer) = NoLink"
    and "send_alone api \<lparr>call_peer = peer, call_data = data, call_conv = conv\<rparr> 4 (Lookup, p) = (c, p1)"
    and "send api conv' peer data' p1 = (r, p2)" and "0 < syn_max_retries (config p)"
    and "retry_wait (config p) 0 \<le> unat (tick_now p2) - unat (fst (epoch_ms (plat p)))"
  shows "c = SynConv (length (arena p)) conv \<and> wf_peer p1 \<and> view p1 = (view p)(canonicalize peer := Opening conv) \<and>
    offered (plat p1) = offered (plat p) \<and> wf_peer p2 \<and> view p2 = view p1 \<and> offered (plat p2) = offered (plat p) \<and>
    offers (peer, encode_control Syn conv) (plat p2) (plat (update_tick api p2))"
proof -
  let ?can = "canonicalize peer" and ?h = "length (arena p)"
  have none: "hm_get (sessions p) ?can = None" using assms(2) by (auto simp: view_def link_of_cases split: option.splits)
  obtain s w where s: "new_outbound api conv peer (own_incarnation p) (config p) (plat p) = (s, w)"
    "c = SynConv ?h (conv_id (inner s))" "p1 = p\<lparr>plat := w, arena := arena p @ [s], sessions := hm_insert ?can ?h (sessions p)\<rparr>"
    using dropped_call [OF _ assms(3)] none by auto
  note so = session_at_new_outbound [OF s(1)]
  have ss: "state (inner s) = SynSent" "conv_id (inner s) = conv" "peer_addr s = peer" "syn_retries s = 0"
      "syn_sent_at s = fst (epoch_ms (plat p))" "offered w = offered (plat p)"
    using s(1) epoch_ms_facts(1) [of "plat p"] by (auto simp: new_outbound_def Let_def split: prod.splits)
  have "moves p ?can (link_of s) [] [] (p1\<lparr>plat := plat p\<rparr>)"
    using moves_insert [OF assms(1) so(1,2), of p] none s(3) by simp
  then have p1: "wf_peer p1" "view p1 = (view p)(?can := Opening conv)"
    using ss(1,2) moves_view [of p ?can "link_of s" "[]" "[]" "p1\<lparr>plat := plat p\<rparr>"] by (auto simp: moves_def link_of_cases fun_eq_iff)
  have h: "hm_get (sessions p1) ?can = Some ?h" "?h < length (arena p1)" "sess p1 ?h = s" using s(3) by (simp_all add: sess_def)
  note so2 = send_opening_session [OF h(1,2) _ assms(4), unfolded h(3), OF ss(1)]
  note f = kcp_frame_fields [OF so2(4)]
  have mv2: "moves p1 ?can (view p1 ?can) [] [] p2" using moves_send [OF p1(1) assms(4)] p1(2) by simp
  have p2: "wf_peer p2" "view p2 = view p1" using mv2 moves_view [OF mv2] by (simp_all add: moves_def)
  have "retry_due (config p2) (tick_now p2) (sess p2 ?h)"
    using f ss so(2) so2(3) s(3) assms(5,6) by (simp add: retry_due_def)
  from update_tick_retries [OF p2(1) _ this, of ?can api] h(1) so2(2) f ss
  have "offers (peer, encode_control Syn conv) (plat p2) (plat (update_tick api p2))" by simp
  with s(2,3) p1 p2 ss(2,6) so2(1) show ?thesis by simp
qed

theorem dropped_send_recovers_witness:
  "let p = (demo_peer (V4 1 9000))\<lparr>plat := fair_platform (V4 1 9000) 1000\<rparr>;
       p1 = snd (send_alone (mini_api to_le_bytes) \<lparr>call_peer = V4 2 9000, call_data = [104, 105], call_conv = 7\<rparr> 4 (Lookup, p));
       p2 = snd (send (mini_api to_le_bytes) 8 (V4 2 9000) [106] p1)
   in view p2 = (\<lambda>_. NoLink)(canonicalize (V4 2 9000) := Opening 7) \<and> offered (plat p2) = [] \<and>
      offers (V4 2 9000, encode_control Syn 7) (plat p2) (plat (update_tick (mini_api to_le_bytes) p2))"
proof -
  let ?p = "(demo_peer (V4 1 9000))\<lparr>plat := fair_platform (V4 1 9000) 1000\<rparr>"
  let ?p1 = "snd (send_alone (mini_api to_le_bytes) \<lparr>call_peer = V4 2 9000, call_data = [104, 105], call_conv = 7\<rparr> 4 (Lookup, ?p))"
  let ?p2 = "snd (send (mini_api to_le_bytes) 8 (V4 2 9000) [106] ?p1)"
  have bound: "bind_with (Inr (fair_platform (V4 1 9000) 1000)) 42 config_default = Inr ?p"
    by (simp add: bind_with_def demo_peer_def)
  have "wf_peer ?p" "view ?p = (\<lambda>_. NoLink)" using bind_with_wf [OF bound] by (simp_all add: fun_eq_iff)
  moreover have "0 < syn_max_retries (config ?p)" by (simp add: demo_peer_def config_default_def)
  moreover have "plat ?p2 = snd (epoch_ms (fair_platform (V4 1 9000) 1000))"
    by (simp add: numeral_eq_Suc initiate_insert_def alloc_def demo_peer_def new_outbound_def hm_get_def hm_insert_def send_def
        on_session_def send_data_def sess_def Let_def split: prod.split sum.split)
  then have "retry_wait (config ?p) 0 \<le> unat (tick_now ?p2) - unat (fst (epoch_ms (plat ?p)))"
    by (simp add: demo_peer_def config_default_def retry_wait_def shl_u64_def as_millis_u64_def epoch_ms_def current_ms_def
        fair_platform_def Let_def)
  ultimately show ?thesis
    using dropped_send_recovers [OF _ _ prod.collapse [symmetric] prod.collapse [symmetric], where p = ?p and peer = "V4 2 9000" and
      api = "mini_api to_le_bytes" and data = "[104, 105]" and conv = 7 and conv' = 8 and data' = "[106]"]
    by (simp add: Let_def demo_peer_def fair_platform_def offered_def)
qed

end
