(* ===== verification/Lock_Steps.thy ===== *)
theory Lock_Steps
  imports Send_Tasks
begin

text \<open>
  The receive task and the update task at the granularity of their locks. Both give up the lock of the
  map between looking a session up and acting on it, and the receive task awaits the socket in the
  middle of a SYN, so their critical sections interleave with each other, with any number of
  \<^verbatim>\<open>send\<close> calls and with the other operations. A step is what happens under one lock of a
  session or of the map, or between two of them, with the atomic loads and stores
  beside it; while the update task scans it holds the read lock of the map, which excludes the steps that write to it. \<^verbatim>\<open>disconnect\<close> and the removal of a
  pruned session run to their end under the write lock.
\<close>

section \<open>The receive task\<close>

datatype 'k rx_pc =
    RxDone "unit result"
  | RxPacket bytes sock_addr
  | RxTouch handle bytes
  | RxInput handle bytes
  | RxDrain handle
  | RxPush handle "bytes list"
  | RxNotify
  | RxAck u32 sock_addr syn_result
  | RxNew u32 sock_addr
  | RxInsert sock_addr "'k session"
  | RxCheck handle u32 sock_addr
  | RxRemove handle sock_addr
  | RxClose handle sock_addr
  | RxReport sock_addr

text \<open>The first critical section of the handler, by the type of the packet.\<close>

definition rx_dispatch ::
  "'k kcp_api \<Rightarrow> bytes \<Rightarrow> sock_addr \<Rightarrow> 'k kcp_peer \<Rightarrow> 'k rx_pc \<times> 'k kcp_peer" where
  "rx_dispatch api data from p =
     (case split_packet data of
        None \<Rightarrow> (RxDone (Inl (Io (IoError InvalidData ''empty packet''))), p)
      | Some (KcpData, payload) \<Rightarrow>
          (case hm_get (sessions p) (canonicalize from) of
             Some h \<Rightarrow> (RxTouch h payload, p)
           | None \<Rightarrow>
               (case read_conv payload of
                  None \<Rightarrow> (RxDone (Inr ()), p)
                | Some conv \<Rightarrow> (RxDone (Inr ()), send_resets conv from p)))
      | Some (Syn, payload) \<Rightarrow>
          (case read_conv payload of
             None \<Rightarrow> (RxDone (Inl (Io (IoError InvalidData ''truncated SYN''))), p)
           | Some conv \<Rightarrow>
               (case sock_local_addr (plat p) of
                  Inl e \<Rightarrow> (RxDone (Inl (Io e)), p)
                | Inr my_addr \<Rightarrow>
                    (case syn_decide api conv from my_addr p of (r, p1) \<Rightarrow> (RxAck conv from r, p1))))
      | Some (SynAck, payload) \<Rightarrow> (case on_syn_ack api payload from p of (r, p1) \<Rightarrow> (RxDone r, p1))
      | Some (Reset, payload) \<Rightarrow>
          (case read_conv payload of
             None \<Rightarrow> (RxDone (Inl (Io (IoError InvalidData ''truncated RESET''))), p)
           | Some conv \<Rightarrow>
               (case hm_get (sessions p) (canonicalize from) of
                  None \<Rightarrow> (RxDone (Inr ()), p)
                | Some h \<Rightarrow> (RxCheck h conv from, p))))"

fun rx_atomic :: "'k kcp_api \<Rightarrow> 'k rx_pc \<Rightarrow> 'k kcp_peer \<Rightarrow> ('k rx_pc \<times> 'k kcp_peer) option" where
  "rx_atomic api (RxPacket data from) p = Some (rx_dispatch api data from p)"
| "rx_atomic api (RxTouch h payload) p =
     (case epoch_ms (plat p) of
        (now, w) \<Rightarrow> Some (RxInput h payload, set_sess h ((sess p h)\<lparr>last_rx := now\<rparr>) (p\<lparr>plat := w\<rparr>)))"
| "rx_atomic api (RxInput h payload) p =
     (case session_input api payload (sess p h) of
        (Inl e, s) \<Rightarrow> Some (RxDone (Inl e), set_sess h s p)
      | (Inr _, s) \<Rightarrow> Some (RxDrain h, set_sess h s p))"
| "rx_atomic api (RxDrain h) p =
     (case try_recv_all api [] (sess p h) of
        None \<Rightarrow> None
      | Some (Inl e, msgs, s) \<Rightarrow> Some (RxDone (Inl e), set_sess h s p)
      | Some (Inr _, msgs, s) \<Rightarrow>
          Some (if msgs \<noteq> [] then RxPush h msgs else RxDone (Inr ()), set_sess h s p))"
| "rx_atomic api (RxPush h msgs) p =
     Some (RxNotify, p\<lparr>pending_data := pending_data p @
                        map (\<lambda>m. \<lparr>dm_peer = peer_addr (sess p h), dm_data = m\<rparr>) msgs\<rparr>)"
| "rx_atomic api RxNotify p = Some (RxDone (Inr ()), p\<lparr>data_notify := True\<rparr>)"
| "rx_atomic api (RxAck conv from r) p =
     Some (if syn_action r = CreateNew then RxNew conv from else RxDone (Inr ()), syn_ack_reply r p)"
| "rx_atomic api (RxNew conv from) p =
     (case new_inbound api conv from (own_incarnation p) (config p) (plat p) of
        (s, w) \<Rightarrow> Some (RxInsert from s, p\<lparr>plat := w\<rparr>))"
| "rx_atomic api (RxInsert from s) p = Some (RxDone (Inr ()), insert_inbound from s p)"
| "rx_atomic api (RxCheck h conv from) p =
     Some (if conv_id (inner (sess p h)) = conv then RxRemove h from else RxDone (Inr ()), p)"
| "rx_atomic api (RxRemove h from) p =
     Some (RxClose h from, p\<lparr>sessions := hm_remove (canonicalize from) (sessions p)\<rparr>)"
| "rx_atomic api (RxClose h from) p = Some (RxReport from, close_session h p)"
| "rx_atomic api (RxReport from) p = Some (RxDone (Inr ()), emit (Disconnected from) p)"
| "rx_atomic api (RxDone r) p = Some (RxDone r, p)"

section \<open>The update task\<close>

datatype tick_pc =
    TickDone
  | TickFire
  | TickStart u32 u64
  | TickScan u32 u64 table "canonical_addr list"
  | TickRetry u32 u64 canonical_addr handle table "canonical_addr list"
  | TickAge u32 u64 canonical_addr handle table "canonical_addr list"
  | TickPrune "canonical_addr list"

fun tick_atomic :: "'k kcp_api \<Rightarrow> tick_pc \<Rightarrow> 'k kcp_peer \<Rightarrow> tick_pc \<times> 'k kcp_peer" where
  "tick_atomic api TickFire p =
     (if sessions p = [] then (TickDone, p)
      else case current_ms (plat p) of
             (now_ms, w1) \<Rightarrow>
               (case epoch_ms w1 of (now_epoch, w2) \<Rightarrow> (TickStart now_ms now_epoch, p\<lparr>plat := w2\<rparr>)))"
| "tick_atomic api (TickStart now_ms now_epoch) p = (TickScan now_ms now_epoch (sessions p) [], p)"
| "tick_atomic api (TickScan now_ms now_epoch [] to_remove) p = (TickPrune to_remove, p)"
| "tick_atomic api (TickScan now_ms now_epoch ((can, h) # es) to_remove) p =
     (if closed (sess p h) then (TickScan now_ms now_epoch es to_remove, p)
      else case on_session (session_update api now_ms) h p of
             (r, p1) \<Rightarrow>
               (if r = Inl DeadLink then TickScan now_ms now_epoch es (to_remove @ [can])
                else TickRetry now_ms now_epoch can h es to_remove, p1))"
| "tick_atomic api (TickRetry now_ms now_epoch can h es to_remove) p =
     (case on_session (maybe_retry_syn (config p) now_epoch) h p of
        (r, p1) \<Rightarrow>
          (if r = Inl DeadLink then TickScan now_ms now_epoch es (to_remove @ [can])
           else TickAge now_ms now_epoch can h es to_remove, p1))"
| "tick_atomic api (TickAge now_ms now_epoch can h es to_remove) p =
     (let last_rx_ms = last_rx (sess p h)
      in if last_rx_ms > 0 \<and> from_millis (saturating_sub now_epoch last_rx_ms) > session_timeout (config p)
         then (TickScan now_ms now_epoch es (to_remove @ [can]), p)
         else (TickScan now_ms now_epoch es to_remove, p))"
| "tick_atomic api (TickPrune []) p = (TickDone, p)"
| "tick_atomic api (TickPrune (can # cans)) p = (TickPrune cans, prune_one can p)"
| "tick_atomic api TickDone p = (TickDone, p)"

section \<open>Interleaving\<close>

text \<open>The read lock of the map held across steps, and the steps that need the write lock.\<close>

fun scanning :: "tick_pc \<Rightarrow> bool" where
  "scanning (TickScan _ _ _ _) = True"
| "scanning (TickRetry _ _ _ _ _ _) = True"
| "scanning (TickAge _ _ _ _ _ _) = True"
| "scanning _ = False"

fun send_writes :: "'k send_pc \<Rightarrow> bool" where
  "send_writes (Insert _) = True"
| "send_writes _ = False"

fun rx_writes :: "'k rx_pc \<Rightarrow> bool" where
  "rx_writes (RxInsert _ _) = True"
| "rx_writes (RxRemove _ _) = True"
| "rx_writes _ = False"

type_synonym 'k tasks = "(nat \<Rightarrow> 'k send_pc) \<times> 'k rx_pc \<times> tick_pc \<times> 'k kcp_peer"

inductive app_step :: "'k kcp_api \<Rightarrow> bool \<Rightarrow> 'k kcp_peer \<Rightarrow> 'k kcp_peer \<Rightarrow> bool" for api where
  app_disconnect: "app_step api True p (disconnect peer p)"
| app_recv: "recv p = (m, p') \<Longrightarrow> app_step api False p p'"
| app_stats: "stats api peer p = (st, p') \<Longrightarrow> app_step api False p p'"

inductive lock_step :: "'k kcp_api \<Rightarrow> (nat \<Rightarrow> send_call) \<Rightarrow> 'k tasks \<Rightarrow> 'k tasks \<Rightarrow> bool" for api calls where
  lk_send: "send_atomic api (calls i) (pc i) p = (c, p') \<Longrightarrow> \<not> (send_writes (pc i) \<and> scanning tk) \<Longrightarrow>
     lock_step api calls (pc, rx, tk, p) (pc(i := c), rx, tk, p')"
| lk_arrive: "lock_step api calls (pc, RxDone r, tk, p) (pc, RxPacket data from, tk, p)"
| lk_rx: "rx_atomic api rx p = Some (rx', p') \<Longrightarrow> \<not> (rx_writes rx \<and> scanning tk) \<Longrightarrow>
     lock_step api calls (pc, rx, tk, p) (pc, rx', tk, p')"
| lk_fire: "lock_step api calls (pc, rx, TickDone, p) (pc, rx, TickFire, p)"
| lk_tick: "tick_atomic api tk p = (tk', p') \<Longrightarrow> lock_step api calls (pc, rx, tk, p) (pc, rx, tk', p')"
| lk_app: "app_step api writes p p' \<Longrightarrow> \<not> (writes \<and> scanning tk) \<Longrightarrow>
     lock_step api calls (pc, rx, tk, p) (pc, rx, tk, p')"

section \<open>The steps compose to the operations\<close>

fun rx_alone :: "'k kcp_api \<Rightarrow> nat \<Rightarrow> 'k rx_pc \<times> 'k kcp_peer \<Rightarrow> ('k rx_pc \<times> 'k kcp_peer) option" where
  "rx_alone api 0 s = Some s"
| "rx_alone api (Suc n) (c, p) = (case rx_atomic api c p of None \<Rightarrow> None | Some s \<Rightarrow> rx_alone api n s)"

fun tick_alone :: "'k kcp_api \<Rightarrow> nat \<Rightarrow> tick_pc \<times> 'k kcp_peer \<Rightarrow> tick_pc \<times> 'k kcp_peer" where
  "tick_alone api 0 s = s"
| "tick_alone api (Suc n) (c, p) = tick_alone api n (tick_atomic api c p)"

lemma rx_alone_done [simp]: "rx_alone api n (RxDone r, p) = Some (RxDone r, p)"
  by (induction n) simp_all

lemma sess_set_same: "h < length (arena p) \<Longrightarrow> sess (set_sess h s p) h = s"
  by (simp add: sess_set_sess)

lemma rx_alone_data:
  assumes "wf_peer p" and "split_packet data = Some (KcpData, payload)"
  shows "rx_alone api 6 (RxPacket data from, p) =
    map_option (\<lambda>(r, p'). (RxDone r, p')) (on_kcp_data api payload from p)"
proof (cases "hm_get (sessions p) (canonicalize from)")
  case None
  with assms(2) show ?thesis
    by (simp add: numeral_eq_Suc rx_dispatch_def on_kcp_data_def split: option.splits)
next
  case (Some h)
  obtain now w where ep: "epoch_ms (plat p) = (now, w)" by fastforce
  have h: "h < length (arena p)" using wf_lookup(1) [OF assms(1) Some] .
  show ?thesis
    using assms(2) Some ep h
    by (auto simp: numeral_eq_Suc rx_dispatch_def on_kcp_data_def Let_def sess_set_same set_sess_twice
        split: option.splits sum.splits prod.splits)
qed

lemma rx_alone_eq:
  assumes "wf_peer p"
  shows "rx_alone api 6 (RxPacket data from, p) =
    map_option (\<lambda>(r, p'). (RxDone r, p')) (handle_incoming api data from p)"
proof (cases "split_packet data")
  case None
  then show ?thesis by (simp add: numeral_eq_Suc rx_dispatch_def handle_incoming_def)
next
  case (Some tp)
  obtain t payload where tp: "tp = (t, payload)" by fastforce
  show ?thesis
  proof (cases t)
    case KcpData
    with Some tp rx_alone_data [OF assms, of data payload api "from"] show ?thesis
      by (simp add: handle_incoming_def)
  next
    case Syn
    with Some tp show ?thesis
      by (auto simp: numeral_eq_Suc rx_dispatch_def handle_incoming_def on_syn_def syn_create_def Let_def
          split: option.splits sum.splits prod.splits)
  next
    case SynAck
    with Some tp show ?thesis
      by (simp add: numeral_eq_Suc rx_dispatch_def handle_incoming_def split: prod.splits)
  next
    case Reset
    with Some tp show ?thesis
      by (simp add: numeral_eq_Suc rx_dispatch_def handle_incoming_def on_reset_def reset_remove_def
          split: option.splits)
  qed
qed

lemma tick_alone_done [simp]: "tick_alone api n (TickDone, p) = (TickDone, p)"
  by (induction n) simp_all

text \<open>The three critical sections of the visit of one session.\<close>

lemma tick_alone_visit:
  assumes h: "h < length (arena p)"
    and ts: "on_session (tick_session api (config p) now_ms now) h p = (rm, p')"
  shows "\<exists>k \<le> 3. \<forall>n. tick_alone api (k + n) (TickScan now_ms now ((can, h) # es) rms, p) =
    tick_alone api n (TickScan now_ms now es (if rm then rms @ [can] else rms), p')"
proof (cases "closed (sess p h)")
  case True
  then have "rm = False" "p' = p" using ts by (simp_all add: on_session_def tick_session_def set_sess_def sess_def)
  with True show ?thesis by (intro exI [of _ 1]) simp
next
  case False
  obtain r1 s1 w1 where up: "session_update api now_ms (sess p h) (plat p) = (r1, s1, w1)" by (metis prod_cases3)
  obtain r2 s2 w2 where mr: "maybe_retry_syn (config p) now s1 w1 = (r2, s2, w2)" by (metis prod_cases3)
  show ?thesis
  proof (cases "r1 = Inl DeadLink")
    case True
    with False up ts show ?thesis
      by (intro exI [of _ 1]) (auto simp: on_session_def tick_session_def)
  next
    case ne1: False
    show ?thesis
    proof (cases "r2 = Inl DeadLink")
      case True
      with False ne1 up mr ts h show ?thesis
        by (intro exI [of _ 2])
          (auto simp: numeral_2_eq_2 on_session_def tick_session_def set_sess_def sess_def)
    next
      case ne2: False
      with False ne1 up mr ts h show ?thesis
        by (intro exI [of _ 3])
          (auto simp: numeral_3_eq_3 on_session_def tick_session_def set_sess_def sess_def Let_def split: if_splits)
    qed
  qed
qed

lemma tick_alone_scan:
  assumes "tick_scan api now_ms now es p = (rms, p')" and "\<forall>(c, h) \<in> set es. h < length (arena p)"
  shows "\<exists>k \<le> 3 * length es + 1. \<forall>n. tick_alone api (k + n) (TickScan now_ms now es rms0, p) =
    tick_alone api n (TickPrune (rms0 @ rms), p')"
  using assms
proof (induction es arbitrary: p rms rms0)
  case Nil
  then show ?case by (intro exI [of _ 1]) simp
next
  case (Cons e es)
  obtain c h where e: "e = (c, h)" by fastforce
  obtain rm p1 where ts: "on_session (tick_session api (config p) now_ms now) h p = (rm, p1)" by fastforce
  obtain rms2 where rec: "tick_scan api now_ms now es p1 = (rms2, p')"
    and rms: "rms = (if rm then c # rms2 else rms2)"
    using Cons.prems(1) e ts by (auto split: prod.splits)
  have h: "h < length (arena p)" using Cons.prems(2) e by simp
  have "\<forall>(c, h) \<in> set es. h < length (arena p1)"
    using Cons.prems(2) on_session_sel(2) [OF ts] by simp
  from Cons.IH [OF rec this] obtain k2 where k2: "k2 \<le> 3 * length es + 1"
    "\<And>n. tick_alone api (k2 + n) (TickScan now_ms now es (if rm then rms0 @ [c] else rms0), p1) =
       tick_alone api n (TickPrune ((if rm then rms0 @ [c] else rms0) @ rms2), p')" by blast
  from tick_alone_visit [OF h ts, of c es rms0] obtain k1 where k1: "k1 \<le> 3"
    "\<And>n. tick_alone api (k1 + n) (TickScan now_ms now ((c, h) # es) rms0, p) =
       tick_alone api n (TickScan now_ms now es (if rm then rms0 @ [c] else rms0), p1)" by blast
  show ?case
    using k1 k2 rms e by (intro exI [of _ "k1 + k2"]) (auto simp: add.assoc)
qed

lemma tick_alone_prune:
  "tick_alone api (length rms + 1 + n) (TickPrune rms, p) = (TickDone, fold prune_one rms p)"
  by (induction rms arbitrary: p) simp_all

lemma tick_scan_length: "tick_scan api now_ms now es p = (rms, p') \<Longrightarrow> length rms \<le> length es"
  by (induction es arbitrary: p rms) (fastforce split: prod.splits if_splits)+

lemma tick_alone_eq:
  assumes "wf_peer p"
  shows "tick_alone api (4 * length (sessions p) + 4) (TickFire, p) = (TickDone, update_tick api p)"
proof (cases "sessions p = []")
  case True
  then show ?thesis by (simp add: numeral_eq_Suc update_tick_def)
next
  case False
  obtain now_ms w1 where cm: "current_ms (plat p) = (now_ms, w1)" by fastforce
  obtain now w2 where ep: "epoch_ms w1 = (now, w2)" by fastforce
  obtain rms p1 where sc: "tick_scan api now_ms now (sessions p) (p\<lparr>plat := w2\<rparr>) = (rms, p1)" by fastforce
  have "\<forall>(c, h) \<in> set (sessions p). h < length (arena (p\<lparr>plat := w2\<rparr>))"
    using assms by (auto simp: wf_peer_def)
  from tick_alone_scan [OF sc this, of "[]"] obtain k where k: "k \<le> 3 * length (sessions p) + 1"
    "\<And>n. tick_alone api (k + n) (TickScan now_ms now (sessions p) [], p\<lparr>plat := w2\<rparr>) =
       tick_alone api n (TickPrune rms, p1)" by auto
  have len: "length rms \<le> length (sessions p)" using tick_scan_length [OF sc] .
  define m where "m = 4 * length (sessions p) + 2 - k - (length rms + 1)"
  have n: "4 * length (sessions p) + 4 = Suc (Suc (k + (length rms + 1 + m)))"
    using k(1) len unfolding m_def by simp
  have "tick_alone api (4 * length (sessions p) + 4) (TickFire, p) =
      tick_alone api (k + (length rms + 1 + m)) (TickScan now_ms now (sessions p) [], p\<lparr>plat := w2\<rparr>)"
    unfolding n using False cm ep by simp
  also have "\<dots> = (TickDone, fold prune_one rms p1)" unfolding k(2) tick_alone_prune ..
  finally show ?thesis using False cm ep sc by (simp add: update_tick_def)
qed

section \<open>What holds at every lock\<close>

text \<open>
  The map at the granularity of the locks, with the addresses \<open>R\<close> whose session is about to be
  replaced: between the closing of a restarted peer's session and the insertion of its successor the
  map holds a closed session.
\<close>

definition map_ok :: "canonical_addr set \<Rightarrow> 'k kcp_peer \<Rightarrow> bool" where
  "map_ok R p \<longleftrightarrow> table_ok (sessions p) \<and>
     (\<forall>can h. hm_get (sessions p) can = Some h \<longrightarrow>
        h < length (arena p) \<and> session_at can (sess p h) \<and> (closed (sess p h) \<longrightarrow> can \<in> R))"

text \<open>
  What the other tasks may rely on: sessions are neither freed nor redirected nor reopened, and a
  session that has left the map never comes back.
\<close>

definition evolves :: "'k kcp_peer \<Rightarrow> 'k kcp_peer \<Rightarrow> bool" where
  "evolves p p' \<longleftrightarrow> length (arena p) \<le> length (arena p') \<and>
     (\<forall>h < length (arena p). peer_addr (sess p' h) = peer_addr (sess p h) \<and>
        out_peer (out_adapter (inner (sess p' h))) = out_peer (out_adapter (inner (sess p h))) \<and>
        (closed (sess p h) \<longrightarrow> closed (sess p' h))) \<and>
     (\<forall>can h. hm_get (sessions p') can = Some h \<longrightarrow> h < length (arena p) \<longrightarrow> hm_get (sessions p) can = Some h)"

text \<open>
  The contract of a task: what it knows of the peer is stable under the steps of the others, and its
  own steps keep it, keep the map and give the others what they rely on. \<open>claims\<close> are the addresses
  whose session the task is replacing.
\<close>

locale task =
  fixes knows :: "'k kcp_peer \<Rightarrow> 'c \<Rightarrow> bool" and claims :: "'c \<Rightarrow> canonical_addr set"
    and step :: "'c \<Rightarrow> 'k kcp_peer \<Rightarrow> 'c \<Rightarrow> 'k kcp_peer \<Rightarrow> bool"
  assumes stable: "evolves p p' \<Longrightarrow> knows p c \<Longrightarrow> knows p' c"
    and own_step: "map_ok (claims c \<union> R) p \<Longrightarrow> knows p c \<Longrightarrow> step c p c' p' \<Longrightarrow>
      knows p' c' \<and> evolves p p' \<and> map_ok (claims c' \<union> R) p'"
begin

text \<open>A step seen by the rest of the system, whose knowledge \<open>K\<close> is stable.\<close>

lemma step_keeps:
  assumes "map_ok (claims c \<union> R) p" and "knows p c" and "K p" and "step c p c' p'"
    and "\<And>q q'. evolves q q' \<Longrightarrow> K q \<Longrightarrow> K q'"
  shows "knows p' c' \<and> map_ok (claims c' \<union> R) p' \<and> K p'"
  using own_step [OF assms(1,2,4)] assms(3,5) by blast

end

lemma evolves_refl [simp, intro]: "evolves p p"
  by (simp add: evolves_def)

lemma evolves_trans: "evolves p p' \<Longrightarrow> evolves p' p'' \<Longrightarrow> evolves p p''"
  by (auto simp: evolves_def)

lemma evolves_upd [simp]:
  "evolves p (p'\<lparr>plat := w\<rparr>) = evolves p p'" "evolves p (p'\<lparr>pending_data := ms\<rparr>) = evolves p p'"
  "evolves p (p'\<lparr>data_notify := b\<rparr>) = evolves p p'" "evolves p (emit ev p') = evolves p p'"
  "evolves p (send_resets c d p') = evolves p p'"
  "evolves (p\<lparr>plat := w\<rparr>) p' = evolves p p'"
  by (simp_all add: evolves_def)

lemma map_ok_upd [simp]:
  "map_ok R (p\<lparr>plat := w\<rparr>) = map_ok R p" "map_ok R (p\<lparr>pending_data := ms\<rparr>) = map_ok R p"
  "map_ok R (p\<lparr>data_notify := b\<rparr>) = map_ok R p" "map_ok R (emit ev p) = map_ok R p"
  "map_ok R (send_resets c d p) = map_ok R p"
  by (simp_all add: map_ok_def)

lemma map_ok_mono: "map_ok R p \<Longrightarrow> R \<subseteq> R' \<Longrightarrow> map_ok R' p"
  by (auto simp: map_ok_def)

lemma map_ok_lookup:
  assumes "map_ok R p" and "hm_get (sessions p) can = Some h"
  shows "h < length (arena p)" "session_at can (sess p h)" "closed (sess p h) \<Longrightarrow> can \<in> R"
  using assms by (auto simp: map_ok_def)

lemma map_ok_inj:
  "map_ok R p \<Longrightarrow> hm_get (sessions p) can = Some h \<Longrightarrow> hm_get (sessions p) can' = Some h \<Longrightarrow> can' = can"
  by (auto simp: map_ok_def session_at_def)

text \<open>The kinds of changes the critical sections make.\<close>

lemma keep_set_sess:
  assumes ok: "map_ok R p" and h: "h < length (arena p)" and id: "same_identity (sess p h) s"
  shows "evolves p (set_sess h s p) \<and> map_ok R (set_sess h s p)"
proof
  show "evolves p (set_sess h s p)"
    using id h by (auto simp: evolves_def sess_set_sess same_identity_def)
  show "map_ok R (set_sess h s p)"
    using ok id h by (auto simp: map_ok_def sess_set_sess same_identity_def session_at_def)
qed

lemma keep_on_session:
  assumes ok: "map_ok R p" and h: "h < length (arena p)" and run: "on_session f h p = (r, p')"
    and f: "\<And>r s w. f (sess p h) (plat p) = (r, s, w) \<Longrightarrow> same_identity (sess p h) s"
  shows "evolves p p' \<and> map_ok R p'"
proof -
  obtain s w where "f (sess p h) (plat p) = (r, s, w)" and "p' = set_sess h s (p\<lparr>plat := w\<rparr>)"
    using run by (auto simp: on_session_def split: prod.splits)
  with keep_set_sess [of R "p\<lparr>plat := w\<rparr>" h s] ok h f show ?thesis by simp
qed

lemma keep_insert:
  assumes ok: "map_ok R p" and s: "session_at can s" "\<not> closed s"
    and q: "q = p\<lparr>arena := arena p @ [s], sessions := hm_insert can (length (arena p)) (sessions p)\<rparr>"
  shows "evolves p q \<and> map_ok (R - {can}) q"
proof -
  have sess: "sess q h = (if h = length (arena p) then s else sess p h)" if "h \<le> length (arena p)" for h
    using that by (auto simp: q sess_def nth_append)
  have get: "hm_get (sessions q) c = (if c = can then Some (length (arena p)) else hm_get (sessions p) c)" for c
    by (simp add: q hm.get_ins)
  have len: "length (arena q) = Suc (length (arena p))" and tab: "table_ok (sessions q)"
    using ok by (simp_all add: q map_ok_def hm.ok_ins)
  have "evolves p q"
    unfolding evolves_def get len using sess by auto
  moreover have "map_ok (R - {can}) q"
    unfolding map_ok_def get len using map_ok_lookup [OF ok] s tab
    by (auto simp: sess less_imp_le less_SucI)
  ultimately show ?thesis by blast
qed

lemma keep_forget:
  assumes ok: "map_ok R p" and q: "q = p\<lparr>sessions := hm_remove can (sessions p)\<rparr>"
  shows "evolves p q \<and> map_ok R q \<and> (\<forall>h. hm_get (sessions p) can = Some h \<longrightarrow> (\<forall>c. hm_get (sessions q) c \<noteq> Some h))"
  using ok map_ok_inj [OF ok] unfolding q
  by (auto simp: evolves_def map_ok_def hm.get_rem hm.ok_rem)

lemma keep_close:
  assumes ok: "map_ok R p" and h: "h < length (arena p)"
    and un: "\<And>can. hm_get (sessions p) can = Some h \<Longrightarrow> can \<in> R"
  shows "evolves p (close_session h p) \<and> map_ok R (close_session h p)"
  using ok h un by (auto simp: evolves_def map_ok_def sess_close_session session_at_def)

lemma keep_remove:
  assumes ok: "map_ok R p" and get: "hm_get (sessions p) can = Some h"
  shows "evolves p (close_session h (p\<lparr>sessions := hm_remove can (sessions p)\<rparr>)) \<and>
    map_ok R (close_session h (p\<lparr>sessions := hm_remove can (sessions p)\<rparr>))"
proof -
  define q where "q = p\<lparr>sessions := hm_remove can (sessions p)\<rparr>"
  note f = keep_forget [OF ok q_def]
  have "h < length (arena q)" using map_ok_lookup(1) [OF ok get] by (simp add: q_def)
  with keep_close [of R q h] f get show ?thesis unfolding q_def [symmetric] by (blast intro: evolves_trans)
qed

text \<open>The calls of \<^verbatim>\<open>send\<close>.\<close>

lemma evolves_pc_ok: "evolves p p' \<Longrightarrow> pc_ok call p c \<Longrightarrow> pc_ok call p' c"
  using pc_ok_grow unfolding evolves_def by blast

lemma send_atomic_keeps:
  assumes ok: "map_ok R p" and pc: "pc_ok call p c" and run: "send_atomic api call c p = (c', p')"
  shows "pc_ok call p' c' \<and> evolves p p' \<and> map_ok R p'"
proof (cases c)
  case Lookup
  with run ok show ?thesis by (auto simp: pc_ok_def dest: map_ok_lookup(1) split: option.splits)
next
  case Check
  obtain s w where no: "new_outbound api (call_conv call) (call_peer call) (own_incarnation p) (config p) (plat p) = (s, w)"
    by fastforce
  with Check run ok session_at_new_outbound(1,2) [OF no] show ?thesis
    by (auto simp: pc_ok_def dest: map_ok_lookup(1) split: option.splits)
next
  case (Insert s)
  let ?can = "canonicalize (call_peer call)"
  have s: "session_at ?can s" "\<not> closed s" using pc Insert by (simp_all add: pc_ok_def)
  show ?thesis
  proof (cases "hm_get (sessions p) ?can")
    case None
    with Insert run have "c' = SynDue (length (arena p))"
      "p' = p\<lparr>arena := arena p @ [s], sessions := hm_insert ?can (length (arena p)) (sessions p)\<rparr>"
      by (auto simp: initiate_defs)
    with keep_insert [OF ok s this(2)] show ?thesis by (auto simp: pc_ok_def intro: map_ok_mono)
  next
    case (Some h)
    with Insert run ok show ?thesis by (auto simp: initiate_insert_def pc_ok_def dest: map_ok_lookup(1))
  qed
next
  case (SynDue h)
  with run ok pc show ?thesis by (auto simp: pc_ok_def)
next
  case (SynConv h conv)
  with run ok pc show ?thesis by (auto simp: pc_ok_def split: prod.splits sum.splits)
next
  case (SynStore h)
  obtain now w where ep: "epoch_ms (plat p) = (now, w)" by fastforce
  have h: "h < length (arena p)" using SynStore pc by (simp add: pc_ok_def)
  have "on_session (\<lambda>s w. case epoch_ms w of (now, w') \<Rightarrow> ((), s\<lparr>syn_sent_at := now\<rparr>, w')) h p =
      ((), set_sess h ((sess p h)\<lparr>syn_sent_at := now\<rparr>) (p\<lparr>plat := w\<rparr>))" using ep by (simp add: on_session_def)
  from keep_on_session [OF ok h this] have "evolves p p' \<and> map_ok R p'"
    using SynStore run ep by (auto simp: same_identity_def)
  with SynStore run ep h show ?thesis by (auto simp: pc_ok_def)
next
  case (SendDue h)
  obtain r p1 where os: "on_session (send_data api (call_data call)) h p = (r, p1)" by fastforce
  have "h < length (arena p)" using SendDue pc by (simp add: pc_ok_def)
  from keep_on_session [OF ok this os] send_data_frame same_identity_frame SendDue run os
  show ?thesis by (fastforce simp: pc_ok_def)
next
  case (Finished r)
  with run ok show ?thesis by (auto simp: pc_ok_def)
qed

interpretation send_task: task "pc_ok call" "\<lambda>_. {}" "\<lambda>c p c' p'. send_atomic api call c p = (c', p')" for api call
proof
  show "evolves p p' \<Longrightarrow> pc_ok call p c \<Longrightarrow> pc_ok call p' c" for p p' c by (rule evolves_pc_ok)
qed (use send_atomic_keeps in simp)

text \<open>The update task.\<close>

fun tick_knows :: "'k kcp_peer \<Rightarrow> tick_pc \<Rightarrow> bool" where
  "tick_knows p (TickScan _ _ es _) = (\<forall>(can, h) \<in> set es. h < length (arena p))"
| "tick_knows p (TickRetry _ _ _ h es _) = (h < length (arena p) \<and> (\<forall>(can, h) \<in> set es. h < length (arena p)))"
| "tick_knows p (TickAge _ _ _ h es _) = (h < length (arena p) \<and> (\<forall>(can, h) \<in> set es. h < length (arena p)))"
| "tick_knows p _ = True"

lemma evolves_tick_knows: "evolves p p' \<Longrightarrow> tick_knows p c \<Longrightarrow> tick_knows p' c"
  by (cases "(p, c)" rule: tick_knows.cases) (auto simp: evolves_def)

lemma keep_prune:
  assumes "map_ok R p"
  shows "evolves p (prune_one can p) \<and> map_ok R (prune_one can p)"
proof (cases "hm_get (sessions p) can")
  case None
  with assms show ?thesis by (simp add: prune_one_def)
next
  case (Some h)
  have "prune_one can p = emit (Disconnected (peer_addr (sess p h)))
      (send_resets (conv_id (inner (sess p h))) (peer_addr (sess p h))
        (close_session h (p\<lparr>sessions := hm_remove can (sessions p)\<rparr>)))"
    using Some by (simp add: prune_one_def Let_def close_session_def set_sess_def send_resets_def emit_def sess_def)
  with keep_remove [OF assms Some] show ?thesis by simp
qed

lemma map_ok_entries: "map_ok R p \<Longrightarrow> \<forall>(can, h) \<in> set (sessions p). h < length (arena p)"
  using hm.entries_get map_ok_lookup(1) by (fastforce simp: map_ok_def)

lemma keep_update:
  assumes "map_ok R p" and "h < length (arena p)" and "on_session (session_update api now_ms) h p = (r, p')"
  shows "evolves p p' \<and> map_ok R p'"
  by (rule keep_on_session [OF assms]) (use session_update_frame same_identity_frame in blast)

lemma keep_retry:
  assumes "map_ok R p" and "h < length (arena p)" and "on_session (maybe_retry_syn cfg now) h p = (r, p')"
  shows "evolves p p' \<and> map_ok R p'"
  by (rule keep_on_session [OF assms]) (rule maybe_retry_syn_frame(1))

lemma tick_atomic_keeps:
  assumes ok: "map_ok R p" and kn: "tick_knows p c" and run: "tick_atomic api c p = (c', p')"
  shows "tick_knows p' c' \<and> evolves p p' \<and> map_ok R p'"
proof (cases c)
  case TickFire
  with run ok show ?thesis by (auto split: if_splits prod.splits)
next
  case (TickStart ms now)
  with run ok map_ok_entries [OF ok] show ?thesis by auto
next
  case (TickScan ms now es rms)
  show ?thesis
  proof (cases es)
    case (Cons e es')
    obtain can h where e: "e = (can, h)" by fastforce
    obtain r p1 where os: "on_session (session_update api ms) h p = (r, p1)" by fastforce
    have h: "h < length (arena p)" using kn TickScan Cons e by simp
    from keep_update [OF ok h os] run kn TickScan Cons e os ok h on_session_sel(2) [OF os] show ?thesis
      by (auto split: if_splits)
  qed (use TickScan run ok in auto)
next
  case (TickRetry ms now can h es rms)
  obtain r p1 where os: "on_session (maybe_retry_syn (config p) now) h p = (r, p1)" by fastforce
  have h: "h < length (arena p)" using kn TickRetry by simp
  from keep_retry [OF ok h os] run kn TickRetry os h on_session_sel(2) [OF os] show ?thesis
    by (auto split: if_splits)
next
  case (TickAge ms now can h es rms)
  with run ok kn show ?thesis by (auto simp: Let_def split: if_splits)
next
  case (TickPrune rms)
  with run ok keep_prune [OF ok] show ?thesis by (cases rms) auto
qed (use run ok in auto)

interpretation tick_task: task tick_knows "\<lambda>_. {}" "\<lambda>c p c' p'. tick_atomic api c p = (c', p')" for api
proof
  show "evolves p p' \<Longrightarrow> tick_knows p c \<Longrightarrow> tick_knows p' c" for p p' :: "'a kcp_peer" and c
    by (rule evolves_tick_knows)
qed (use tick_atomic_keeps in simp)

text \<open>The receive task.\<close>

fun rx_knows :: "'k kcp_peer \<Rightarrow> 'k rx_pc \<Rightarrow> bool" where
  "rx_knows p (RxTouch h _) = (h < length (arena p))"
| "rx_knows p (RxInput h _) = (h < length (arena p))"
| "rx_knows p (RxDrain h) = (h < length (arena p))"
| "rx_knows p (RxPush h _) = (h < length (arena p))"
| "rx_knows p (RxInsert from s) = (session_at (canonicalize from) s \<and> \<not> closed s)"
| "rx_knows p (RxCheck h _ from) = (h < length (arena p) \<and> session_at (canonicalize from) (sess p h))"
| "rx_knows p (RxRemove h from) = (h < length (arena p) \<and> session_at (canonicalize from) (sess p h))"
| "rx_knows p (RxClose h from) = (h < length (arena p) \<and> (\<forall>can. hm_get (sessions p) can \<noteq> Some h))"
| "rx_knows p _ = True"

text \<open>The address whose session a SYN under way replaces or creates.\<close>

fun replacing :: "'k rx_pc \<Rightarrow> canonical_addr set" where
  "replacing (RxAck conv from r) = (if syn_action r = CreateNew then {canonicalize from} else {})"
| "replacing (RxNew conv from) = {canonicalize from}"
| "replacing (RxInsert from s) = {canonicalize from}"
| "replacing _ = {}"

lemma evolves_rx_knows: "evolves p p' \<Longrightarrow> rx_knows p c \<Longrightarrow> rx_knows p' c"
  by (cases "(p, c)" rule: rx_knows.cases) (auto simp: evolves_def session_at_def)

lemma keep_establish:
  assumes ok: "map_ok R p" and get: "hm_get (sessions p) can = Some h" and id: "same_identity (sess p h) s"
    and es: "establish api s (plat p) = (s', w)"
  shows "evolves p (set_sess h s' (p\<lparr>plat := w\<rparr>)) \<and> map_ok R (set_sess h s' (p\<lparr>plat := w\<rparr>))"
  using keep_set_sess [of R "p\<lparr>plat := w\<rparr>" h s'] ok map_ok_lookup(1) [OF ok get]
    same_identity_trans [OF id establish_frame(1) [OF es]]
  by simp

lemma keep_decide:
  assumes ok: "map_ok R p" and run: "syn_decide api conv from my p = (r, p')"
  shows "evolves p p' \<and> map_ok (replacing (RxAck conv from r) \<union> R) p'"
proof (cases "hm_get (sessions p) (canonicalize from)")
  case None
  with run ok show ?thesis by (auto simp: syn_decide_def intro: map_ok_mono)
next
  case (Some h)
  let ?s = "sess p h"
  let ?s1 = "?s\<lparr>inner := (inner ?s)\<lparr>kcp := api_set_conv api conv (kcp (inner ?s)), conv_id := conv\<rparr>\<rparr>"
  note h = map_ok_lookup(1) [OF ok Some]
  obtain now w where ep: "epoch_ms (plat p) = (now, w)" by fastforce
  obtain s2 w2 where e2: "establish api ?s (plat p) = (s2, w2)" by fastforce
  obtain s3 w3 where e3: "establish api ?s1 (plat p) = (s3, w3)" by fastforce
  note k1 = keep_set_sess [of R "p\<lparr>plat := w\<rparr>" h "?s\<lparr>last_rx := now\<rparr>"]
  note k2 = keep_establish [OF ok Some _ e2]
  note k3 = keep_establish [OF ok Some _ e3]
  have k4: "evolves p (close_session h p) \<and> map_ok (insert (canonicalize from) R) (close_session h p)"
    by (rule keep_close [OF map_ok_mono [OF ok] h]) (use map_ok_inj [OF ok Some] in auto)
  show ?thesis
    using run Some ep e2 e3 k1 k2 k3 k4 ok h
    by (auto simp: syn_decide_def Let_def same_identity_def split: if_splits)
qed

lemma keep_syn_ack:
  assumes ok: "map_ok R p" and run: "on_syn_ack api payload from p = (r, p')"
  shows "evolves p p' \<and> map_ok R p'"
proof (cases "hm_get (sessions p) (canonicalize from)")
  case (Some h)
  obtain s2 w2 where es: "establish api (sess p h) (plat p) = (s2, w2)" by fastforce
  from keep_establish [OF ok Some _ es] run Some es ok show ?thesis
    by (auto simp: on_syn_ack_def Let_def same_identity_def split: option.splits if_splits)
qed (use run ok in \<open>auto simp: on_syn_ack_def split: option.splits\<close>)

lemma keep_dispatch:
  assumes ok: "map_ok R p" and run: "rx_dispatch api data from p = (c, p')"
  shows "rx_knows p' c \<and> evolves p p' \<and> map_ok (replacing c \<union> R) p'"
proof (cases "split_packet data")
  case None
  with run ok show ?thesis by (auto simp: rx_dispatch_def)
next
  case (Some tp)
  obtain t payload where tp: "tp = (t, payload)" by fastforce
  show ?thesis
  proof (cases t)
    case Syn
    with Some tp run ok keep_decide [OF ok] show ?thesis
      by (fastforce simp: rx_dispatch_def split: option.splits sum.splits prod.splits)
  next
    case SynAck
    with Some tp run keep_syn_ack [OF ok] show ?thesis
      by (fastforce simp: rx_dispatch_def split: prod.splits)
  qed (use Some tp run ok map_ok_lookup(1,2) [OF ok] in \<open>auto simp: rx_dispatch_def split: option.splits\<close>)
qed

lemma rx_atomic_keeps:
  assumes ok: "map_ok (replacing c \<union> R) p" and kn: "rx_knows p c" and run: "rx_atomic api c p = Some (c', p')"
  shows "rx_knows p' c' \<and> evolves p p' \<and> map_ok (replacing c' \<union> R) p'"
proof (cases c)
  case (RxPacket data "from")
  with run ok keep_dispatch [of R p api data "from" c' p'] show ?thesis by simp
next
  case (RxTouch h payload)
  obtain now w where ep: "epoch_ms (plat p) = (now, w)" by fastforce
  with RxTouch run ok kn keep_set_sess [of R "p\<lparr>plat := w\<rparr>" h "(sess p h)\<lparr>last_rx := now\<rparr>"] show ?thesis
    by (auto simp: same_identity_def)
next
  case (RxInput h payload)
  obtain r s where si: "session_input api payload (sess p h) = (r, s)" by fastforce
  from same_identity_frame [OF session_input_frame [OF si]] RxInput run ok kn si keep_set_sess [of R p h s]
  show ?thesis by (auto split: sum.splits)
next
  case (RxDrain h)
  then obtain r msgs s where tr: "try_recv_all api [] (sess p h) = Some (r, msgs, s)"
    using run by (auto split: option.splits)
  from same_identity_frame [OF try_recv_all_frame [OF tr]] RxDrain run ok kn tr keep_set_sess [of R p h s]
  show ?thesis by (auto split: sum.splits if_splits)
next
  case (RxAck conv "from" r)
  with run ok show ?thesis by (auto simp: syn_ack_reply_def split: option.splits)
next
  case (RxNew conv "from")
  obtain s w where ni: "new_inbound api conv from (own_incarnation p) (config p) (plat p) = (s, w)" by fastforce
  with session_at_new_inbound(1,2) [OF ni] RxNew run ok show ?thesis by auto
next
  case (RxInsert "from" s)
  let ?can = "canonicalize from"
  have s: "session_at ?can s" "\<not> closed s" using kn RxInsert by simp_all
  from RxInsert run have c': "c' = RxDone (Inr ())"
    and p': "p' = emit (Connected from) (p\<lparr>arena := arena p @ [s], sessions := hm_insert ?can (length (arena p)) (sessions p)\<rparr>)"
    by (auto simp: insert_inbound_def alloc_def)
  from keep_insert [OF ok s refl] c' RxInsert show ?thesis unfolding p' by (auto intro: map_ok_mono)
next
  case (RxRemove h "from")
  let ?can = "canonicalize from" and ?q = "p\<lparr>sessions := hm_remove (canonicalize from) (sessions p)\<rparr>"
  have okR: "map_ok R p" using ok RxRemove by simp
  have "hm_get (sessions ?q) can \<noteq> Some h" for can
    using kn RxRemove map_ok_lookup(2) [OF okR, of can h] by (auto simp: hm.get_rem session_at_def)
  with RxRemove run kn keep_forget [OF okR refl] show ?thesis by auto
next
  case (RxClose h "from")
  with run ok kn keep_close [of R p h] show ?thesis by auto
qed (use run ok kn in auto)

interpretation rx_task: task rx_knows replacing "\<lambda>c p c' p'. rx_atomic api c p = Some (c', p')" for api
proof
  show "evolves p p' \<Longrightarrow> rx_knows p c \<Longrightarrow> rx_knows p' c" for p p' :: "'a kcp_peer" and c
    by (rule evolves_rx_knows)
qed (rule rx_atomic_keeps)

text \<open>The application.\<close>

lemma app_step_keeps:
  assumes "map_ok R p" and "app_step api writes p p'"
  shows "evolves p p' \<and> map_ok R p'"
  using assms(2)
proof cases
  case (app_disconnect peer)
  with assms(1) keep_remove [OF assms(1)] show ?thesis
    by (auto simp: disconnect_def Let_def split: option.splits)
next
  case (app_recv m)
  then obtain ms b where "p' = p\<lparr>pending_data := ms, data_notify := b\<rparr>" using recv_frame by blast
  with assms(1) show ?thesis by simp
next
  case (app_stats peer st)
  then obtain w where "p' = p\<lparr>plat := w\<rparr>" using stats_frame by blast
  with assms(1) show ?thesis by simp
qed

interpretation app_task: task "\<lambda>_ _. True" "\<lambda>_. {}" "\<lambda>(_ :: unit) p _ p'. \<exists>writes. app_step api writes p p'" for api
  by unfold_locales (simp, metis app_step_keeps)

text \<open>All tasks together.\<close>

definition tasks_know :: "(nat \<Rightarrow> send_call) \<Rightarrow> (nat \<Rightarrow> 'k send_pc) \<Rightarrow> 'k rx_pc \<Rightarrow> tick_pc \<Rightarrow> 'k kcp_peer \<Rightarrow> bool" where
  "tasks_know calls pc rx tk p \<longleftrightarrow> (\<forall>i. pc_ok (calls i) p (pc i)) \<and> rx_knows p rx \<and> tick_knows p tk"

definition tasks_ok :: "(nat \<Rightarrow> send_call) \<Rightarrow> 'k tasks \<Rightarrow> bool" where
  "tasks_ok calls = (\<lambda>(pc, rx, tk, p). map_ok (replacing rx) p \<and> tasks_know calls pc rx tk p)"

lemma tasks_know_stable:
  "evolves q q' \<Longrightarrow> tasks_know calls pc rx tk q \<Longrightarrow> tasks_know calls pc rx tk q'"
  unfolding tasks_know_def using send_task.stable rx_task.stable tick_task.stable by blast

lemma tasks_ok_step:
  assumes inv: "tasks_ok calls s" and step: "lock_step api calls s s'"
  shows "tasks_ok calls s'"
  using step
proof cases
  case (lk_send i pc p c p' tk rx)
  then have "map_ok ({} \<union> replacing rx) p" "pc_ok (calls i) p (pc i)" "tasks_know calls pc rx tk p"
    using inv by (simp_all add: tasks_ok_def tasks_know_def)
  from send_task.step_keeps [where K = "tasks_know calls pc rx tk", OF this lk_send(3) tasks_know_stable] lk_send(2) show ?thesis
    by (simp add: tasks_ok_def tasks_know_def)
next
  case (lk_rx rx p rx' p' tk pc)
  then have "map_ok (replacing rx \<union> {}) p" "rx_knows p rx" "tasks_know calls pc (RxDone (Inr ())) tk p"
    using inv by (simp_all add: tasks_ok_def tasks_know_def)
  from rx_task.step_keeps [where K = "tasks_know calls pc (RxDone (Inr ())) tk", OF this lk_rx(3) tasks_know_stable] lk_rx(2) show ?thesis
    by (simp add: tasks_ok_def tasks_know_def)
next
  case (lk_tick tk p tk' p' pc rx)
  then have "map_ok ({} \<union> replacing rx) p" "tick_knows p tk" "tasks_know calls pc rx TickDone p"
    using inv by (simp_all add: tasks_ok_def tasks_know_def)
  from tick_task.step_keeps [where K = "tasks_know calls pc rx TickDone", OF this lk_tick(3) tasks_know_stable] lk_tick(2) show ?thesis
    by (simp add: tasks_ok_def tasks_know_def)
next
  case (lk_app writes p p' tk pc rx)
  then have "map_ok ({} \<union> replacing rx) p" "tasks_know calls pc rx tk p" "\<exists>writes. app_step api writes p p'"
    using inv by (auto simp: tasks_ok_def)
  from app_task.step_keeps [where K = "tasks_know calls pc rx tk", OF this(1) _ this(2,3) tasks_know_stable] lk_app(2) show ?thesis
    by (simp add: tasks_ok_def)
qed (use inv in \<open>simp_all add: tasks_ok_def tasks_know_def\<close>)

definition tasks_init :: "'k tasks \<Rightarrow> bool" where
  "tasks_init = (\<lambda>(pc, rx, tk, p). bound_peer p \<and> (\<forall>i. pc i = Lookup) \<and> rx = RxDone (Inr ()) \<and> tk = TickDone)"

interpretation tasks: invariant_of tasks_init "lock_step api calls" "tasks_ok calls" for api calls
proof
  fix s :: "'a tasks"
  assume "tasks_init s"
  then show "tasks_ok calls s"
    using peer_ok_bound by (auto simp: tasks_init_def tasks_ok_def tasks_know_def pc_ok_def map_ok_def peer_ok_def
        dest: wf_table_ok wf_lookup)
qed (fact tasks_ok_step)

lemma rx_alone_steps:
  assumes "rx_alone api n (rx, p) = Some (rx', p')"
  shows "(lock_step api calls)\<^sup>*\<^sup>* (pc, rx, TickDone, p) (pc, rx', TickDone, p')"
  using assms
proof (induction n arbitrary: rx p)
  case (Suc n)
  then obtain rx1 p1 where at: "rx_atomic api rx p = Some (rx1, p1)" and "rx_alone api n (rx1, p1) = Some (rx', p')"
    by (auto split: option.splits)
  from lk_rx [OF at] have "lock_step api calls (pc, rx, TickDone, p) (pc, rx1, TickDone, p1)" by simp
  with Suc.IH [OF \<open>rx_alone api n (rx1, p1) = Some (rx', p')\<close>] show ?case
    by (blast intro: converse_rtranclp_into_rtranclp)
qed simp

section \<open>Properties\<close>

text \<open>
  The critical sections compose to the operations: undisturbed, the steps of a \<^verbatim>\<open>send\<close>
  call, of the receive task on one datagram and of the update task on one tick end in the result and the
  state of the atomic definitions, in at most seven, six and \<open>4 n + 4\<close> steps for \<open>n\<close> sessions.
\<close>

theorem lock_steps_compose:
  assumes "wf_peer p"
  shows "send_alone api call 7 (Lookup, p) =
      (case send api (call_conv call) (call_peer call) (call_data call) p of (r, p') \<Rightarrow> (Finished r, p')) \<and>
    rx_alone api 6 (RxPacket data from, p) =
      map_option (\<lambda>(r, p'). (RxDone r, p')) (handle_incoming api data from p) \<and>
    tick_alone api (4 * length (sessions p) + 4) (TickFire, p) = (TickDone, update_tick api p)"
  using rx_alone_eq [OF assms] tick_alone_eq [OF assms] send_alone_eq by blast

theorem lock_steps_compose_witness:
  "wf_peer demo_up \<and>
   rx_alone (mini_api to_le_bytes) 6 (RxPacket (encode_control Reset 7) (V4 2 9000), demo_up) =
     Some (RxDone (Inr ()), reset_remove 0 (V4 2 9000) demo_up)"
proof -
  have "conv_id (inner (sess demo_up 0)) = 7"
    using demo_up_moves view_Some [of demo_up "CanonicalAddr (V4 2 9000)" 0] by (simp add: moves_def link_of_cases)
  then have "handle_incoming (mini_api to_le_bytes) (encode_control Reset 7) (V4 2 9000) demo_up =
      Some (Inr (), reset_remove 0 (V4 2 9000) demo_up)"
    using read_conv_to_le_bytes [of 7 "[]"] by (simp add: handle_incoming_def on_reset_def)
  with lock_steps_compose [OF demo_up_sel(1), of "mini_api to_le_bytes" "\<lparr>call_peer = V4 2 9000, call_data = [1], call_conv = 7\<rparr>"
      "encode_control Reset 7" "V4 2 9000"]
  show ?thesis by simp
qed

text \<open>
  C16. What survives every interleaving. At whatever point the tasks stop between two critical sections,
  with any number of \<^verbatim>\<open>send\<close> calls, a datagram, a tick and a \<^verbatim>\<open>disconnect\<close>
  under way, the map has one entry per canonical address, each for an allocated session of exactly
  that address whose output goes there; and a session in the map is open, unless the receive task is
  just replacing it after a SYN from that address. When the receive task is between two datagrams,
  every session in the map is open.
\<close>

theorem interleaved_map_consistent:
  assumes "tasks_init s" and "(lock_step api calls)\<^sup>*\<^sup>* s (pc, rx, tk, p)"
  shows "table_ok (sessions p) \<and>
    (\<forall>can h. hm_get (sessions p) can = Some h \<longrightarrow>
       h < length (arena p) \<and> session_at can (sess p h) \<and>
       (closed (sess p h) \<longrightarrow> can \<in> replacing rx) \<and> (rx = RxDone r \<longrightarrow> \<not> closed (sess p h)))"
proof -
  have "map_ok (replacing rx) p" using tasks.reach_inv [OF assms] by (simp add: tasks_ok_def)
  then show ?thesis by (auto simp: map_ok_def)
qed

theorem interleaved_map_consistent_witness:
  "\<exists>r. (lock_step (mini_api to_le_bytes) (\<lambda>_. \<lparr>call_peer = V4 2 9000, call_data = [1], call_conv = 7\<rparr>))\<^sup>*\<^sup>*
     (\<lambda>_. Lookup, RxDone (Inr ()), TickDone, demo_peer (V4 1 9000)) (\<lambda>_. Lookup, RxDone r, TickDone, demo_up) \<and>
   session_at (CanonicalAddr (V4 2 9000)) (sess demo_up 0) \<and> \<not> closed (sess demo_up 0)"
proof -
  let ?calls = "\<lambda>_. \<lparr>call_peer = V4 2 9000, call_data = [1], call_conv = 7\<rparr>" and ?api = "mini_api to_le_bytes" and ?p = "demo_peer (V4 1 9000)" and ?syn = "encode_control Syn 7"
  let ?s = "(\<lambda>_. Lookup, RxDone (Inr ()), TickDone, ?p)"
  obtain r where "handle_incoming ?api ?syn (V4 2 9000) ?p = Some (r, demo_up)"
    by (simp add: handle_incoming_def demo_up_def) (metis surjective_pairing)
  with rx_alone_eq [OF demo_peer_sel(1)] have "rx_alone ?api 6 (RxPacket ?syn (V4 2 9000), ?p) = Some (RxDone r, demo_up)"
    by simp
  from rx_alone_steps [OF this] lk_arrive
  have run: "(lock_step ?api ?calls)\<^sup>*\<^sup>* ?s (\<lambda>_. Lookup, RxDone r, TickDone, demo_up)"
    by (meson converse_rtranclp_into_rtranclp)
  have "tasks_init ?s" using demo_peer_bind by (auto simp: tasks_init_def bound_peer_def)
  from interleaved_map_consistent [OF this run, of r]
  have "session_at (CanonicalAddr (V4 2 9000)) (sess demo_up 0) \<and> \<not> closed (sess demo_up 0)"
    using demo_up_sel(2) by blast
  with run show ?thesis by blast
qed

end
