(* ===== verification/Spec2Isabelle.thy ===== *)
theory Spec2Isabelle
  imports Lossy_Net Stream_Delivery Duplex_Run Gossip_Run Recv_Tasks Cancel_Safety Lock_Steps
begin

text \<open>
  A verification development of kcp-peer, a symmetric peer-to-peer transport over one UDP socket
  (\<^verbatim>\<open>src/src/*.rs\<close>).

  \<^bold>\<open>The program.\<close> A \<^verbatim>\<open>KcpPeer\<close> (\<^verbatim>\<open>transport.rs\<close>) owns the socket and a
  map from canonical addresses to sessions. A \<^verbatim>\<open>Session\<close> (\<^verbatim>\<open>session.rs\<close>)
  wraps one KCP instance, whose frames go out through an output adapter that prefixes a type byte. The
  first \<^verbatim>\<open>send\<close> to an address creates a session and sends a SYN; the receive task routes every
  datagram (\<^verbatim>\<open>packet.rs\<close>) to KCP or to the handshake; the update task drives KCP, retries
  SYNs and prunes sessions. Received messages wait in a queue for \<^verbatim>\<open>recv\<close>; connections and
  disconnections are reported as events, to which an application subscribes.
  \<^verbatim>\<open>config.rs\<close> holds the parameters, \<^verbatim>\<open>error.rs\<close> the errors;
  \<^verbatim>\<open>src/examples\<close> are programs that use the peer.

  \<^bold>\<open>The theories.\<close>
  \<^item> \<open>Prelude\<close>: machine integers as words, durations in nanoseconds, results, shared lemmas.
  \<^item> \<open>Packet\<close> (\<^verbatim>\<open>packet.rs\<close>): types, encoding, splitter; a locale \<open>codec\<close> with
    interpretations for the type byte, the little-endian id and the control packet.
  \<^item> \<open>Net_Addr\<close> (\<^verbatim>\<open>canonicalize\<close>): socket addresses, their order, canonical form.
  \<^item> \<open>Platform\<close> (\<^verbatim>\<open>error.rs\<close>, the clock functions of \<^verbatim>\<open>session.rs\<close>):
    errors; the clock and the socket as a record of oracles with a log of the datagrams offered to the
    socket (\<open>offered\<close>), of which it took those whose send succeeded (\<open>sent\<close>); an \<open>accepting\<close>
    socket takes all.
  \<^item> \<open>Kcp_Api\<close>: the KCP crate, not part of the repository, as a record of operations. An operation that
    writes is a program over that one effect, run with the adapter of the session. The contracts
    \<open>kcp_recv_laws\<close> and \<open>kcp_mtu_law\<close> are hypotheses where they are needed; the instance
    \<open>mini_api\<close> satisfies them and is what the witnesses run.
  \<^item> \<open>Config\<close> (\<^verbatim>\<open>config.rs\<close>): parameters, defaults, builder; a locale for builder fields.
  \<^item> \<open>Session\<close> (\<^verbatim>\<open>session.rs\<close>): adapter, state, constructors, operations; frame lemmas that
    say what KCP can change and write; the retry schedule.
  \<^item> \<open>Addr_Table\<close>: the session map; the locale \<open>addr_table\<close> is the contract of a map, interpreted on
    association lists with distinct keys.
  \<^item> \<open>Transport\<close>, \<open>Incoming\<close>, \<open>Update_Task\<close> (\<^verbatim>\<open>transport.rs\<close>): the peer and its
    public operations, the receive path by packet type, the tick. An \<^verbatim>\<open>Arc<Session>\<close> is a handle
    into an arena from which nothing is ever removed, so a session outlives its entry in the map.
  \<^item> \<open>Peer_Inv\<close>: the invariant \<open>wf_peer\<close> and its rules.
  \<^item> \<open>Lifecycle\<close>: the abstract link machine (\<open>NoLink\<close>, \<open>Opening\<close>, \<open>Up\<close>), the view of a
    peer as one link per address, and the refinement of the receive path, of \<^verbatim>\<open>send\<close> and of
    \<^verbatim>\<open>disconnect\<close> to it, with the results, termination and isolation of the handler.
  \<^item> \<open>Tick_Spec\<close>: what a tick removes, fires and sends.
  \<^item> \<open>Peer_Steps\<close>: the peer as a transition system; the locale \<open>invariant_of\<close>, interpreted for
    well-formedness and for the protocol of the events; \<^verbatim>\<open>recv\<close>, \<^verbatim>\<open>peers\<close>,
    \<^verbatim>\<open>shutdown\<close>.
  \<^item> \<open>Two_Peers\<close>: the restart of a peer seen by the other, and the packets that make the two sides
    disagree or stall.
  \<^item> \<open>Duplex_Net\<close>: two peers joined by channels that carry what the sockets took and keep the order,
    with both applications sending at any time, ids from disjoint sets, accepting sockets and no ticks; the shapes of a handshake as an invariant of all interleavings, its end by a decreasing
    rank, and what a step adds to the log of the socket.
  \<^item> \<open>First_Message\<close>: the message of a first \<^verbatim>\<open>send\<close> on its way through the handshake to
    the \<^verbatim>\<open>recv\<close> of the other peer. What KCP contributes is the hypothesis \<open>kcp_ships\<close>.
  \<^item> \<open>Event_Stream\<close> (\<^verbatim>\<open>events()\<close>): the subscription. The broadcast channel is a
    parameter with the law \<open>broadcast_law\<close>; the instance \<open>queue_api\<close> satisfies it.
  \<^item> \<open>Send_Tasks\<close>: calls of \<^verbatim>\<open>send\<close> as state machines with one step per critical section,
    \<^verbatim>\<open>send_syn\<close> split at its lock, its awaited send and its store, interleaved with each other and with all other operations; two races of the receive path.
  \<^item> \<open>Lock_Steps\<close>: the receive task and the update task at the same granularity, interleaved with
    the calls of \<^verbatim>\<open>send\<close> and the application. The locale \<open>task\<close> is the contract of a
    task, what it knows, what the others may rely on and which addresses it is replacing, interpreted for
    the four kinds of tasks; the steps of each compose to its atomic operation.
  \<^item> \<open>Lossy_Net\<close>: two peers over a network that may deliver any datagram ever offered to a socket, any
    number of times, which includes everything the sockets took and more, with ticks, retries and
    disconnects; opening from one side agrees and can always finish, with accepting sockets by datagrams
    the sockets took.
  \<^item> \<open>Recv_Tasks\<close>: concurrent calls of \<^verbatim>\<open>recv\<close> as state machines with one step per lock
    or poll, and the receive task between its append and its notification. The \<^verbatim>\<open>Notify\<close> of
    tokio is a parameter with the law \<open>notify_law\<close>; the instance \<open>fifo_api\<close> satisfies it.
    \<open>invariant_of\<close> is interpreted for what is handed out and for the wake-ups.
  \<^item> \<open>Cancel_Safety\<close>: what a call of \<^verbatim>\<open>send\<close> that is dropped before its SYN leaves behind,
    and how the next call and the next tick make it good.
  \<^item> \<open>Examples\<close> (\<^verbatim>\<open>src/examples\<close>): the loops and tasks of the echo, duplex and gossip
    programs over the public operations.
  \<^item> \<open>Echo_Run\<close>, \<open>Duplex_Run\<close>, \<open>Gossip_Run\<close>: the \<^verbatim>\<open>main\<close> functions of the
    three programs, which succeed when the datagrams arrive: a restarted client, two SYNs that cross, one
    socket with two neighbours. What KCP contributes are the hypotheses \<open>kcp_echoes\<close>,
    \<open>kcp_crosses\<close> and \<open>kcp_calls\<close>, that the frames of a message make the other instance of
    the conversation deliver it.
  \<^item> \<open>Stream_Delivery\<close>: a sequence of messages over an established link, as many as KCP's send window
    has room for while no acknowledgement comes back. What KCP contributes is the hypothesis
    \<open>kcp_window\<close>, a relation between the two instances of a conversation that counts the room left, at
    the clock readings of the calls; the instance \<open>win_api\<close> has a finite window and satisfies it.
  \<^item> This theory: properties that span the receive path, \<^verbatim>\<open>recv\<close>, \<^verbatim>\<open>send\<close> and the tick.

  \<^bold>\<open>Bounds.\<close> The only loop whose end depends on KCP is the drain of its receive queue: it is a partial
  function, so that not ending is \<open>None\<close>, and proved to end under \<open>kcp_recv_laws\<close>; the handler
  and the receive task inherit the option. \<^verbatim>\<open>recv\<close> terminates because a wait needs a stored
  permit. The background tasks are functions of the list of socket results and of the number of ticks.
  Conversation ids, times and counters are words of their width: the backoff bound assumes that the
  largest wait fits 64 bits, which keeps the shift exact; without it the shift wraps as in a release
  build. \<^verbatim>\<open>usize\<close> is a natural number.

  A drain of the channels of \<open>Duplex_Net\<close> ends by the rank of the handshake and then the number of
  datagrams in flight. The event drain of the echo server is a partial function, proved to return under
  \<open>broadcast_law\<close>.

  \<^bold>\<open>What is not modelled.\<close> KCP itself; tokio's scheduling, timers, broadcast channel and
  \<^verbatim>\<open>Notify\<close>, and the memory orderings of the atomics; log output, \<^verbatim>\<open>Debug\<close> and
  \<^verbatim>\<open>Display\<close>; the re-exports of \<^verbatim>\<open>lib.rs\<close>; the panics of tokio on an event channel
  of capacity zero or a tick interval of zero. An operation of the peer is one step except in
  \<open>Send_Tasks\<close>, \<open>Recv_Tasks\<close> and \<open>Lock_Steps\<close>; there a region under the lock of one session is one
  step, also where a second reader of the map could run beside it. The \<^verbatim>\<open>main\<close> functions of the
  examples run their tasks in turns: a task runs until it waits, then all datagrams on the wire arrive, in
  order, and a sleep or a timeout is long enough for that; no tick of the update task runs meanwhile.
  Their sockets, and those of the other runs in which datagrams arrive, take every datagram. Agreement of the two sides is shown for channels
  that keep the order, without ticks, when both sides may open and draw their ids from disjoint sets, and for arbitrary loss, repetition and reordering with
  retries when one side opens; \<open>late_syn_splits\<close> shows that it fails when both open and a SYN is late.
\<close>

section \<open>Helpers\<close>

lemma send_dead:
  assumes "wf_peer p" and "hm_get (sessions p) (canonicalize peer) = Some h" and "dead api (sess p h)"
  shows "send api conv peer data p = (Inl DeadLink, p)"
proof -
  have "set_sess h (sess p h) (p\<lparr>plat := plat p\<rparr>) = p" by (simp add: set_sess_def sess_def)
  with assms wf_lookup(3) [OF assms(1,2)] show ?thesis
    by (simp add: send_def on_session_def send_data_def dead_def)
qed

lemma tick_removes_dead:
  assumes wf: "wf_peer p" and get: "hm_get (sessions p) can = Some h" and dead: "dead api (sess p h)"
  shows "wf_peer (update_tick api p) \<and> view (update_tick api p) can = NoLink"
  using wf refl [of "update_tick api p"]
proof (rule update_tick_spec)
  fix rms
  assume a: "wf_peer (update_tick api p)"
    "\<And>c. view (update_tick api p) c = (if c \<in> set rms then NoLink else view p c)"
    "\<And>c h. hm_get (sessions p) c = Some h \<Longrightarrow>
       hm_get (sessions (update_tick api p)) c = (if c \<in> set rms then None else Some h) \<and>
       (\<exists>s. ticked api (config p) (tick_now p) (sess p h) (c \<in> set rms) s \<and>
            sess (update_tick api p) h = (if c \<in> set rms then mark_closed s else s))"
  have "can \<in> set rms" using a(3) [OF get] dead wf_lookup(3) [OF wf get] by (auto simp: ticked_def)
  with a(1,2) show ?thesis by simp
qed

text \<open>The running peer with a link that KCP has given up.\<close>

definition demo_dead :: "mini_kcp kcp_peer" where
  "demo_dead = set_sess 0 (set_inner_kcp ((kcp (inner (sess demo_up 0)))\<lparr>mk_dead := True\<rparr>) (sess demo_up 0)) demo_up"

lemma demo_dead_sel [simp]:
  "wf_peer demo_dead" "hm_get (sessions demo_dead) (CanonicalAddr (V4 2 9000)) = Some 0"
  "dead (mini_api to_le_bytes) (sess demo_dead 0)"
proof -
  have "view demo_up (CanonicalAddr (V4 2 9000)) = Up 7" using demo_up_moves by (simp add: moves_def)
  then have est: "state (inner (sess demo_up 0)) = Established" by (simp add: view_def link_of_cases)
  have len: "0 < length (arena demo_up)" using wf_lookup(1) [OF demo_up_sel(1,2)] .
  show "wf_peer demo_dead" unfolding demo_dead_def
    by (rule wf_set_sess [OF demo_up_sel(1,2)]) (simp add: same_identity_def)
  show "hm_get (sessions demo_dead) (CanonicalAddr (V4 2 9000)) = Some 0" by (simp add: demo_dead_def)
  show "dead (mini_api to_le_bytes) (sess demo_dead 0)"
    using est len by (simp add: demo_dead_def dead_def sess_set_sess)
qed

section \<open>Properties\<close>

text \<open>
  C11. From the wire to the application: a data packet that KCP accepts for a session completes some
  messages; the calls of \<^verbatim>\<open>recv\<close> that follow return what was pending before and then these
  messages, in KCP's order, with their exact bytes and the address of the session's peer, each once,
  and the next call waits. A waiting \<^verbatim>\<open>recv\<close> is notified iff there is a new message and the
  idle timer restarts. KCP's receive queue is empty right after the packet, before any call of
  \<^verbatim>\<open>recv\<close>: the messages have moved to the unbounded queue of the peer, so an application that
  does not call \<^verbatim>\<open>recv\<close> holds nothing back in KCP and its window does not slow the sender down,
  unlike what \<^verbatim>\<open>README.md\<close> says.
\<close>

theorem delivery_end_to_end:
  assumes "wf_peer p" and "\<not> shutdown_token p" and "kcp_recv_laws api q"
    and "hm_get (sessions p) (canonicalize from) = Some h"
    and "api_input api payload (kcp (inner (sess p h))) = (Inr n, k)"
    and "new = map (\<lambda>m. \<lparr>dm_peer = peer_addr (sess p h), dm_data = m\<rparr>) (q k)"
    and "sock_local_addr (plat p) = Inr my"
  shows "\<exists>p'. handle_incoming api (encode_kcp_data payload) from p = Some (Inr (), p') \<and>
    fst (recv_times (Suc (length (pending_data p) + length new)) p') =
      map (\<lambda>m. Ready (Inr m)) (pending_data p @ new) @ [Pending] \<and>
    (data_notify p' \<longleftrightarrow> data_notify p \<or> new \<noteq> []) \<and>
    q (kcp (inner (sess p' h))) = [] \<and> last_rx (sess p' h) = fst (epoch_ms (plat p))"
proof -
  from on_kcp_data_delivers [OF assms(3-5) wf_lookup(1) [OF assms(1,4)]] assms(6)
  obtain p' where p': "handle_incoming api (encode_kcp_data payload) from p = Some (Inr (), p')"
    "pending_data p' = pending_data p @ new" "data_notify p' \<longleftrightarrow> data_notify p \<or> new \<noteq> []"
    "q (kcp (inner (sess p' h))) = []" "last_rx (sess p' h) = fst (epoch_ms (plat p))"
    by (auto simp: handle_incoming_def)
  obtain l evs ctl where lp: "link_packet (my < from) from (encode_kcp_data payload) (view p (canonicalize from)) = (l, evs, ctl)"
    by (metis prod_cases3)
  from moves_incoming [OF assms(1,7) lp p'(1)] assms(2) have "\<not> shutdown_token p'"
    by (simp add: moves_def same_env_def)
  with p' recv_times_eq [of "Suc (length (pending_data p) + length new)" p'] show ?thesis by auto
qed

theorem delivery_end_to_end_witness:
  "\<exists>p'. handle_incoming (mini_api to_le_bytes) (encode_kcp_data (to_le_bytes 7 @ [1, 2])) (V4 2 9000) demo_up =
       Some (Inr (), p') \<and>
     fst (recv_times 2 p') = [Ready (Inr \<lparr>dm_peer = V4 2 9000, dm_data = [1, 2]\<rparr>), Pending]"
proof -
  have "\<not> shutdown_token demo_up" "sock_local_addr (plat demo_up) = Inr (V4 1 9000)"
    using demo_up_moves by (simp_all add: moves_def same_env_def same_oracles_def)
  moreover have "hm_get (sessions demo_up) (canonicalize (V4 2 9000)) = Some 0" by simp
  moreover have "api_input (mini_api to_le_bytes) (to_le_bytes 7 @ [1, 2]) (kcp (inner (sess demo_up 0))) =
      (Inr 6, (kcp (inner (sess demo_up 0)))\<lparr>mk_rcv := [[1, 2]]\<rparr>)" by simp
  ultimately obtain p' where
    "handle_incoming (mini_api to_le_bytes) (encode_kcp_data (to_le_bytes 7 @ [1, 2])) (V4 2 9000) demo_up = Some (Inr (), p')"
    "fst (recv_times (Suc (length (pending_data demo_up) + length [\<lparr>dm_peer = V4 2 9000, dm_data = [1 :: u8, 2]\<rparr>])) p') =
       map (\<lambda>m. Ready (Inr m)) (pending_data demo_up @ [\<lparr>dm_peer = V4 2 9000, dm_data = [1, 2]\<rparr>]) @ [Pending]"
    using delivery_end_to_end [OF demo_up_sel(1) _ mini_recv_laws _ _ refl] by fastforce
  then show ?thesis by (auto simp: numeral_2_eq_2 simp del: recv.simps)
qed

text \<open>
  C29. A dead link is reported until the next tick and replaced after it: once KCP has given up on an
  established session, every \<^verbatim>\<open>send\<close> to it fails with \<^verbatim>\<open>DeadLink\<close> and
  changes nothing, however often it is repeated; the next tick of the update task removes the session,
  and the \<^verbatim>\<open>send\<close> after that starts a new handshake with a SYN.
\<close>

theorem dead_link_until_tick:
  assumes "wf_peer p" and "hm_get (sessions p) (canonicalize peer) = Some h" and "dead api (sess p h)"
    and "send api conv peer data (update_tick api p) = (r, p')"
  shows "(\<forall>conv data. send api conv peer data p = (Inl DeadLink, p)) \<and>
    view (update_tick api p) (canonicalize peer) = NoLink \<and>
    view p' (canonicalize peer) = Opening conv \<and>
    control_sent (plat p') = control_sent (plat (update_tick api p)) @ [(peer, encode_control Syn conv)]"
  using send_dead [OF assms(1-3)] tick_removes_dead [OF assms(1-3)] moves_send [OF _ assms(4)]
  by (simp add: moves_def)

theorem dead_link_until_tick_witness:
  "\<exists>r p'. send (mini_api to_le_bytes) 9 (V4 2 9000) [1] (update_tick (mini_api to_le_bytes) demo_dead) = (r, p') \<and>
     send (mini_api to_le_bytes) 9 (V4 2 9000) [1] demo_dead = (Inl DeadLink, demo_dead) \<and>
     view p' (CanonicalAddr (V4 2 9000)) = Opening 9"
proof -
  obtain r p' where se: "send (mini_api to_le_bytes) 9 (V4 2 9000) [1] (update_tick (mini_api to_le_bytes) demo_dead) = (r, p')"
    by fastforce
  from dead_link_until_tick [OF demo_dead_sel(1) _ demo_dead_sel(3) se] se show ?thesis by simp
qed

end
